(* ===== verification/Prelude.thy ===== *)
theory Prelude
  imports Main "HOL-Library.Word" "HOL-Library.Char_ord" "HOL-Library.List_Lexorder"
begin

section \<open>Shared types, automation and list lemmas\<close>

text \<open>
  The types and the generic lemmas the components share.

  A \<open>std::string\<close> of the code, and a range \<open>[p, end)\<close> of a \<open>uint8_t\<close> buffer, are both
  sequences of bytes: they are \<open>bytes\<close>, a list of Isabelle characters, of which there are
  exactly 256. Machine integers are words of their width; \<open>int32_t\<close> and \<open>int64_t\<close> are the same
  words read with \<open>sint\<close>. A \<open>std::map<std::string, T>\<close> is an association list kept in the
  order of its keys, which is the order in which the code iterates over it; the locale
  \<open>std_map\<close> states the contract the components use.
\<close>

type_synonym bytes = string
type_synonym u8 = "8 word"
type_synonym u16 = "16 word"
type_synonym u32 = "32 word"
type_synonym u64 = "64 word"
type_synonym i16 = "16 word"
type_synonym i32 = "32 word"
type_synonym i64 = "64 word"
type_synonym 'v str_map = "(bytes \<times> 'v) list"

abbreviation NUL :: char where
  "NUL \<equiv> CHR 0x00"

named_theorems wire_simps \<open>equations of the wire encoders and decoders\<close>
named_theorems step_defs \<open>definitions of the state changing operations\<close>

subsection \<open>Prefixes and ranges\<close>

lemma take_drop_append:
  assumes "off + n \<le> length xs"
  shows "take n (drop off (xs @ ys)) = take n (drop off xs)"
  using assms by simp

lemma take_drop_shift:
  "take n (drop (length xs + off) (xs @ ys)) = take n (drop off ys)"
  by simp

lemma nth_drop_append:
  assumes "i < length xs"
  shows "(xs @ ys) ! i = xs ! i"
  using assms by (simp add: nth_append)

lemma takeWhile_append_stop:
  "(\<forall>x \<in> set xs. P x) \<Longrightarrow> \<not> P y \<Longrightarrow> takeWhile P (xs @ y # ys) = xs"
  by (induction xs) auto

lemma dropWhile_append_stop:
  "(\<forall>x \<in> set xs. P x) \<Longrightarrow> \<not> P y \<Longrightarrow> dropWhile P (xs @ y # ys) = y # ys"
  by (induction xs) auto

subsection \<open>The ordered string map: std::map<std::string, T>\<close>

text \<open>\<open>operator[]\<close> with an assignment stores or overwrites; \<open>insert\<close> leaves a present key alone.\<close>

fun map_assign :: "bytes \<Rightarrow> 'v \<Rightarrow> 'v str_map \<Rightarrow> 'v str_map" where
  "map_assign k v [] = [(k, v)]"
| "map_assign k v ((k', v') # m) =
     (if k < k' then (k, v) # (k', v') # m
      else if k = k' then (k, v) # m
      else (k', v') # map_assign k v m)"

definition map_insert :: "bytes \<Rightarrow> 'v \<Rightarrow> 'v str_map \<Rightarrow> 'v str_map" where
  "map_insert k v m = (if map_of m k = None then map_assign k v m else m)"

definition map_find :: "'v str_map \<Rightarrow> bytes \<Rightarrow> 'v option" where
  "map_find m k = map_of m k"

definition map_sorted :: "'v str_map \<Rightarrow> bool" where
  "map_sorted m \<longleftrightarrow> sorted_wrt (<) (map fst m)"

lemma fst_set_map_assign: "set (map fst (map_assign k v m)) = insert k (set (map fst m))"
  by (induction k v m rule: map_assign.induct) auto

lemma map_sorted_assign: "map_sorted m \<Longrightarrow> map_sorted (map_assign k v m)"
proof (induction k v m rule: map_assign.induct)
  case (2 k v k' v' m)
  have keys: "fst ` set (map_assign k v m) = insert k (fst ` set m)"
    using fst_set_map_assign [of k v m] by simp
  show ?case
  proof (cases "k < k' \<or> k = k'")
    case True
    with "2.prems" show ?thesis
      by (auto simp: map_sorted_def dest: order.strict_trans)
  next
    case False
    then have less: "k' < k" by auto
    with "2.IH" "2.prems" False have "map_sorted (map_assign k v m)"
      by (simp add: map_sorted_def)
    with less "2.prems" False keys show ?thesis
      by (auto simp: map_sorted_def)
  qed
qed (simp add: map_sorted_def)

lemma map_of_assign:
  "map_sorted m \<Longrightarrow> map_of (map_assign k v m) x = (if x = k then Some v else map_of m x)"
  by (induction k v m rule: map_assign.induct) (auto simp: map_sorted_def)

text \<open>
  The contract of \<open>std::map\<close> as the components use it: what a lookup returns after an
  assignment or an insertion, and that iteration sees the keys in strictly ascending order.
\<close>

locale std_map =
  fixes empty :: "'m"
    and assign :: "bytes \<Rightarrow> 'v \<Rightarrow> 'm \<Rightarrow> 'm"
    and emplace :: "bytes \<Rightarrow> 'v \<Rightarrow> 'm \<Rightarrow> 'm"
    and find :: "'m \<Rightarrow> bytes \<Rightarrow> 'v option"
    and entries :: "'m \<Rightarrow> (bytes \<times> 'v) list"
    and wf :: "'m \<Rightarrow> bool"
  assumes wf_empty: "wf empty"
    and wf_assign: "wf m \<Longrightarrow> wf (assign k v m)"
    and wf_emplace: "wf m \<Longrightarrow> wf (emplace k v m)"
    and find_empty: "find empty k = None"
    and find_assign: "wf m \<Longrightarrow> find (assign k v m) k' = (if k' = k then Some v else find m k')"
    and find_emplace: "wf m \<Longrightarrow> find (emplace k v m) k' =
          (if k' = k then (case find m k of None \<Rightarrow> Some v | Some w \<Rightarrow> Some w) else find m k')"
    and find_entries: "wf m \<Longrightarrow> find m k = map_of (entries m) k"
    and entries_ascending: "wf m \<Longrightarrow> sorted_wrt (<) (map fst (entries m))"
begin

lemma find_fold_assign:
  "wf m \<Longrightarrow> wf (fold (\<lambda>(k, v). assign k v) kvs m) \<and>
     find (fold (\<lambda>(k, v). assign k v) kvs m) k =
       (case map_of (rev kvs) k of Some v \<Rightarrow> Some v | None \<Rightarrow> find m k)"
proof (induction kvs arbitrary: m)
  case (Cons kv kvs)
  obtain k' v' where kv: "kv = (k', v')" by force
  from Cons.prems have "wf (assign k' v' m)" by (rule wf_assign)
  from Cons.IH [OF this] Cons.prems show ?case
    by (auto simp: kv find_assign map_add_def split: option.splits)
qed simp

lemma find_fold_emplace:
  "wf m \<Longrightarrow> wf (fold (\<lambda>(k, v). emplace k v) kvs m) \<and>
     find (fold (\<lambda>(k, v). emplace k v) kvs m) k =
       (case find m k of Some v \<Rightarrow> Some v | None \<Rightarrow> map_of kvs k)"
proof (induction kvs arbitrary: m)
  case (Cons kv kvs)
  obtain k' v' where kv: "kv = (k', v')" by force
  from Cons.prems have "wf (emplace k' v' m)" by (rule wf_emplace)
  from Cons.IH [OF this] Cons.prems show ?case
    by (auto simp: kv find_emplace split: option.splits)
qed (simp split: option.splits)

lemma entries_distinct: "wf m \<Longrightarrow> distinct (map fst (entries m))"
  using entries_ascending strict_sorted_iff by blast

lemma entry_iff_find: "wf m \<Longrightarrow> (k, v) \<in> set (entries m) \<longleftrightarrow> find m k = Some v"
  using entries_distinct find_entries by (simp add: map_of_eq_Some_iff)

end

interpretation smap: std_map "[]" map_assign map_insert map_find "\<lambda>m. m" map_sorted
proof unfold_locales
  show "map_sorted []" by (simp add: map_sorted_def)
  show "map_sorted (map_assign k v m)" if "map_sorted m" for m :: "'a str_map" and k v
    using that by (rule map_sorted_assign)
  show "map_sorted (map_insert k v m)" if "map_sorted m" for m :: "'a str_map" and k v
    using that by (simp add: map_insert_def map_sorted_assign)
  show "map_find (map_insert k v m) k' =
      (if k' = k then (case map_find m k of None \<Rightarrow> Some v | Some w \<Rightarrow> Some w) else map_find m k')"
    if "map_sorted m" for m :: "'a str_map" and k k' v
    using that by (auto simp: map_find_def map_insert_def map_of_assign split: option.splits)
  show "sorted_wrt (<) (map fst m)" if "map_sorted m" for m :: "'a str_map"
    using that by (simp add: map_sorted_def)
qed (simp_all add: map_find_def map_of_assign)

end
