(* ===== verification/Wire_Util.thy ===== *)
theory Wire_Util
  imports Prelude
begin

section \<open>Wire integers and strings: src/protocol/PostgresWireUtil.h\<close>

text \<open>
  Integers travel in network byte order. \<open>ntohl\<close>, \<open>htonl\<close> and their 16-bit kin make the
  in-memory value of a big-endian field, so the readers are the big-endian value of the
  first bytes and the writers append the big-endian digits. The 64-bit ones are built from
  two 32-bit halves by shift and mask, as in the code. \<open>be_nat\<close> and \<open>be_bytes\<close> are the
  reference encoding the round trips are stated over.
\<close>

unbundle bit_operations_syntax

definition be_nat :: "bytes \<Rightarrow> nat" where
  "be_nat bs = foldl (\<lambda>a c. a * 256 + of_char c) 0 bs"

primrec be_bytes :: "nat \<Rightarrow> nat \<Rightarrow> bytes" where
  "be_bytes 0 v = []"
| "be_bytes (Suc n) v = be_bytes n (v div 256) @ [char_of v]"

subsection \<open>Readers\<close>

definition read_uint16 :: "bytes \<Rightarrow> u16" where
  "read_uint16 data = word_of_nat (be_nat (take 2 data))"

definition read_uint32 :: "bytes \<Rightarrow> u32" where
  "read_uint32 data = word_of_nat (be_nat (take 4 data))"

definition read_uint64 :: "bytes \<Rightarrow> u64" where
  "read_uint64 data =
     (let high = read_uint32 data; low = read_uint32 (drop 4 data)
      in push_bit 32 (ucast high) OR ucast low)"

definition read_int16 :: "bytes \<Rightarrow> i16" where
  "read_int16 data = read_uint16 data"

definition read_int32 :: "bytes \<Rightarrow> i32" where
  "read_int32 data = read_uint32 data"

definition read_int64 :: "bytes \<Rightarrow> i64" where
  "read_int64 data = read_uint64 data"

text \<open>
  \<open>read_cstring p end out\<close> on the range \<open>[p, end)\<close>: the bytes before the first NUL and the
  range after it, or \<open>None\<close> (the code's \<open>false\<close>) when \<open>memchr\<close> finds no NUL.
\<close>

fun read_cstring :: "bytes \<Rightarrow> (bytes \<times> bytes) option" where
  "read_cstring [] = None"
| "read_cstring (c # p) =
     (if c = NUL then Some ([], p)
      else map_option (\<lambda>(out, rest). (c # out, rest)) (read_cstring p))"

subsection \<open>Writers\<close>

definition write_uint16 :: "bytes \<Rightarrow> u16 \<Rightarrow> bytes" where
  "write_uint16 buf v = buf @ be_bytes 2 (unat v)"

definition write_uint32 :: "bytes \<Rightarrow> u32 \<Rightarrow> bytes" where
  "write_uint32 buf v = buf @ be_bytes 4 (unat v)"

definition write_uint64 :: "bytes \<Rightarrow> u64 \<Rightarrow> bytes" where
  "write_uint64 buf v =
     write_uint32 (write_uint32 buf (ucast (drop_bit 32 v))) (ucast (v AND 0xFFFFFFFF))"

definition write_int16 :: "bytes \<Rightarrow> i16 \<Rightarrow> bytes" where
  "write_int16 buf v = write_uint16 buf v"

definition write_int32 :: "bytes \<Rightarrow> i32 \<Rightarrow> bytes" where
  "write_int32 buf v = write_uint32 buf v"

definition write_int64 :: "bytes \<Rightarrow> i64 \<Rightarrow> bytes" where
  "write_int64 buf v = write_uint64 buf v"

definition write_string :: "bytes \<Rightarrow> bytes \<Rightarrow> bytes" where
  "write_string buf str = buf @ str @ [NUL]"

definition write_n :: "bytes \<Rightarrow> bytes \<Rightarrow> nat \<Rightarrow> bytes" where
  "write_n buf data len = buf @ take len data"

subsection \<open>The big-endian reference encoding\<close>

lemma be_nat_Nil [simp]: "be_nat [] = 0"
  by (simp add: be_nat_def)

lemma be_nat_snoc: "be_nat (bs @ [c]) = be_nat bs * 256 + of_char c"
  by (simp add: be_nat_def)

lemma be_nat_append: "be_nat (xs @ ys) = be_nat xs * 256 ^ length ys + be_nat ys"
proof (induction ys rule: rev_induct)
  case (snoc y ys)
  have "be_nat (xs @ ys @ [y]) = be_nat ((xs @ ys) @ [y])" by simp
  with snoc show ?case
    by (simp add: be_nat_snoc algebra_simps del: append_assoc)
qed simp

lemma be_nat_less: "be_nat bs < 256 ^ length bs"
proof (induction bs rule: rev_induct)
  case (snoc c bs)
  have "(of_char c :: nat) < 256" by (rule nat_of_char_less_256)
  moreover have "Suc (be_nat bs) * 256 \<le> 256 ^ length bs * 256"
    using snoc by (intro mult_le_mono1) simp
  ultimately have "be_nat bs * 256 + of_char c < 256 ^ length bs * 256"
    by (simp only: mult_Suc)
  then show ?case by (simp add: be_nat_snoc mult.commute)
qed simp

lemma length_be_bytes [simp]: "length (be_bytes n v) = n"
  by (induction n arbitrary: v) auto

lemma be_nat_be_bytes: "be_nat (be_bytes n v) = v mod 256 ^ n"
proof (induction n arbitrary: v)
  case (Suc n)
  have "v mod (256 * 256 ^ n) = 256 * (v div 256 mod 256 ^ n) + v mod 256"
    by (rule mod_mult2_eq)
  with Suc show ?case by (simp add: be_nat_snoc)
qed simp

lemma be_bytes_be_nat: "be_bytes (length bs) (be_nat bs) = bs"
proof (induction bs rule: rev_induct)
  case (snoc c bs)
  have c: "(of_char c :: nat) < 256" by (rule nat_of_char_less_256)
  have "char_of (be_nat bs * 256 + of_char c) = char_of ((be_nat bs * 256 + of_char c) mod 256)"
    by (rule char_of_mod_256 [symmetric])
  also have "(be_nat bs * 256 + of_char c) mod 256 = of_char c" using c by simp
  also have "char_of \<dots> = c" by simp
  finally have "char_of (be_nat bs * 256 + of_char c) = c" .
  with snoc c show ?case by (simp add: be_nat_snoc)
qed simp

lemma be_bytes_inject:
  assumes "be_bytes n v = be_bytes n w" and "v < 256 ^ n" and "w < 256 ^ n"
  shows "v = w"
proof -
  have "v = be_nat (be_bytes n v)" using assms(2) by (simp add: be_nat_be_bytes)
  also have "\<dots> = w" using assms(1,3) by (simp add: be_nat_be_bytes)
  finally show ?thesis .
qed

subsection \<open>Round trips of the fixed width fields\<close>

lemma unat_read_uint16: "unat (read_uint16 data) = be_nat (take 2 data)"
proof -
  have "be_nat (take 2 data) < 256 ^ length (take 2 data)" by (rule be_nat_less)
  also have "\<dots> \<le> (256 :: nat) ^ 2" by (rule power_increasing) auto
  finally show ?thesis by (simp add: read_uint16_def unat_of_nat take_bit_eq_mod)
qed

lemma unat_read_uint32: "unat (read_uint32 data) = be_nat (take 4 data)"
proof -
  have "be_nat (take 4 data) < 256 ^ length (take 4 data)" by (rule be_nat_less)
  also have "\<dots> \<le> (256 :: nat) ^ 4" by (rule power_increasing) auto
  finally show ?thesis by (simp add: read_uint32_def unat_of_nat take_bit_eq_mod)
qed

lemma read_uint16_be_bytes [wire_simps]: "read_uint16 (be_bytes 2 n @ rest) = word_of_nat n"
  by (rule word_unat_eq_iff [THEN iffD2])
    (simp add: unat_read_uint16 be_nat_be_bytes unat_of_nat)

lemma read_uint32_be_bytes [wire_simps]: "read_uint32 (be_bytes 4 n @ rest) = word_of_nat n"
  by (rule word_unat_eq_iff [THEN iffD2])
    (simp add: unat_read_uint32 be_nat_be_bytes unat_of_nat)

lemma push_or_eq_plus:
  fixes high low :: u32
  shows "push_bit 32 (ucast high :: u64) OR ucast low = word_of_nat (unat high * 2 ^ 32 + unat low)"
proof -
  have disj: "push_bit 32 (ucast high :: u64) AND ucast low = 0"
    by (rule bit_word_eqI) (auto simp: bit_simps dest: bit_imp_le_length)
  have "push_bit 32 (ucast high :: u64) OR ucast low = push_bit 32 (ucast high) + ucast low"
    using disj by (simp add: disjunctive_add_eq_or)
  also have "\<dots> = word_of_nat (unat high * 2 ^ 32 + unat low)"
    by (simp add: push_bit_eq_mult of_nat_unat mult.commute)
  finally show ?thesis .
qed

lemma unat_read_uint64: "unat (read_uint64 data) = be_nat (take 8 data)" if "8 \<le> length data"
proof -
  have split: "take 8 data = take 4 data @ take 4 (drop 4 data)"
    using take_add [of 4 4 data] by simp
  have "be_nat (take 8 data) < 256 ^ length (take 8 data)" by (rule be_nat_less)
  then have less: "be_nat (take 8 data) < 2 ^ 64" using that by simp
  have "read_uint64 data = word_of_nat (be_nat (take 8 data))"
    using that
    by (simp only: read_uint64_def Let_def push_or_eq_plus unat_read_uint32 split be_nat_append)
      simp
  with less show ?thesis by (simp add: unat_of_nat take_bit_eq_mod)
qed

lemma be_bytes_add: "be_bytes (m + n) v = be_bytes m (v div 256 ^ n) @ be_bytes n v"
proof (induction n arbitrary: v)
  case (Suc n)
  have "v div 256 div 256 ^ n = v div (256 * 256 ^ n)" by (rule div_mult2_eq [symmetric])
  with Suc show ?case by simp
qed simp

lemma be_bytes_mod: "be_bytes n (v mod 256 ^ n) = be_bytes n v"
  using be_bytes_be_nat [of "be_bytes n v"] by (simp add: be_nat_be_bytes)

lemma write_uint64_be_bytes: "write_uint64 buf v = buf @ be_bytes 8 (unat v)"
proof -
  have "unat v div 2 ^ 32 < 2 ^ 32"
    using unsigned_less [of v, where ?'a = nat] by (simp add: less_mult_imp_div_less)
  then have high: "unat (ucast (drop_bit 32 v) :: u32) = unat v div 256 ^ 4"
    by (simp add: unsigned_ucast_eq unsigned_drop_bit_eq drop_bit_eq_div [of _ "unat v"] take_bit_eq_mod)
  have "v AND 0xFFFFFFFF = take_bit 32 v"
    by (simp add: take_bit_eq_mask mask_eq_exp_minus_1)
  then have low: "unat (ucast (v AND 0xFFFFFFFF) :: u32) = unat v mod 256 ^ 4"
    by (simp only: unsigned_ucast_eq unsigned_take_bit_eq) (simp add: take_bit_eq_mod)
  show ?thesis
    using be_bytes_add [of 4 4 "unat v"] be_bytes_mod [of 4 "unat v"]
    by (simp add: write_uint64_def write_uint32_def high low)
qed

lemma read_uint64_be_bytes [wire_simps]: "read_uint64 (be_bytes 8 n @ rest) = word_of_nat n"
  by (rule word_unat_eq_iff [THEN iffD2])
    (simp add: unat_read_uint64 be_nat_be_bytes unat_of_nat)

lemma write_uint_of_nat [wire_simps]:
  "write_uint16 buf (word_of_nat n) = buf @ be_bytes 2 n"
  "write_uint32 buf (word_of_nat n) = buf @ be_bytes 4 n"
  using be_bytes_mod [of 2 n] be_bytes_mod [of 4 n]
  by (simp_all only: write_uint16_def write_uint32_def unat_of_nat)
    (simp_all add: take_bit_eq_mod)

lemma read_write_uint16: "read_uint16 (write_uint16 [] v @ rest) = v"
  by (simp add: write_uint16_def wire_simps)

lemma read_write_uint32: "read_uint32 (write_uint32 [] v @ rest) = v"
  by (simp add: write_uint32_def wire_simps)

lemma read_write_uint64: "read_uint64 (write_uint64 [] v @ rest) = v"
  by (simp add: write_uint64_be_bytes wire_simps)

lemma length_write_uint [simp]:
  "length (write_uint16 buf v16) = length buf + 2"
  "length (write_uint32 buf v32) = length buf + 4"
  "length (write_uint64 buf v64) = length buf + 8"
  by (simp_all add: write_uint16_def write_uint32_def write_uint64_be_bytes)

lemma read_uint32_append: "4 \<le> length data \<Longrightarrow> read_uint32 (data @ more) = read_uint32 data"
  by (simp add: read_uint32_def)

subsection \<open>Strings up to a NUL\<close>

lemma read_cstring_Some:
  "read_cstring p = Some (out, rest) \<longleftrightarrow> p = out @ NUL # rest \<and> NUL \<notin> set out"
proof (induction p arbitrary: out)
  case (Cons c p)
  then show ?case by (cases out) auto
qed simp

lemma read_cstring_None: "read_cstring p = None \<longleftrightarrow> NUL \<notin> set p"
  by (induction p) auto

lemma read_cstring_append [wire_simps]:
  "NUL \<notin> set s \<Longrightarrow> read_cstring (s @ NUL # rest) = Some (s, rest)"
  by (simp add: read_cstring_Some)

lemma read_cstring_shorter: "read_cstring p = Some (out, rest) \<Longrightarrow> length rest < length p"
  by (auto simp: read_cstring_Some)

end
