(* ===== verification/Pg_Types.thy ===== *)
theory Pg_Types
  imports Wire_Util
begin

section \<open>Protocol data types and error codes\<close>

text \<open>
  The structures of include/PostgresTypes.h (parameters, errors, notifications, fields, the
  type OIDs), the plugin's error codes of include/WFPostgresError.h, and the values of
  \<open>errno\<close> the code sets. The constructors of the structures are definitions; a field of a
  structure becomes a record field with the structure's prefix.
\<close>

record pg_parameter =
  par_is_null :: bool
  par_format :: i32
  par_type_oid :: i32
  par_data :: bytes

definition null_parameter :: pg_parameter where
  "null_parameter = \<lparr>par_is_null = True, par_format = 0, par_type_oid = 0, par_data = []\<rparr>"

definition mk_parameter :: "bytes \<Rightarrow> i32 \<Rightarrow> i32 \<Rightarrow> pg_parameter" where
  "mk_parameter val fmt oid =
     \<lparr>par_is_null = False, par_format = fmt, par_type_oid = oid, par_data = val\<rparr>"

record pg_error =
  err_severity :: bytes
  err_sql_state :: bytes
  err_message :: bytes
  err_detail :: bytes
  err_hint :: bytes
  err_position :: bytes

definition empty_error :: pg_error where
  "empty_error = \<lparr>err_severity = [], err_sql_state = [], err_message = [],
                  err_detail = [], err_hint = [], err_position = []\<rparr>"

record pg_notification =
  ntf_backend_pid :: u32
  ntf_channel :: bytes
  ntf_payload :: bytes

record pg_field =
  fd_name :: bytes
  fd_table_oid :: i32
  fd_column_attr :: i16
  fd_type_oid :: i32
  fd_type_size :: i16
  fd_type_modifier :: i32
  fd_format :: i16

subsection \<open>Type OIDs\<close>

datatype pg_type =
    T_BOOL | T_BYTEA | T_CHAR | T_NAME | T_INT8 | T_INT2 | T_INT4 | T_TEXT | T_OID | T_JSON
  | T_FLOAT4 | T_FLOAT8 | T_BPCHAR | T_VARCHAR | T_DATE | T_TIME | T_TIMESTAMP | T_TIMESTAMPTZ
  | T_NUMERIC | T_UUID | T_JSONB
  | T_BOOL_ARRAY | T_BYTEA_ARRAY | T_INT2_ARRAY | T_INT4_ARRAY | T_TEXT_ARRAY | T_VARCHAR_ARRAY
  | T_INT8_ARRAY | T_FLOAT4_ARRAY | T_FLOAT8_ARRAY | T_UUID_ARRAY | T_JSONB_ARRAY

fun pg_oid :: "pg_type \<Rightarrow> i32" where
  "pg_oid T_BOOL = 16"
| "pg_oid T_BYTEA = 17"
| "pg_oid T_CHAR = 18"
| "pg_oid T_NAME = 19"
| "pg_oid T_INT8 = 20"
| "pg_oid T_INT2 = 21"
| "pg_oid T_INT4 = 23"
| "pg_oid T_TEXT = 25"
| "pg_oid T_OID = 26"
| "pg_oid T_JSON = 114"
| "pg_oid T_FLOAT4 = 700"
| "pg_oid T_FLOAT8 = 701"
| "pg_oid T_BPCHAR = 1042"
| "pg_oid T_VARCHAR = 1043"
| "pg_oid T_DATE = 1082"
| "pg_oid T_TIME = 1083"
| "pg_oid T_TIMESTAMP = 1114"
| "pg_oid T_TIMESTAMPTZ = 1184"
| "pg_oid T_NUMERIC = 1700"
| "pg_oid T_UUID = 2950"
| "pg_oid T_JSONB = 3802"
| "pg_oid T_BOOL_ARRAY = 1000"
| "pg_oid T_BYTEA_ARRAY = 1001"
| "pg_oid T_INT2_ARRAY = 1005"
| "pg_oid T_INT4_ARRAY = 1007"
| "pg_oid T_TEXT_ARRAY = 1009"
| "pg_oid T_VARCHAR_ARRAY = 1015"
| "pg_oid T_INT8_ARRAY = 1016"
| "pg_oid T_FLOAT4_ARRAY = 1021"
| "pg_oid T_FLOAT8_ARRAY = 1022"
| "pg_oid T_UUID_ARRAY = 2951"
| "pg_oid T_JSONB_ARRAY = 3807"

subsection \<open>Error codes\<close>

definition ERR_BASE :: int where "ERR_BASE = 14000"
definition ERR_SSL_NOT_SUPPORTED :: int where "ERR_SSL_NOT_SUPPORTED = ERR_BASE + 1"
definition ERR_SSL_INIT_FAILED :: int where "ERR_SSL_INIT_FAILED = ERR_BASE + 2"
definition ERR_AUTH_FAILED :: int where "ERR_AUTH_FAILED = ERR_BASE + 3"
definition ERR_UNSUPPORTED_AUTH :: int where "ERR_UNSUPPORTED_AUTH = ERR_BASE + 4"
definition ERR_PROTOCOL_NOT_SUPPORTED :: int where "ERR_PROTOCOL_NOT_SUPPORTED = ERR_BASE + 5"
definition ERR_PROTOCOL_ERROR :: int where "ERR_PROTOCOL_ERROR = ERR_BASE + 6"
definition ERR_BAD_RESPONSE :: int where "ERR_BAD_RESPONSE = ERR_BASE + 7"
definition ERR_SSL_CERT_FAILED :: int where "ERR_SSL_CERT_FAILED = ERR_BASE + 8"

lemmas err_defs =
  ERR_BASE_def ERR_SSL_NOT_SUPPORTED_def ERR_SSL_INIT_FAILED_def ERR_AUTH_FAILED_def
  ERR_UNSUPPORTED_AUTH_def ERR_PROTOCOL_NOT_SUPPORTED_def ERR_PROTOCOL_ERROR_def
  ERR_BAD_RESPONSE_def ERR_SSL_CERT_FAILED_def

text \<open>The \<open>errno\<close> values the code assigns, with their Linux numbers.\<close>

definition EBADF :: int where "EBADF = 9"
definition EINVAL :: int where "EINVAL = 22"
definition ERANGE :: int where "ERANGE = 34"
definition EPROTO :: int where "EPROTO = 71"
definition ECONNRESET :: int where "ECONNRESET = 104"

lemmas errno_defs = EBADF_def EINVAL_def ERANGE_def EPROTO_def ECONNRESET_def

end
