(* ===== verification/C_Stdlib.thy ===== *)
theory C_Stdlib
  imports Pg_Types
begin

section \<open>The C and C++ library functions the code uses\<close>

text \<open>
  Decimal numbers as \<open>std::to_string\<close> prints them and \<open>strtoll\<close>, \<open>strtoull\<close>, \<open>std::stoi\<close>
  and the digit loops of the code read them, and the pieces of \<open>std::string\<close> they rest on
  (\<open>c_str\<close>, splitting, hexadecimal digits). A number scanner returns the exact integer and
  the text behind it (the C \<open>endptr\<close>); the callers then apply the range rule of the C
  function: \<open>strtoll\<close> saturates and sets \<open>ERANGE\<close>, \<open>stoi\<close> throws.
\<close>

definition isspace :: "char \<Rightarrow> bool" where
  "isspace c \<longleftrightarrow> c = CHR '' '' \<or> (9 \<le> (of_char c :: nat) \<and> (of_char c :: nat) \<le> 13)"

definition isdigit :: "char \<Rightarrow> bool" where
  "isdigit c \<longleftrightarrow> 48 \<le> (of_char c :: nat) \<and> (of_char c :: nat) \<le> 57"

definition digit_val :: "char \<Rightarrow> nat" where
  "digit_val c = of_char c - 48"

definition c_str :: "bytes \<Rightarrow> bytes" where
  "c_str s = takeWhile (\<lambda>c. c \<noteq> NUL) s"

definition tolower :: "char \<Rightarrow> char" where
  "tolower c = (let n = of_char c :: nat in if 65 \<le> n \<and> n \<le> 90 then char_of (n + 32) else c)"

definition strcasecmp_eq :: "bytes \<Rightarrow> bytes \<Rightarrow> bool" where
  "strcasecmp_eq a b \<longleftrightarrow> map tolower (c_str a) = map tolower (c_str b)"

subsection \<open>Decimal numbers\<close>

fun read_digits :: "nat \<Rightarrow> bytes \<Rightarrow> nat \<times> bytes" where
  "read_digits acc [] = (acc, [])"
| "read_digits acc (c # cs) =
     (if isdigit c then read_digits (acc * 10 + digit_val c) cs else (acc, c # cs))"

definition scan_nat :: "bytes \<Rightarrow> (nat \<times> bytes) option" where
  "scan_nat s = (case s of [] \<Rightarrow> None | c # _ \<Rightarrow> if isdigit c then Some (read_digits 0 s) else None)"

definition scan_int :: "bytes \<Rightarrow> (int \<times> bytes) option" where
  "scan_int s =
     (case dropWhile isspace s of
        [] \<Rightarrow> None
      | c # cs \<Rightarrow>
          if c = CHR ''-'' then map_option (\<lambda>(n, rest). (- int n, rest)) (scan_nat cs)
          else if c = CHR ''+'' then map_option (\<lambda>(n, rest). (int n, rest)) (scan_nat cs)
          else map_option (\<lambda>(n, rest). (int n, rest)) (scan_nat (c # cs)))"

text \<open>Results carry the \<open>errno\<close> value the call sets, if it sets one.\<close>

definition strtoll :: "bytes \<Rightarrow> int \<times> bytes \<times> int option" where
  "strtoll s =
     (case scan_int s of
        None \<Rightarrow> (0, s, None)
      | Some (v, rest) \<Rightarrow>
          if v < - (2 ^ 63) then (- (2 ^ 63), rest, Some ERANGE)
          else if v > 2 ^ 63 - 1 then (2 ^ 63 - 1, rest, Some ERANGE)
          else (v, rest, None))"

definition strtoull :: "bytes \<Rightarrow> nat \<times> bytes \<times> int option" where
  "strtoull s =
     (case scan_int s of
        None \<Rightarrow> (0, s, None)
      | Some (v, rest) \<Rightarrow>
          if \<bar>v\<bar> > 2 ^ 64 - 1 then (2 ^ 64 - 1, rest, Some ERANGE)
          else (nat (v mod 2 ^ 64), rest, None))"

text \<open>\<open>std::stoi\<close>: \<open>None\<close> is a thrown exception (no number, or out of the range of \<open>int\<close>).\<close>

definition stoi :: "bytes \<Rightarrow> int option" where
  "stoi s =
     (case scan_int s of
        None \<Rightarrow> None
      | Some (v, _) \<Rightarrow> if - (2 ^ 31) \<le> v \<and> v \<le> 2 ^ 31 - 1 then Some v else None)"

fun show_nat :: "nat \<Rightarrow> bytes" where
  "show_nat n =
     (if n < 10 then [char_of (48 + n)] else show_nat (n div 10) @ [char_of (48 + n mod 10)])"

declare show_nat.simps [simp del]

definition to_string :: "int \<Rightarrow> bytes" where
  "to_string v = (if v < 0 then CHR ''-'' # show_nat (nat (- v)) else show_nat (nat v))"

text \<open>\<open>%0wd\<close> for a number that is not negative: at least \<open>w\<close> digits.\<close>

definition show_padded :: "nat \<Rightarrow> nat \<Rightarrow> bytes" where
  "show_padded w n = replicate (w - length (show_nat n)) (CHR ''0'') @ show_nat n"

subsection \<open>Splitting and hexadecimal\<close>

fun split_on :: "char \<Rightarrow> bytes \<Rightarrow> bytes list" where
  "split_on sep [] = [[]]"
| "split_on sep (c # cs) =
     (if c = sep then [] # split_on sep cs
      else (case split_on sep cs of [] \<Rightarrow> [[c]] | w # ws \<Rightarrow> (c # w) # ws))"

definition hex_digit :: "nat \<Rightarrow> char" where
  "hex_digit n = ''0123456789abcdef'' ! (n mod 16)"

definition hex_byte :: "char \<Rightarrow> bytes" where
  "hex_byte c = [hex_digit (of_char c div 16), hex_digit (of_char c)]"

definition hex_bytes :: "bytes \<Rightarrow> bytes" where
  "hex_bytes bs = concat (map hex_byte bs)"

subsection \<open>Facts\<close>

lemma of_char_char_of_small: "n < 256 \<Longrightarrow> (of_char (char_of n :: char) :: nat) = n"
  by simp

lemma isdigit_digit: "d < 10 \<Longrightarrow> isdigit (char_of (48 + d :: nat))"
  by (simp add: isdigit_def)

lemma digit_val_digit: "d < 10 \<Longrightarrow> digit_val (char_of (48 + d :: nat)) = d"
  by (simp add: digit_val_def)

lemma show_nat_digits: "\<forall>c \<in> set (show_nat n). isdigit c"
proof (induction n rule: show_nat.induct)
  case (1 n)
  then show ?case
    by (subst show_nat.simps) (auto simp: isdigit_digit)
qed

lemma not_in_show_nat: "\<not> isdigit c \<Longrightarrow> c \<notin> set (show_nat n)"
  using show_nat_digits by blast

lemma show_nat_not_Nil: "show_nat n \<noteq> []"
  by (subst show_nat.simps) simp

lemma read_digits_append:
  "\<forall>c \<in> set ds. isdigit c \<Longrightarrow> read_digits acc (ds @ rest) = read_digits (fst (read_digits acc ds)) rest"
  by (induction acc ds rule: read_digits.induct) auto

lemma read_digits_show_nat: "fst (read_digits 0 (show_nat n)) = n"
proof (induction n rule: show_nat.induct)
  case (1 n)
  show ?case
  proof (cases "n < 10")
    case True
    then show ?thesis by (subst show_nat.simps) (simp add: isdigit_digit digit_val_digit)
  next
    case False
    with 1 have IH: "fst (read_digits 0 (show_nat (n div 10))) = n div 10" by simp
    have "read_digits (n div 10) [char_of (48 + n mod 10)] = (n, [])"
      by (simp add: isdigit_digit digit_val_digit)
    with False show ?thesis
      by (subst show_nat.simps) (simp add: read_digits_append [OF show_nat_digits] IH)
  qed
qed

definition no_digit :: "bytes \<Rightarrow> bool" where
  "no_digit s \<longleftrightarrow> (case s of [] \<Rightarrow> True | c # _ \<Rightarrow> \<not> isdigit c)"

lemma read_digits_no_digit: "no_digit s \<Longrightarrow> read_digits acc s = (acc, s)"
  by (cases s) (auto simp: no_digit_def)

lemma scan_nat_show_nat:
  assumes "no_digit rest"
  shows "scan_nat (show_nat n @ rest) = Some (n, rest)"
proof -
  obtain c cs where s: "show_nat n = c # cs" using show_nat_not_Nil by (cases "show_nat n") auto
  then have "isdigit c" using show_nat_digits [of n] by simp
  moreover have "read_digits 0 (show_nat n @ rest) = (n, rest)"
    using read_digits_append [OF show_nat_digits] assms
    by (simp add: read_digits_show_nat read_digits_no_digit)
  ultimately show ?thesis by (simp add: scan_nat_def s)
qed

lemma isdigit_props: "isdigit c \<Longrightarrow> \<not> isspace c \<and> c \<noteq> CHR ''-'' \<and> c \<noteq> CHR ''+'' \<and> c \<noteq> NUL"
  by (auto simp: isdigit_def isspace_def)

lemma scan_int_to_string:
  assumes "no_digit rest"
  shows "scan_int (to_string v @ rest) = Some (v, rest)"
proof (cases "v < 0")
  case True
  have "scan_nat (show_nat (nat (- v)) @ rest) = Some (nat (- v), rest)"
    by (rule scan_nat_show_nat [OF assms])
  with True show ?thesis
    by (simp add: scan_int_def to_string_def isspace_def)
next
  case False
  obtain c cs where s: "show_nat (nat v) = c # cs"
    using show_nat_not_Nil by (cases "show_nat (nat v)") auto
  then have "isdigit c" using show_nat_digits [of "nat v"] by simp
  then have c: "\<not> isspace c" "c \<noteq> CHR ''-''" "c \<noteq> CHR ''+''" using isdigit_props by auto
  have "scan_nat (c # cs @ rest) = Some (nat v, rest)"
    using scan_nat_show_nat [OF assms, of "nat v"] by (simp add: s)
  with False c show ?thesis by (simp add: scan_int_def to_string_def s)
qed

lemma to_string_no_NUL: "NUL \<notin> set (to_string v)"
  using show_nat_digits isdigit_props by (auto simp: to_string_def)

lemma c_str_id: "NUL \<notin> set s \<Longrightarrow> c_str s = s"
  by (auto simp: c_str_def takeWhile_eq_all_conv)

lemma strtoll_to_string:
  assumes "- (2 ^ 63) \<le> v" and "v < 2 ^ 63"
  shows "strtoll (to_string v) = (v, [], None)"
  using assms scan_int_to_string [of "[]" v] by (simp add: strtoll_def no_digit_def)

lemma stoi_to_string:
  assumes "- (2 ^ 31) \<le> v" and "v < 2 ^ 31"
  shows "stoi (to_string v) = Some v"
  using assms scan_int_to_string [of "[]" v] by (simp add: stoi_def no_digit_def)

lemma strtoull_show_nat:
  assumes "n < 2 ^ 64"
  shows "strtoull (show_nat n) = (n, [], None)"
  using assms scan_int_to_string [of "[]" "int n"]
  by (simp add: strtoull_def no_digit_def to_string_def)

lemma split_on_not_Nil: "split_on sep s \<noteq> []"
  by (induction sep s rule: split_on.induct) (auto split: list.split)

lemma split_on_no_sep: "sep \<notin> set s \<Longrightarrow> split_on sep s = [s]"
  by (induction s) auto

lemma split_on_append: "sep \<notin> set s \<Longrightarrow> split_on sep (s @ sep # t) = s # split_on sep t"
  by (induction s) auto

end
