(* ===== verification/Stream.thy ===== *)
theory Stream
  imports Pg_Types
begin

section \<open>Frames of the backend stream: src/protocol/PostgresStream.cc\<close>

text \<open>
  \<open>PostgresStream\<close> cuts a byte buffer into frames: a type byte, a 32-bit length that counts
  itself, and the payload. The model keeps the buffer as \<open>bytes\<close> and the cursor as a \<open>nat\<close>,
  a payload pointer as its offset in the buffer (\<open>None\<close> is the code's \<open>nullptr\<close>). The
  lengths are 32-bit words, so \<open>1 + len\<close> and \<open>len - 4\<close> wrap where the code's
  \<open>uint32_t\<close> arithmetic does. A stream over a \<open>std::string\<close> owns it (\<open>Owned\<close>); one over
  a raw range only reads it (\<open>Raw\<close>, and \<open>RawNull\<close> after \<open>clear\<close>).

  The lemmas say what one call can return (\<open>next_frame_cases\<close>), that a frame already in the
  buffer stays the same when bytes arrive, and that the reference encoding is decoded.
\<close>

record pg_frame =
  fr_type :: char
  fr_payload :: "nat option"
  fr_payload_size :: nat
  fr_frame_size :: nat

datatype stream_buf = Owned bytes | Raw bytes | RawNull

record pg_stream =
  st_buf :: stream_buf
  st_cursor :: nat

fun get_buf :: "stream_buf \<Rightarrow> bytes" where
  "get_buf (Owned b) = b"
| "get_buf (Raw b) = b"
| "get_buf RawNull = []"

definition get_buf_size :: "pg_stream \<Rightarrow> nat" where
  "get_buf_size s = length (get_buf (st_buf s))"

definition consumed_size :: "pg_stream \<Rightarrow> nat" where
  "consumed_size s = st_cursor s"

text \<open>The difference of two \<open>size_t\<close> values, which wraps when the cursor is past the end.\<close>

definition buffered_size :: "pg_stream \<Rightarrow> nat" where
  "buffered_size s = nat ((int (get_buf_size s) - int (st_cursor s)) mod 2 ^ 64)"

definition stream_append :: "pg_stream \<Rightarrow> bytes \<Rightarrow> pg_stream" where
  "stream_append s data =
     (case st_buf s of Owned b \<Rightarrow> s\<lparr>st_buf := Owned (b @ data)\<rparr> | _ \<Rightarrow> s)"

definition next_frame :: "bool \<Rightarrow> bytes \<Rightarrow> nat \<Rightarrow> (pg_frame \<times> nat) option" where
  "next_frame is_startup buf cursor =
     (let available = length buf - cursor in
      if is_startup then
        (if available < 4 then None
         else let len = read_uint32 (drop cursor buf) in
           if available < unat len then None
           else Some (\<lparr>fr_type = NUL, fr_payload = Some (cursor + 4),
                       fr_payload_size = unat (len - 4), fr_frame_size = unat len\<rparr>,
                      cursor + unat len))
      else if available < 5 then None
      else let typ = buf ! cursor; len = read_uint32 (drop (cursor + 1) buf) in
        if len < 4 then
          Some (\<lparr>fr_type = typ, fr_payload = None, fr_payload_size = 0, fr_frame_size = 5\<rparr>,
                cursor + 5)
        else if available < unat (1 + len) then None
        else Some (\<lparr>fr_type = typ, fr_payload = Some (cursor + 5),
                    fr_payload_size = unat (len - 4), fr_frame_size = unat (1 + len)\<rparr>,
                   cursor + unat (1 + len)))"

definition stream_next_frame :: "pg_stream \<Rightarrow> bool \<Rightarrow> (pg_frame \<times> pg_stream) option" where
  "stream_next_frame s is_startup =
     map_option (\<lambda>(fr, c). (fr, s\<lparr>st_cursor := c\<rparr>))
       (next_frame is_startup (get_buf (st_buf s)) (st_cursor s))"

definition stream_compact :: "pg_stream \<Rightarrow> pg_stream" where
  "stream_compact s =
     (if st_cursor s > 0
      then s\<lparr>st_buf := (case st_buf s of
                Owned b \<Rightarrow> Owned (drop (st_cursor s) b)
              | Raw b \<Rightarrow> Raw (drop (st_cursor s) b)
              | RawNull \<Rightarrow> RawNull),
             st_cursor := 0\<rparr>
      else s)"

definition truncate_unconsumed :: "pg_stream \<Rightarrow> pg_stream" where
  "truncate_unconsumed s =
     (case st_buf s of
        Owned b \<Rightarrow> if length b > st_cursor s then s\<lparr>st_buf := Owned (take (st_cursor s) b)\<rparr> else s
      | _ \<Rightarrow> s)"

definition stream_clear :: "pg_stream \<Rightarrow> pg_stream" where
  "stream_clear s =
     s\<lparr>st_buf := (case st_buf s of Owned b \<Rightarrow> Owned [] | Raw b \<Rightarrow> RawNull | RawNull \<Rightarrow> RawNull),
       st_cursor := 0\<rparr>"

lemmas stream_defs [step_defs] =
  get_buf_size_def consumed_size_def buffered_size_def stream_append_def stream_next_frame_def
  stream_compact_def truncate_unconsumed_def stream_clear_def

text \<open>
  The bytes a payload pointer denotes: \<open>None\<close> when the range leaves the buffer. Forming such
  a range is undefined in C++, so an operation that does it has no result in the model.
\<close>

definition payload_view :: "bytes \<Rightarrow> pg_frame \<Rightarrow> bytes option" where
  "payload_view buf fr =
     (case fr_payload fr of
        None \<Rightarrow> None
      | Some off \<Rightarrow>
          if off + fr_payload_size fr \<le> length buf
          then Some (take (fr_payload_size fr) (drop off buf)) else None)"

text \<open>The reference encoding of a frame, on the sending side.\<close>

definition encode_frame :: "char \<Rightarrow> bytes \<Rightarrow> bytes" where
  "encode_frame typ payload = typ # be_bytes 4 (4 + length payload) @ payload"

subsection \<open>One frame\<close>

lemma length_encode_frame [simp]: "length (encode_frame t p) = 5 + length p"
  by (simp add: encode_frame_def)

lemma unat_one_plus: "len \<noteq> 0xFFFFFFFF \<Longrightarrow> unat (1 + len :: u32) = 1 + unat len"
proof -
  assume "len \<noteq> 0xFFFFFFFF"
  moreover have "unat (0xFFFFFFFF :: u32) = 2 ^ 32 - 1" by simp
  ultimately have "unat len \<noteq> 2 ^ 32 - 1" by (metis word_unat_eq_iff)
  with unsigned_less [of len, where ?'a = nat] have "1 + unat len < 2 ^ 32" by simp
  then show ?thesis by (simp add: unat_word_ariths)
qed

lemma unat_minus_four: "4 \<le> len \<Longrightarrow> unat (len - 4 :: u32) = unat len - 4"
  by (simp add: unat_sub)

text \<open>A frame whose length field is 0xFFFFFFFF: \<open>1 + len\<close> is 0, so the cursor stays.\<close>

lemma next_frame_wrapped:
  assumes "5 \<le> length buf - c" and "read_uint32 (drop (c + 1) buf) = 0xFFFFFFFF"
  shows "next_frame False buf c =
    Some (\<lparr>fr_type = buf ! c, fr_payload = Some (c + 5), fr_payload_size = 0xFFFFFFFB,
           fr_frame_size = 0\<rparr>, c)"
  using assms by (simp add: next_frame_def)

lemma next_frame_cases:
  assumes "next_frame False buf c = Some (fr, c')"
  obtains (bad_length) "c + 5 \<le> length buf" "fr = \<lparr>fr_type = buf ! c, fr_payload = None,
      fr_payload_size = 0, fr_frame_size = 5\<rparr>" "c' = c + 5"
      "unat (read_uint32 (drop (c + 1) buf)) < 4"
  | (wrapped) "c + 5 \<le> length buf" "c' = c" "fr_frame_size fr = 0"
      "fr_payload fr = Some (c + 5)" "fr_payload_size fr = 0xFFFFFFFB" "fr_type fr = buf ! c"
      "read_uint32 (drop (c + 1) buf) = 0xFFFFFFFF"
  | (good) n where "c + 5 + n \<le> length buf" "fr = \<lparr>fr_type = buf ! c, fr_payload = Some (c + 5),
      fr_payload_size = n, fr_frame_size = 5 + n\<rparr>" "c' = c + 5 + n"
      "unat (read_uint32 (drop (c + 1) buf)) = 4 + n"
proof -
  let ?len = "read_uint32 (drop (c + 1) buf)"
  from assms have av: "5 \<le> length buf - c" by (simp add: next_frame_def Let_def split: if_splits)
  consider "?len < 4" | "?len = 0xFFFFFFFF" | "4 \<le> ?len" "?len \<noteq> 0xFFFFFFFF" by fastforce
  then show ?thesis
  proof cases
    case 1
    with assms av show ?thesis
      by (intro bad_length) (auto simp: next_frame_def Let_def word_less_nat_alt)
  next
    case 2
    with assms av show ?thesis
      by (intro wrapped) (auto simp: next_frame_def Let_def)
  next
    case 3
    then have len: "4 \<le> unat ?len" by (simp add: word_le_nat_alt)
    with assms av 3 show ?thesis
      by (intro good [of "unat ?len - 4"])
        (auto simp: next_frame_def Let_def unat_one_plus unat_minus_four not_less [symmetric]
          split: if_splits)
  qed
qed

lemma next_frame_progress:
  assumes "next_frame False buf c = Some (fr, c')"
  shows "c' = c + fr_frame_size fr" and "c + 5 \<le> length buf" and "c' \<le> length buf"
    and "fr_frame_size fr \<noteq> 0 \<Longrightarrow> c < c'"
  by (rule next_frame_cases [OF assms]; simp)+

lemma next_frame_view:
  assumes "next_frame False buf c = Some (fr, c')" and "fr_frame_size fr \<noteq> 0"
    and "fr_payload fr \<noteq> None"
  shows "payload_view buf fr = Some (take (fr_payload_size fr) (drop (c + 5) buf))"
    and "c' = c + 5 + fr_payload_size fr"
  using assms by (auto elim!: next_frame_cases simp: payload_view_def)

text \<open>A frame that is in the buffer stays the same when more bytes arrive.\<close>

lemma next_frame_append:
  assumes "next_frame False buf c = Some (fr, c')"
  shows "next_frame False (buf @ extra) c = Some (fr, c')"
proof -
  from assms have av: "c + 5 \<le> length buf" by (rule next_frame_progress)
  have "read_uint32 (drop (c + 1) (buf @ extra)) = read_uint32 (drop (c + 1) buf)"
    using av by (simp add: read_uint32_append)
  with av assms show ?thesis
    by (auto simp: next_frame_def Let_def nth_append split: if_splits)
qed

lemma next_frame_restrict:
  assumes "next_frame False (buf @ extra) c = Some (fr, c')" and "c' \<le> length buf"
    and "fr_frame_size fr \<noteq> 0"
  shows "next_frame False buf c = Some (fr, c')"
proof -
  have "fr_frame_size fr = 0 \<or> c + 5 \<le> c'" by (rule next_frame_cases [OF assms(1)]) auto
  then have "c + 5 \<le> length buf" using assms(2,3) by simp
  moreover from this have "read_uint32 (drop (c + 1) (buf @ extra)) = read_uint32 (drop (c + 1) buf)"
    by (simp add: read_uint32_append)
  ultimately show ?thesis
    using assms by (auto simp: next_frame_def Let_def nth_append split: if_splits)
qed

lemma payload_view_append:
  assumes "payload_view buf fr = Some v"
  shows "payload_view (buf @ extra) fr = Some v"
  using assms by (auto simp: payload_view_def split: option.splits if_splits)

text \<open>Decoding the reference encoding at its place in a buffer.\<close>

lemma next_frame_encode [wire_simps]:
  assumes "4 + length p < 2 ^ 32 - 1"
  shows "next_frame False (pre @ encode_frame t p @ rest) (length pre) =
    Some (\<lparr>fr_type = t, fr_payload = Some (length pre + 5), fr_payload_size = length p,
           fr_frame_size = 5 + length p\<rparr>, length pre + 5 + length p)"
proof -
  let ?len = "word_of_nat (4 + length p) :: u32"
  have un: "unat ?len = 4 + length p"
    using assms by (simp only: unat_of_nat) simp
  have rd: "read_uint32 (drop (length pre + 1) (pre @ encode_frame t p @ rest)) = ?len"
    by (simp add: encode_frame_def wire_simps)
  have "unat (0xFFFFFFFF :: u32) = 2 ^ 32 - 1" by simp
  with un assms have ne: "?len \<noteq> 0xFFFFFFFF" by (metis nat_less_le)
  have ge: "\<not> ?len < 4" using un by (simp add: word_less_nat_alt)
  then have "4 \<le> ?len" by simp
  then have sub: "unat (?len - 4) = length p" using un by (simp only: unat_minus_four)
  have inc: "unat (1 + ?len) = 5 + length p" by (simp only: unat_one_plus [OF ne] un)
  show ?thesis
    using rd ge sub inc by (simp add: next_frame_def Let_def) (simp add: encode_frame_def nth_append)
qed

lemma payload_view_encode [wire_simps]:
  "payload_view (pre @ encode_frame t p @ rest)
     \<lparr>fr_type = t, fr_payload = Some (length pre + 5), fr_payload_size = length p,
      fr_frame_size = n\<rparr> = Some p"
  by (simp add: payload_view_def encode_frame_def)

end
