(* ===== verification/Frame_Loop.thy ===== *)
theory Frame_Loop
  imports Stream
begin

section \<open>Loops over the frames of a buffer\<close>

text \<open>
  \<open>frames_from buf c\<close> is the abstract view of a stream: the frames \<open>next_frame\<close> yields from
  the cursor \<open>c\<close> on, each with the cursor after it. It stops after a frame of size 0, which
  does not move the cursor (a length field of 0xFFFFFFFF); \<open>no_wrap\<close> says there is none.

  Every loop \<open>while (s.next_frame(&frame))\<close> of the code (the response's \<open>append\<close>,
  \<open>get_copy_data\<close> and \<open>is_copy_done\<close>, the cursor's \<open>parse_metadata\<close>, \<open>fetch_row\<close> and
  \<open>next_result_set\<close>) is an instance of the locale \<open>frame_loop\<close>: a body that continues with
  a new state, leaves the loop with a result, or is undefined. The loops themselves are
  written with \<open>partial_function\<close>, so that \<open>None\<close> is a loop that does not return; the
  locale proves once that without a wrapped length they return what running the body over
  \<open>frames_from\<close> gives.
\<close>

datatype ('s, 'r) loop_step = Continue 's | Break 'r | Undefined

lemma next_frame_measure:
  assumes "next_frame False buf c = Some (fr, c')" and "fr_frame_size fr \<noteq> 0"
  shows "length buf - c' < length buf - c"
  using next_frame_progress [OF assms(1)] assms(2) by simp

function frames_from :: "bytes \<Rightarrow> nat \<Rightarrow> (pg_frame \<times> nat) list" where
  "frames_from buf c =
     (case next_frame False buf c of
        None \<Rightarrow> []
      | Some (fr, c') \<Rightarrow>
          (fr, c') # (if fr_frame_size fr = 0 then [] else frames_from buf c'))"
  by pat_completeness auto
termination
  by (relation "measure (\<lambda>(buf, c). length buf - c)")
    (auto dest: next_frame_measure)

declare frames_from.simps [simp del]

definition no_wrap :: "bytes \<Rightarrow> nat \<Rightarrow> bool" where
  "no_wrap buf c \<longleftrightarrow> (\<forall>(fr, c') \<in> set (frames_from buf c). fr_frame_size fr \<noteq> 0)"

definition frames_end :: "bytes \<Rightarrow> nat \<Rightarrow> nat" where
  "frames_end buf c = (case frames_from buf c of [] \<Rightarrow> c | xs \<Rightarrow> snd (last xs))"

fun exec_frames ::
  "(bytes \<Rightarrow> pg_frame \<Rightarrow> nat \<Rightarrow> 's \<Rightarrow> ('s, 'r) loop_step) \<Rightarrow> bytes \<Rightarrow> 's \<Rightarrow>
   (pg_frame \<times> nat) list \<Rightarrow> ('s, 'r) loop_step" where
  "exec_frames body buf s [] = Continue s"
| "exec_frames body buf s ((fr, c) # xs) =
     (case body buf fr c s of
        Continue s' \<Rightarrow> exec_frames body buf s' xs
      | Break r \<Rightarrow> Break r
      | Undefined \<Rightarrow> Undefined)"

definition loop_result :: "(nat \<Rightarrow> 's \<Rightarrow> 'r) \<Rightarrow> nat \<Rightarrow> ('s, 'r) loop_step \<Rightarrow> 'r option" where
  "loop_result finish c st =
     (case st of Continue s \<Rightarrow> Some (finish c s) | Break r \<Rightarrow> Some r | Undefined \<Rightarrow> None)"

lemma loop_result_simps [simp]:
  "loop_result finish c (Continue s) = Some (finish c s)"
  "loop_result finish c (Break r) = Some r"
  "loop_result finish c Undefined = None"
  by (simp_all add: loop_result_def)

lemma exec_frames_append:
  "exec_frames body buf s (xs @ ys) =
     (case exec_frames body buf s xs of
        Continue s' \<Rightarrow> exec_frames body buf s' ys
      | Break r \<Rightarrow> Break r
      | Undefined \<Rightarrow> Undefined)"
  by (induction body buf s xs rule: exec_frames.induct) (auto split: loop_step.split)

lemma exec_frames_cong:
  assumes "\<And>fr c s. (fr, c) \<in> set xs \<Longrightarrow> body buf fr c s = body' buf' fr c s"
  shows "exec_frames body buf s xs = exec_frames body' buf' s xs"
  using assms
  by (induction body buf s xs rule: exec_frames.induct) (auto split: loop_step.split)

lemma exec_frames_map:
  assumes "\<And>fr c s. (fr, c) \<in> set xs \<Longrightarrow> body' buf' fr c (f s) = map_loop_step f g (body buf fr c s)"
  shows "exec_frames body' buf' (f s) xs = map_loop_step f g (exec_frames body buf s xs)"
  using assms
  by (induction body buf s xs rule: exec_frames.induct) (auto split: loop_step.split)

lemma frames_from_None: "next_frame False buf c = None \<Longrightarrow> frames_from buf c = []"
  by (subst frames_from.simps) simp

lemma frames_from_Some:
  "next_frame False buf c = Some (fr, c') \<Longrightarrow> fr_frame_size fr \<noteq> 0 \<Longrightarrow>
   frames_from buf c = (fr, c') # frames_from buf c'"
  by (subst frames_from.simps) simp

lemma no_wrap_step:
  assumes "no_wrap buf c" and "next_frame False buf c = Some (fr, c')"
  shows "fr_frame_size fr \<noteq> 0" and "no_wrap buf c'"
    and "frames_from buf c = (fr, c') # frames_from buf c'"
proof -
  show nz: "fr_frame_size fr \<noteq> 0"
    using assms by (auto simp: no_wrap_def frames_from.simps [of buf c])
  show "frames_from buf c = (fr, c') # frames_from buf c'"
    using assms(2) nz by (rule frames_from_Some)
  with assms(1) show "no_wrap buf c'" by (simp add: no_wrap_def)
qed

lemma no_wrap_induct [consumes 1, case_names None Some]:
  assumes "no_wrap buf c"
    and "\<And>c. next_frame False buf c = None \<Longrightarrow> P c"
    and "\<And>c fr c'. next_frame False buf c = Some (fr, c') \<Longrightarrow> fr_frame_size fr \<noteq> 0 \<Longrightarrow>
      no_wrap buf c' \<Longrightarrow> P c' \<Longrightarrow> P c"
  shows "P c"
  using assms(1)
proof (induction "length buf - c" arbitrary: c rule: less_induct)
  case less
  show ?case
  proof (cases "next_frame False buf c")
    case None
    then show ?thesis by (rule assms(2))
  next
    case (Some x)
    obtain fr c' where x: "x = (fr, c')" by force
    note step = no_wrap_step [OF less.prems Some [unfolded x]]
    have "P c'"
      using next_frame_measure [OF Some [unfolded x] step(1)] step(2) by (rule less.hyps)
    then show ?thesis by (rule assms(3) [OF Some [unfolded x] step(1,2)])
  qed
qed

lemma frames_end_None: "next_frame False buf c = None \<Longrightarrow> frames_end buf c = c"
  by (simp add: frames_end_def frames_from_None)

lemma frames_end_Some:
  assumes "next_frame False buf c = Some (fr, c')" and "fr_frame_size fr \<noteq> 0"
  shows "frames_end buf c = frames_end buf c'"
  by (simp add: frames_end_def frames_from_Some [OF assms] split: list.split)

lemma frames_end_bounds:
  assumes "no_wrap buf c" and "c \<le> length buf"
  shows "c \<le> frames_end buf c \<and> frames_end buf c \<le> length buf \<and>
         next_frame False buf (frames_end buf c) = None"
  using assms
proof (induction rule: no_wrap_induct)
  case (Some c fr c')
  have "c < c'" and "c' \<le> length buf"
    using next_frame_progress [OF Some(1)] Some(2) by simp_all
  with Some show ?case by (simp add: frames_end_Some)
qed (simp add: frames_end_None)

text \<open>Bytes that arrive later only add frames behind the ones already there.\<close>

lemma frames_from_append:
  assumes "no_wrap buf c"
  shows "frames_from (buf @ extra) c = frames_from buf c @ frames_from (buf @ extra) (frames_end buf c)"
  using assms
proof (induction rule: no_wrap_induct)
  case (None c)
  then show ?case by (simp add: frames_from_None frames_end_None)
next
  case (Some c fr c')
  from Some(1) have "next_frame False (buf @ extra) c = Some (fr, c')" by (rule next_frame_append)
  with Some show ?case by (simp add: frames_from_Some frames_end_Some)
qed

lemma frames_end_append:
  assumes "no_wrap buf c"
  shows "frames_end (buf @ extra) c = frames_end (buf @ extra) (frames_end buf c)"
  using assms
proof (induction rule: no_wrap_induct)
  case (Some c fr c')
  from Some(1) have "next_frame False (buf @ extra) c = Some (fr, c')" by (rule next_frame_append)
  with Some show ?case by (simp add: frames_end_Some)
qed (simp add: frames_end_None)

lemma no_wrap_append:
  assumes "no_wrap (buf @ extra) c"
  shows "no_wrap buf c"
  using assms
proof (induction rule: no_wrap_induct)
  case (None c)
  then have "next_frame False buf c = None"
    using next_frame_append [of buf c] by (metis not_Some_eq old.prod.exhaust)
  then show ?case by (simp add: no_wrap_def frames_from_None)
next
  case (Some c fr c')
  show ?case
  proof (cases "next_frame False buf c")
    case None
    then show ?thesis by (simp add: no_wrap_def frames_from_None)
  next
    case (Some x)
    then have "next_frame False buf c = Some (fr, c')"
      using next_frame_append [of buf c] \<open>next_frame False (buf @ extra) c = Some (fr, c')\<close>
      by (cases x) fastforce
    with \<open>fr_frame_size fr \<noteq> 0\<close> \<open>no_wrap buf c'\<close> show ?thesis
      by (simp add: no_wrap_def frames_from_Some)
  qed
qed

lemma frames_in_range:
  assumes "(fr, c') \<in> set (frames_from buf c)" and "no_wrap buf c"
  shows "\<exists>c0. c \<le> c0 \<and> next_frame False buf c0 = Some (fr, c')"
  using assms(2,1)
proof (induction rule: no_wrap_induct)
  case (None c)
  then show ?case by (simp add: frames_from_None)
next
  case (Some c fr' c1)
  have "c < c1" using next_frame_progress [OF Some(1)] Some(2) by simp
  with Some show ?case by (auto simp: frames_from_Some) (meson less_imp_le order_trans)
qed

subsection \<open>A stream made of the reference encoding\<close>

type_synonym message = "char \<times> bytes"

definition encode_msgs :: "message list \<Rightarrow> bytes" where
  "encode_msgs ms = concat (map (\<lambda>(t, p). encode_frame t p) ms)"

fun placed :: "nat \<Rightarrow> message list \<Rightarrow> (pg_frame \<times> nat) list" where
  "placed off [] = []"
| "placed off ((t, p) # ms) =
     (\<lparr>fr_type = t, fr_payload = Some (off + 5), fr_payload_size = length p,
       fr_frame_size = 5 + length p\<rparr>, off + 5 + length p) # placed (off + 5 + length p) ms"

definition small_msgs :: "message list \<Rightarrow> bool" where
  "small_msgs ms \<longleftrightarrow> (\<forall>(t, p) \<in> set ms. 4 + length p < 2 ^ 32 - 1)"

lemma encode_msgs_simps [simp]:
  "encode_msgs [] = []"
  "encode_msgs ((t, p) # ms) = encode_frame t p @ encode_msgs ms"
  by (simp_all add: encode_msgs_def)

lemma frames_from_encode:
  assumes "small_msgs ms" and "next_frame False (pre @ encode_msgs ms @ rest)
      (length pre + length (encode_msgs ms)) = None"
  shows "frames_from (pre @ encode_msgs ms @ rest) (length pre) = placed (length pre) ms"
  using assms
proof (induction ms arbitrary: pre)
  case Nil
  then show ?case by (simp add: frames_from_None)
next
  case (Cons m ms)
  obtain t p where m: "m = (t, p)" by force
  let ?pre = "pre @ encode_frame t p"
  have len: "4 + length p < 2 ^ 32 - 1" using Cons.prems by (simp add: small_msgs_def m)
  have "frames_from (?pre @ encode_msgs ms @ rest) (length ?pre) = placed (length ?pre) ms"
    by (rule Cons.IH) (use Cons.prems m in \<open>simp_all add: small_msgs_def algebra_simps\<close>)
  then show ?case
    using next_frame_encode [OF len, of pre t "encode_msgs ms @ rest"]
    by (simp add: m frames_from_Some algebra_simps)
qed

lemma no_wrap_encode:
  assumes "small_msgs ms" and "next_frame False (pre @ encode_msgs ms @ rest)
      (length pre + length (encode_msgs ms)) = None"
  shows "no_wrap (pre @ encode_msgs ms @ rest) (length pre)"
proof -
  have "\<forall>(fr, c') \<in> set (placed off ms). fr_frame_size fr \<noteq> 0" for off
    by (induction off ms rule: placed.induct) auto
  then show ?thesis by (simp add: no_wrap_def frames_from_encode [OF assms])
qed

subsection \<open>The loops of the code\<close>

locale frame_loop =
  fixes body :: "bytes \<Rightarrow> pg_frame \<Rightarrow> nat \<Rightarrow> 's \<Rightarrow> ('s, 'r) loop_step"
    and finish :: "nat \<Rightarrow> 's \<Rightarrow> 'r"
    and loop :: "bytes \<Rightarrow> nat \<Rightarrow> 's \<Rightarrow> 'r option"
  assumes loop_unfold: "loop buf c s =
    (case next_frame False buf c of
       None \<Rightarrow> Some (finish c s)
     | Some (fr, c') \<Rightarrow>
         (case body buf fr c' s of
            Continue s' \<Rightarrow> loop buf c' s'
          | Break r \<Rightarrow> Some r
          | Undefined \<Rightarrow> None))"
begin

lemma loop_None: "next_frame False buf c = None \<Longrightarrow> loop buf c s = Some (finish c s)"
  by (subst loop_unfold) simp

lemma loop_Break:
  "next_frame False buf c = Some (fr, c') \<Longrightarrow> body buf fr c' s = Break r \<Longrightarrow>
   loop buf c s = Some r"
  by (subst loop_unfold) simp

lemma loop_Continue:
  "next_frame False buf c = Some (fr, c') \<Longrightarrow> body buf fr c' s = Continue s' \<Longrightarrow>
   loop buf c s = loop buf c' s'"
  by (subst loop_unfold) simp

lemma loop_Undefined:
  "next_frame False buf c = Some (fr, c') \<Longrightarrow> body buf fr c' s = Undefined \<Longrightarrow>
   loop buf c s = None"
  by (subst loop_unfold) simp

text \<open>Without a wrapped length the loop is the body run over the frames of the buffer.\<close>

lemma loop_exec:
  assumes "no_wrap buf c"
  shows "loop buf c s = loop_result finish (frames_end buf c) (exec_frames body buf s (frames_from buf c))"
  using assms
proof (induction arbitrary: s rule: no_wrap_induct)
  case (None c)
  then show ?case by (simp add: loop_None frames_from_None frames_end_None)
next
  case (Some c fr c')
  show ?case
  proof (cases "body buf fr c' s")
    case (Continue s')
    with Some show ?thesis
      by (simp add: loop_Continue frames_from_Some frames_end_Some)
  qed (use Some in \<open>simp_all add: loop_Break loop_Undefined frames_from_Some\<close>)
qed

lemma loop_returns:
  assumes "no_wrap buf c"
    and "\<And>fr c' s. (fr, c') \<in> set (frames_from buf c) \<Longrightarrow> body buf fr c' s \<noteq> Undefined"
  shows "\<exists>r. loop buf c s = Some r"
proof -
  have "exec_frames body buf s xs \<noteq> Undefined"
    if "\<forall>(fr, c') \<in> set xs. \<forall>s. body buf fr c' s \<noteq> Undefined" for xs s
    using that
    by (induction body buf s xs rule: exec_frames.induct) (auto split: loop_step.split)
  moreover have "\<forall>(fr, c') \<in> set (frames_from buf c). \<forall>s. body buf fr c' s \<noteq> Undefined"
    using assms(2) by auto
  ultimately have "exec_frames body buf s (frames_from buf c) \<noteq> Undefined" by blast
  then show ?thesis
    by (cases "exec_frames body buf s (frames_from buf c)") (simp_all add: loop_exec [OF assms(1)])
qed

text \<open>A prefix of the stream that the body runs through can be run first.\<close>

lemma loop_prefix:
  assumes "no_wrap buf c"
    and "exec_frames body (buf @ extra) s (frames_from buf c) = Continue s'"
  shows "loop (buf @ extra) c s = loop (buf @ extra) (frames_end buf c) s'"
  using assms
proof (induction arbitrary: s rule: no_wrap_induct)
  case (None c)
  then show ?case by (simp add: frames_from_None frames_end_None)
next
  case (Some c fr c')
  then obtain s1 where s1: "body (buf @ extra) fr c' s = Continue s1"
    and rest: "exec_frames body (buf @ extra) s1 (frames_from buf c') = Continue s'"
    by (auto simp: frames_from_Some split: loop_step.splits)
  have "loop (buf @ extra) c s = loop (buf @ extra) c' s1"
    using next_frame_append [OF Some(1)] s1 by (rule loop_Continue)
  also have "\<dots> = loop (buf @ extra) (frames_end buf c') s'"
    using rest by (rule Some.IH)
  finally show ?case using Some by (simp add: frames_end_Some)
qed

text \<open>
  A loop over the reference encoding runs the body over the placed frames, whatever follows
  them.
\<close>

lemma loop_placed:
  assumes "small_msgs ms" and "buf = pre @ encode_msgs ms @ rest"
  shows "loop buf (length pre) s =
    (case exec_frames body buf s (placed (length pre) ms) of
       Continue s' \<Rightarrow> loop buf (length pre + length (encode_msgs ms)) s'
     | Break r \<Rightarrow> Some r
     | Undefined \<Rightarrow> None)"
  using assms
proof (induction ms arbitrary: pre s)
  case (Cons m ms)
  obtain t p where m: "m = (t, p)" by force
  have len: "4 + length p < 2 ^ 32 - 1" and small: "small_msgs ms"
    using Cons.prems(1) by (simp_all add: small_msgs_def m)
  let ?pre = "pre @ encode_frame t p"
  let ?fr = "\<lparr>fr_type = t, fr_payload = Some (length pre + 5), fr_payload_size = length p,
    fr_frame_size = 5 + length p\<rparr>" and ?c = "length pre + 5 + length p"
  have frame: "next_frame False buf (length pre) = Some (?fr, ?c)"
    using next_frame_encode [OF len, of pre t "encode_msgs ms @ rest"] Cons.prems(2) m by simp
  have len_pre: "length ?pre = ?c" by simp
  show ?case
  proof (cases "body buf ?fr ?c s")
    case (Continue s1)
    have buf: "buf = ?pre @ encode_msgs ms @ rest" using Cons.prems(2) m by simp
    have end_eq: "length ?pre + length (encode_msgs ms) = length pre + length (encode_msgs (m # ms))"
      by (simp add: m)
    show ?thesis
      using Cons.IH [OF small buf, of s1, unfolded end_eq len_pre] loop_Continue [OF frame Continue]
        Continue m
      by (auto simp: add.assoc split: loop_step.split)
  next
    case (Break r)
    with loop_Break [OF frame Break] m show ?thesis by simp
  next
    case Undefined
    with loop_Undefined [OF frame Undefined] m show ?thesis by simp
  qed
qed simp

end

end
