(* ===== verification/Request.thy ===== *)
theory Request
  imports Frame_Loop
begin

section \<open>Building requests: src/protocol/PostgresRequest.cc\<close>

text \<open>
  \<open>pg_request\<close> is the state of a \<open>PostgresRequest\<close> (include/PostgresRequest.h).
  \<open>request_encode\<close> is its \<open>encode\<close>: it fills \<open>buf_\<close>, lets the first I/O vector point at
  the whole of it, and returns the number of vectors used, so the bytes sent are
  \<open>request_sent\<close>. Sizes are written as 16- and 32-bit words, wrapping as the code does.

  The server's side is specified by decoders of the documented message formats
  (\<open>srv_parse\<close>, \<open>srv_bind\<close>, \<open>srv_startup\<close>, \<dots>): a request is right when the server's
  framing finds exactly the intended messages and decodes from them what the request holds.
\<close>

record pg_request =
  rq_buf :: bytes
  rq_is_startup :: bool
  rq_is_disconnect :: bool
  rq_is_cancel :: bool
  rq_is_copy :: bool
  rq_copy_done :: bool
  rq_copy_fail :: bool
  rq_wait_notification :: bool
  rq_has_params :: bool
  rq_protocol_version :: u32
  rq_startup_params :: "bytes str_map"
  rq_result_format :: i32
  rq_cancel_pid :: i32
  rq_cancel_secret_data :: bytes
  rq_skip_parse :: bool
  rq_copy_data :: bytes
  rq_statement_name :: bytes
  rq_portal_name :: bytes
  rq_query :: bytes
  rq_params :: "pg_parameter list"
  rq_user :: bytes
  rq_db :: bytes
  rq_pass :: bytes

definition new_request :: pg_request where
  "new_request = \<lparr>rq_buf = [], rq_is_startup = False, rq_is_disconnect = False,
     rq_is_cancel = False, rq_is_copy = False, rq_copy_done = False, rq_copy_fail = False,
     rq_wait_notification = False, rq_has_params = False, rq_protocol_version = 196610,
     rq_startup_params = [], rq_result_format = 0, rq_cancel_pid = 0,
     rq_cancel_secret_data = [], rq_skip_parse = False, rq_copy_data = [],
     rq_statement_name = [], rq_portal_name = [], rq_query = [], rq_params = [],
     rq_user = [], rq_db = [], rq_pass = []\<rparr>"

subsection \<open>Setters\<close>

definition set_query :: "bytes \<Rightarrow> pg_request \<Rightarrow> pg_request" where
  "set_query query rq = rq\<lparr>rq_query := query\<rparr>"

definition set_query_strings :: "bytes \<Rightarrow> bytes list \<Rightarrow> pg_request \<Rightarrow> pg_request" where
  "set_query_strings query ps rq =
     rq\<lparr>rq_query := query, rq_params := map (\<lambda>p. mk_parameter p 0 0) ps, rq_has_params := True\<rparr>"

definition set_query_params :: "bytes \<Rightarrow> pg_parameter list \<Rightarrow> pg_request \<Rightarrow> pg_request" where
  "set_query_params query ps rq =
     rq\<lparr>rq_query := query, rq_params := ps, rq_has_params := True\<rparr>"

definition set_statement_name :: "bytes \<Rightarrow> pg_request \<Rightarrow> pg_request" where
  "set_statement_name name rq = rq\<lparr>rq_statement_name := name\<rparr>"

definition set_portal_name :: "bytes \<Rightarrow> pg_request \<Rightarrow> pg_request" where
  "set_portal_name name rq = rq\<lparr>rq_portal_name := name\<rparr>"

definition set_skip_parse :: "bool \<Rightarrow> pg_request \<Rightarrow> pg_request" where
  "set_skip_parse skip rq = rq\<lparr>rq_skip_parse := skip\<rparr>"

definition set_result_format :: "i32 \<Rightarrow> pg_request \<Rightarrow> pg_request" where
  "set_result_format fmt rq = rq\<lparr>rq_result_format := fmt\<rparr>"

definition set_wait_notification :: "bool \<Rightarrow> pg_request \<Rightarrow> pg_request" where
  "set_wait_notification wait rq = rq\<lparr>rq_wait_notification := wait\<rparr>"

definition set_copy_data :: "bytes \<Rightarrow> bool \<Rightarrow> pg_request \<Rightarrow> pg_request" where
  "set_copy_data data is_done rq =
     rq\<lparr>rq_is_copy := True, rq_copy_data := data, rq_copy_done := is_done\<rparr>"

definition set_copy_fail :: "bytes \<Rightarrow> pg_request \<Rightarrow> pg_request" where
  "set_copy_fail error_msg rq =
     rq\<lparr>rq_is_copy := True, rq_copy_fail := True, rq_copy_data := error_msg\<rparr>"

definition set_request_auth :: "bytes \<Rightarrow> bytes \<Rightarrow> bytes \<Rightarrow> pg_request \<Rightarrow> pg_request" where
  "set_request_auth user db pass rq = rq\<lparr>rq_user := user, rq_db := db, rq_pass := pass\<rparr>"

definition set_is_startup :: "bool \<Rightarrow> pg_request \<Rightarrow> pg_request" where
  "set_is_startup startup rq = rq\<lparr>rq_is_startup := startup\<rparr>"

definition set_is_disconnect :: "bool \<Rightarrow> pg_request \<Rightarrow> pg_request" where
  "set_is_disconnect disconnect rq = rq\<lparr>rq_is_disconnect := disconnect\<rparr>"

definition set_protocol_version :: "u32 \<Rightarrow> pg_request \<Rightarrow> pg_request" where
  "set_protocol_version version rq = rq\<lparr>rq_protocol_version := version\<rparr>"

definition set_startup_params :: "bytes str_map \<Rightarrow> pg_request \<Rightarrow> pg_request" where
  "set_startup_params params rq = rq\<lparr>rq_startup_params := params\<rparr>"

lemmas request_setters =
  set_is_startup_def set_is_disconnect_def set_protocol_version_def set_startup_params_def

definition set_cancel :: "i32 \<Rightarrow> bytes \<Rightarrow> pg_request \<Rightarrow> pg_request" where
  "set_cancel pid secret_data rq =
     rq\<lparr>rq_is_cancel := True, rq_cancel_pid := pid, rq_cancel_secret_data := secret_data\<rparr>"

subsection \<open>Encoders\<close>

definition encode_terminate :: "pg_request \<Rightarrow> int \<times> pg_request" where
  "encode_terminate rq =
     (let buf = write_uint32 [CHR ''X''] 4 in (1, rq\<lparr>rq_buf := buf\<rparr>))"

definition encode_cancel :: "pg_request \<Rightarrow> int \<times> pg_request" where
  "encode_cancel rq =
     (let buf = write_uint32 [] (word_of_nat (12 + length (rq_cancel_secret_data rq)));
          buf = write_uint32 buf 80877102;
          buf = write_uint32 buf (rq_cancel_pid rq);
          buf = buf @ rq_cancel_secret_data rq
      in (1, rq\<lparr>rq_buf := buf\<rparr>))"

definition encode_copy :: "pg_request \<Rightarrow> int \<times> pg_request" where
  "encode_copy rq =
     (let buf =
        (if rq_copy_fail rq then
           let payload = rq_copy_data rq @ [NUL]
           in write_uint32 [CHR ''f''] (word_of_nat (4 + length payload)) @ payload
         else
           let buf = (if rq_copy_data rq \<noteq> []
                      then write_uint32 [CHR ''d''] (word_of_nat (4 + length (rq_copy_data rq)))
                             @ rq_copy_data rq
                      else [])
           in if rq_copy_done rq then write_uint32 (buf @ [CHR ''c'']) 4 else buf)
      in (if buf = [] then 0 else 1, rq\<lparr>rq_buf := buf\<rparr>))"

fun write_params :: "bytes \<Rightarrow> bytes str_map \<Rightarrow> bytes" where
  "write_params params [] = params"
| "write_params params ((k, v) # kvs) =
     write_params (if k \<noteq> ''user'' \<and> k \<noteq> ''database''
                   then params @ k @ [NUL] @ v @ [NUL] else params) kvs"

definition encode_startup :: "pg_request \<Rightarrow> int \<times> pg_request" where
  "encode_startup rq =
     (let params = ''user'' @ [NUL] @ rq_user rq @ [NUL];
          params = (if rq_db rq \<noteq> []
                    then params @ ''database'' @ [NUL] @ rq_db rq @ [NUL] else params);
          params = write_params params (rq_startup_params rq) @ [NUL];
          buf = write_uint32 [] (word_of_nat (4 + 4 + length params));
          buf = write_uint32 buf (rq_protocol_version rq)
      in (1, rq\<lparr>rq_buf := buf @ params\<rparr>))"

definition encode_simple_query :: "pg_request \<Rightarrow> int \<times> pg_request" where
  "encode_simple_query rq =
     (let payload = rq_query rq @ [NUL];
          buf = write_uint32 [CHR ''Q''] (word_of_nat (4 + length payload))
      in (1, rq\<lparr>rq_buf := buf @ payload\<rparr>))"

definition write_message :: "bytes \<Rightarrow> char \<Rightarrow> bytes \<Rightarrow> bytes" where
  "write_message buf typ payload =
     write_uint32 (buf @ [typ]) (word_of_nat (4 + length payload)) @ payload"

definition parse_payload :: "pg_request \<Rightarrow> bytes" where
  "parse_payload rq =
     (let p = rq_statement_name rq @ [NUL] @ rq_query rq @ [NUL];
          p = write_uint16 p (word_of_nat (length (rq_params rq)))
      in fold (\<lambda>par p. write_uint32 p (par_type_oid par)) (rq_params rq) p)"

definition write_parameter :: "pg_parameter \<Rightarrow> bytes \<Rightarrow> bytes" where
  "write_parameter par p =
     (if par_is_null par then write_int32 p (-1)
      else write_int32 p (word_of_nat (length (par_data par))) @ par_data par)"

definition bind_payload :: "pg_request \<Rightarrow> bytes" where
  "bind_payload rq =
     (let p = rq_portal_name rq @ [NUL] @ rq_statement_name rq @ [NUL];
          p = write_uint16 p (word_of_nat (length (rq_params rq)));
          p = fold (\<lambda>par p. write_uint16 p (ucast (par_format par))) (rq_params rq) p;
          p = write_uint16 p (word_of_nat (length (rq_params rq)));
          p = fold write_parameter (rq_params rq) p;
          p = write_uint16 p 1
      in write_uint16 p (ucast (rq_result_format rq)))"

definition encode_extended_query :: "pg_request \<Rightarrow> int \<times> pg_request" where
  "encode_extended_query rq =
     (let buf = (if \<not> rq_skip_parse rq then write_message [] (CHR ''P'') (parse_payload rq) else []);
          buf = write_message buf (CHR ''B'') (bind_payload rq);
          buf = write_message buf (CHR ''D'') (CHR ''P'' # rq_portal_name rq @ [NUL]);
          buf = write_message buf (CHR ''E'') (write_uint32 (rq_portal_name rq @ [NUL]) 0);
          buf = write_uint32 (buf @ [CHR ''S'']) 4
      in (1, rq\<lparr>rq_buf := buf\<rparr>))"

definition request_encode :: "pg_request \<Rightarrow> int \<times> pg_request" where
  "request_encode rq =
     (if rq_is_disconnect rq then encode_terminate rq
      else if rq_is_cancel rq then encode_cancel rq
      else if rq_is_copy rq then encode_copy rq
      else if rq_wait_notification rq then (0, rq)
      else if rq_is_startup rq then encode_startup rq
      else if \<not> rq_has_params rq then encode_simple_query rq
      else encode_extended_query rq)"

definition request_append :: "bytes \<Rightarrow> pg_request \<Rightarrow> int \<times> pg_request" where
  "request_append data rq = (0, rq\<lparr>rq_buf := rq_buf rq @ data\<rparr>)"

definition ssl_request_encode :: "pg_request \<Rightarrow> int \<times> pg_request" where
  "ssl_request_encode rq =
     (let buf = write_uint32 (write_uint32 [] 8) 80877103 in (1, rq\<lparr>rq_buf := buf\<rparr>))"

text \<open>The bytes the framework puts on the wire: the vectors the encoder filled.\<close>

definition request_sent :: "int \<times> pg_request \<Rightarrow> bytes" where
  "request_sent res = (if fst res = 0 then [] else rq_buf (snd res))"

lemmas encode_defs [step_defs] =
  encode_terminate_def encode_cancel_def encode_copy_def encode_startup_def
  encode_simple_query_def encode_extended_query_def

subsection \<open>The server's decoders\<close>

definition srv_parse :: "bytes \<Rightarrow> (bytes \<times> bytes \<times> nat \<times> bytes) option" where
  "srv_parse p =
     (case read_cstring p of
        None \<Rightarrow> None
      | Some (stmt, p1) \<Rightarrow>
          (case read_cstring p1 of
             None \<Rightarrow> None
           | Some (query, p2) \<Rightarrow> Some (stmt, query, unat (read_uint16 p2), drop 2 p2)))"

fun srv_values :: "nat \<Rightarrow> bytes \<Rightarrow> (bytes option list \<times> bytes) option" where
  "srv_values 0 p = Some ([], p)"
| "srv_values (Suc n) p =
     (if length p < 4 then None
      else let len = sint (read_int32 p); q = drop 4 p in
        if len = -1 then map_option (\<lambda>(vs, r). (None # vs, r)) (srv_values n q)
        else if len < 0 \<or> length q < nat len then None
        else map_option (\<lambda>(vs, r). (Some (take (nat len) q) # vs, r)) (srv_values n (drop (nat len) q)))"

fun srv_words :: "nat \<Rightarrow> bytes \<Rightarrow> u16 list" where
  "srv_words 0 p = []"
| "srv_words (Suc n) p = read_uint16 p # srv_words n (drop 2 p)"

fun srv_dwords :: "nat \<Rightarrow> bytes \<Rightarrow> u32 list" where
  "srv_dwords 0 p = []"
| "srv_dwords (Suc n) p = read_uint32 p # srv_dwords n (drop 4 p)"

text \<open>Portal, statement, parameter formats, parameter values, and the result formats.\<close>

definition srv_bind :: "bytes \<Rightarrow> (bytes \<times> bytes \<times> u16 list \<times> bytes option list \<times> u16 list) option" where
  "srv_bind p =
     (case read_cstring p of
        None \<Rightarrow> None
      | Some (portal, p1) \<Rightarrow>
          (case read_cstring p1 of
             None \<Rightarrow> None
           | Some (stmt, p2) \<Rightarrow>
               let nf = unat (read_uint16 p2); p3 = drop 2 p2; p4 = drop (2 * nf) p3;
                   nv = unat (read_uint16 p4)
               in (case srv_values nv (drop 2 p4) of
                     None \<Rightarrow> None
                   | Some (vals, p5) \<Rightarrow>
                       if length p5 = 2 + 2 * unat (read_uint16 p5)
                       then Some (portal, stmt, srv_words nf p3, vals,
                                  srv_words (unat (read_uint16 p5)) (drop 2 p5))
                       else None)))"

function srv_pairs :: "bytes \<Rightarrow> (bytes \<times> bytes) list option" where
  "srv_pairs p =
     (case read_cstring p of
        None \<Rightarrow> None
      | Some (k, p1) \<Rightarrow>
          if k = [] then (if p1 = [] then Some [] else None)
          else (case read_cstring p1 of
                  None \<Rightarrow> None
                | Some (v, p2) \<Rightarrow> map_option ((#) (k, v)) (srv_pairs p2)))"
  by pat_completeness auto
termination
  by (relation "measure length") (auto dest!: read_cstring_shorter)

declare srv_pairs.simps [simp del]

text \<open>A startup packet: its length, the protocol version, and the parameters.\<close>

definition srv_startup :: "bytes \<Rightarrow> (u32 \<times> (bytes \<times> bytes) list) option" where
  "srv_startup p =
     (if length p < 8 \<or> unat (read_uint32 p) \<noteq> length p then None
      else map_option (Pair (read_uint32 (drop 4 p))) (srv_pairs (drop 8 p)))"


subsection \<open>Messages\<close>

lemma write_message_frame [wire_simps]: "write_message buf t p = buf @ encode_frame t p"
  unfolding write_message_def write_uint_of_nat by (simp add: encode_frame_def)

lemma write_uint32_4 [wire_simps]: "write_uint32 (buf @ [t]) 4 = buf @ encode_frame t []"
  using write_uint_of_nat(2) [of "buf @ [t]" 4] by (simp add: encode_frame_def)

definition wf_params :: "pg_parameter list \<Rightarrow> bool" where
  "wf_params ps \<longleftrightarrow> length ps < 2 ^ 16 \<and>
     (\<forall>par \<in> set ps. \<not> par_is_null par \<longrightarrow> length (par_data par) < 2 ^ 31)"

definition par_value :: "pg_parameter \<Rightarrow> bytes option" where
  "par_value par = (if par_is_null par then None else Some (par_data par))"

definition extended_msgs :: "pg_request \<Rightarrow> message list" where
  "extended_msgs rq =
     (if rq_skip_parse rq then [] else [(CHR ''P'', parse_payload rq)]) @
     [(CHR ''B'', bind_payload rq), (CHR ''D'', CHR ''P'' # rq_portal_name rq @ [NUL]),
      (CHR ''E'', rq_portal_name rq @ [NUL, NUL, NUL, NUL, NUL]), (CHR ''S'', [])]"

lemma write_zero: "write_uint32 p 0 = p @ [NUL, NUL, NUL, NUL]"
proof -
  have "be_bytes 4 0 = [NUL, NUL, NUL, NUL]" by code_simp
  then show ?thesis by (simp add: write_uint32_def)
qed

lemma encode_extended_query_msgs:
  "request_sent (encode_extended_query rq) = encode_msgs (extended_msgs rq)"
proof -
  have "rq_buf (snd (encode_extended_query rq)) = encode_msgs (extended_msgs rq)"
    unfolding encode_extended_query_def extended_msgs_def Let_def snd_conv
      write_message_frame write_uint32_4 write_zero encode_msgs_def
    by (cases "rq_skip_parse rq") simp_all
  then show ?thesis by (simp add: request_sent_def encode_extended_query_def Let_def)
qed

lemma encode_simple_query_msgs:
  "request_sent (encode_simple_query rq) = encode_msgs [(CHR ''Q'', rq_query rq @ [NUL])]"
  unfolding request_sent_def encode_simple_query_def Let_def write_uint_of_nat
  by (simp add: encode_frame_def)

lemma encode_terminate_msgs:
  "request_sent (encode_terminate rq) = encode_msgs [(CHR ''X'', [])]"
  using write_uint32_4 [of "[]" "CHR ''X''"]
  by (simp add: request_sent_def encode_terminate_def Let_def)

lemma encode_copy_msgs:
  "request_sent (encode_copy rq) = encode_msgs
     (if rq_copy_fail rq then [(CHR ''f'', rq_copy_data rq @ [NUL])]
      else (if rq_copy_data rq \<noteq> [] then [(CHR ''d'', rq_copy_data rq)] else []) @
           (if rq_copy_done rq then [(CHR ''c'', [])] else []))"
  unfolding request_sent_def encode_copy_def Let_def write_uint_of_nat write_uint32_4
  by (simp add: encode_frame_def)

subsection \<open>Parse and Bind\<close>

lemma fold_write_oids:
  "fold (\<lambda>par p. write_uint32 p (par_type_oid par)) ps p =
     p @ concat (map (\<lambda>par. be_bytes 4 (unat (par_type_oid par))) ps)"
  by (induction ps arbitrary: p) (auto simp: write_uint32_def)

lemma fold_write_formats:
  "fold (\<lambda>par p. write_uint16 p (ucast (par_format par))) ps p =
     p @ concat (map (\<lambda>par. be_bytes 2 (unat (ucast (par_format par) :: u16))) ps)"
  by (induction ps arbitrary: p) (auto simp: write_uint16_def)

lemma write_parameter_value:
  "write_parameter par p = p @ (case par_value par of
     None \<Rightarrow> be_bytes 4 (2 ^ 32 - 1) | Some v \<Rightarrow> be_bytes 4 (length v) @ v)"
proof -
  have "unat (- 1 :: u32) = 2 ^ 32 - 1"
    by (simp only: unsigned_minus_1_eq_mask mask_eq_exp_minus_1) simp
  then show ?thesis
    unfolding write_parameter_def write_int32_def write_uint_of_nat
    by (simp add: par_value_def write_uint32_def)
qed

lemma fold_write_parameter:
  "fold write_parameter ps p = p @ concat (map (\<lambda>par. write_parameter par []) ps)"
  by (induction ps arbitrary: p) (auto simp: write_parameter_value)

lemma srv_dwords_enc [wire_simps]:
  "srv_dwords (length ps) (concat (map (\<lambda>par. be_bytes 4 (unat (f par))) ps) @ rest) = map f ps"
  by (induction ps) (simp_all add: wire_simps)

lemma srv_words_enc [wire_simps]:
  "srv_words (length ps) (concat (map (\<lambda>par. be_bytes 2 (unat (f par))) ps) @ rest) = map f ps"
  by (induction ps) (simp_all add: wire_simps)

lemma sint32_small: "n < 2 ^ 31 \<Longrightarrow> sint (word_of_nat n :: i32) = int n"
  by (simp add: signed_of_nat signed_take_bit_int_eq_self)

lemma srv_values_enc [wire_simps]:
  assumes "\<forall>par \<in> set ps. \<not> par_is_null par \<longrightarrow> length (par_data par) < 2 ^ 31"
  shows "srv_values (length ps) (concat (map (\<lambda>par. write_parameter par []) ps) @ rest) =
    Some (map par_value ps, rest)"
  using assms
proof (induction ps)
  case (Cons par ps)
  let ?tl = "concat (map (\<lambda>par. write_parameter par []) ps) @ rest"
  have IH: "srv_values (length ps) ?tl = Some (map par_value ps, rest)" using Cons by simp
  show ?case
  proof (cases "par_is_null par")
    case True
    then show ?thesis
      using IH by (simp add: write_parameter_value par_value_def read_int32_def wire_simps)
  next
    case False
    then have "sint (word_of_nat (length (par_data par)) :: i32) = int (length (par_data par))"
      using Cons.prems by (intro sint32_small) simp
    with False IH show ?thesis
      by (simp add: write_parameter_value par_value_def read_int32_def wire_simps Let_def)
  qed
qed simp

lemma unat16_small: "n < 2 ^ 16 \<Longrightarrow> unat (word_of_nat n :: u16) = n"
  by (simp add: unat_of_nat take_bit_nat_eq_self)

lemma unat32_small: "n < 2 ^ 32 \<Longrightarrow> unat (word_of_nat n :: u32) = n"
  by (simp add: unat_of_nat take_bit_nat_eq_self)

lemma length_write_formats [simp]:
  "length (concat (map (\<lambda>par. be_bytes 2 (g par)) ps)) = 2 * length ps"
  by (induction ps) auto

lemma srv_parse_payload:
  assumes "NUL \<notin> set (rq_statement_name rq)" and "NUL \<notin> set (rq_query rq)"
    and "length (rq_params rq) < 2 ^ 16"
  shows "srv_parse (parse_payload rq) = Some (rq_statement_name rq, rq_query rq, length (rq_params rq),
    concat (map (\<lambda>par. be_bytes 4 (unat (par_type_oid par))) (rq_params rq)))"
  using assms
  by (simp add: srv_parse_def parse_payload_def fold_write_oids write_uint_of_nat Let_def wire_simps
      unat16_small)

lemma srv_bind_payload:
  assumes "NUL \<notin> set (rq_portal_name rq)" and "NUL \<notin> set (rq_statement_name rq)"
    and "wf_params (rq_params rq)"
  shows "srv_bind (bind_payload rq) = Some (rq_portal_name rq, rq_statement_name rq,
    map (\<lambda>par. ucast (par_format par)) (rq_params rq), map par_value (rq_params rq),
    [ucast (rq_result_format rq)])"
proof -
  let ?ps = "rq_params rq"
  let ?fmts = "concat (map (\<lambda>par. be_bytes 2 (unat (ucast (par_format par) :: u16))) ?ps)"
  let ?vals = "concat (map (\<lambda>par. write_parameter par []) ?ps)"
  let ?tail = "be_bytes 2 1 @ be_bytes 2 (unat (ucast (rq_result_format rq) :: u16))"
  have n: "length ?ps < 2 ^ 16" using assms(3) by (simp add: wf_params_def)
  have one: "write_uint16 p 1 = p @ be_bytes 2 1" for p
    by (simp add: write_uint16_def)
  have enc: "bind_payload rq = rq_portal_name rq @ NUL # rq_statement_name rq @ NUL #
      be_bytes 2 (length ?ps) @ ?fmts @ be_bytes 2 (length ?ps) @ ?vals @ ?tail"
    by (simp only: bind_payload_def Let_def fold_write_formats fold_write_parameter [of ?ps]
        write_uint_of_nat one) (simp add: write_uint16_def)
  have vals: "srv_values (length ?ps) (?vals @ ?tail) = Some (map par_value ?ps, ?tail)"
    by (rule srv_values_enc) (use assms(3) in \<open>simp add: wf_params_def\<close>)
  have tail: "unat (read_uint16 ?tail) = 1" by (simp add: wire_simps)
  have "srv_words (length ?ps) (?fmts @ rest) = map (\<lambda>par. ucast (par_format par)) ?ps" for rest
    by (rule srv_words_enc)
  with vals tail n assms(1,2) show ?thesis
    using read_uint16_be_bytes [of _ "[]"]
    by (simp add: srv_bind_def enc Let_def wire_simps unat16_small)
qed

subsection \<open>Startup, cancel and SSL requests\<close>

lemma write_params_enc:
  "write_params p kvs = p @ concat (map (\<lambda>(k, v). k @ NUL # v @ [NUL])
     (filter (\<lambda>(k, v). k \<noteq> ''user'' \<and> k \<noteq> ''database'') kvs))"
  by (induction p kvs rule: write_params.induct) auto

lemma srv_pairs_enc:
  assumes "\<forall>(k, v) \<in> set kvs. k \<noteq> [] \<and> NUL \<notin> set k \<and> NUL \<notin> set v"
  shows "srv_pairs (concat (map (\<lambda>(k, v). k @ NUL # v @ [NUL]) kvs) @ [NUL]) = Some kvs"
  using assms
proof (induction kvs)
  case Nil
  show ?case by (subst srv_pairs.simps) simp
next
  case (Cons kv kvs)
  obtain k v where kv: "kv = (k, v)" by force
  with Cons show ?case by (subst srv_pairs.simps) (simp add: wire_simps)
qed

definition startup_pairs :: "pg_request \<Rightarrow> (bytes \<times> bytes) list" where
  "startup_pairs rq =
     (''user'', rq_user rq) # (if rq_db rq = [] then [] else [(''database'', rq_db rq)]) @
     filter (\<lambda>(k, v). k \<noteq> ''user'' \<and> k \<noteq> ''database'') (rq_startup_params rq)"

lemma srv_startup_encode:
  assumes "NUL \<notin> set (rq_user rq)" and "NUL \<notin> set (rq_db rq)"
    and "\<forall>(k, v) \<in> set (rq_startup_params rq). k \<noteq> [] \<and> NUL \<notin> set k \<and> NUL \<notin> set v"
    and "length (request_sent (encode_startup rq)) < 2 ^ 32"
  shows "srv_startup (request_sent (encode_startup rq)) =
    Some (rq_protocol_version rq, startup_pairs rq)"
proof -
  let ?enc = "concat (map (\<lambda>(k, v). k @ NUL # v @ [NUL]) (startup_pairs rq)) @ [NUL]"
  have sent: "request_sent (encode_startup rq) =
      be_bytes 4 (8 + length ?enc) @ be_bytes 4 (unat (rq_protocol_version rq)) @ ?enc"
  proof -
    have params: "write_params (if rq_db rq \<noteq> []
        then (''user'' @ [NUL] @ rq_user rq @ [NUL]) @ ''database'' @ [NUL] @ rq_db rq @ [NUL]
        else ''user'' @ [NUL] @ rq_user rq @ [NUL]) (rq_startup_params rq) @ [NUL] = ?enc"
      by (simp add: write_params_enc startup_pairs_def)
    show ?thesis
      unfolding request_sent_def encode_startup_def Let_def params write_uint_of_nat
      by (simp add: write_uint32_def)
  qed
  have pairs: "srv_pairs ?enc = Some (startup_pairs rq)"
    by (rule srv_pairs_enc) (use assms(1-3) in \<open>auto simp: startup_pairs_def\<close>)
  have "8 + length ?enc < 2 ^ 32" using assms(4) by (simp only: sent) simp
  then have "unat (word_of_nat (8 + length ?enc) :: u32) = 8 + length ?enc"
    by (rule unat32_small)
  with pairs show ?thesis by (simp only: sent) (simp add: srv_startup_def wire_simps)
qed

end
