(* ===== verification/Uri_Config.thy ===== *)
theory Uri_Config
  imports C_Stdlib Request
begin

section \<open>Configuration from the URL: src/factory/PostgresTaskImpl.cc, src/client/WFPostgresConnection.cc\<close>

text \<open>
  The anonymous functions that turn a parsed URL into the settings of a task. The Workflow
  library is not part of the repository: \<open>workflow\<close> collects the functions of it the code
  calls (\<open>URIParser::split_query\<close>, \<open>StringUtil::url_decode\<close>, \<open>URIParser::parse\<close>) as
  parameters, and \<open>ssl_env\<close> the outcomes of the OpenSSL calls that can fail. An
  \<open>ssl_ctx\<close> records what the code configures on an \<open>SSL_CTX\<close>, with its address.

  The same helper functions are written twice in the code, in the two files named above; one
  definition models both copies.
\<close>

record parsed_uri =
  uri_scheme :: "bytes option"
  uri_userinfo :: "bytes option"
  uri_host :: "bytes option"
  uri_port :: "bytes option"
  uri_path :: "bytes option"
  uri_query :: "bytes option"

datatype uri_parse_result = UriOk parsed_uri | UriInvalid | UriError

record workflow =
  wf_split_query :: "bytes \<Rightarrow> bytes str_map"
  wf_url_decode :: "bytes \<Rightarrow> bytes"
  wf_uri_parse :: "bytes \<Rightarrow> uri_parse_result"
  wf_err_uri_scheme_invalid :: int

record ssl_env =
  ssl_ctx_new_ok :: bool
  ssl_fresh_id :: nat
  ssl_load_verify_ok :: "bytes \<Rightarrow> bool"

record ssl_ctx =
  ctx_id :: nat
  ctx_verify_peer :: bool
  ctx_no_partial_wildcards :: bool
  ctx_ca_file :: "bytes option"

definition new_ssl_ctx :: "nat \<Rightarrow> ssl_ctx" where
  "new_ssl_ctx n = \<lparr>ctx_id = n, ctx_verify_peer = False, ctx_no_partial_wildcards = False, ctx_ca_file = None\<rparr>"

text \<open>
  The states of a framework task. The code only uses the ones named here; the numbers behind
  them are the framework's.
\<close>

datatype wft_state =
    WFT_STATE_UNDEFINED | WFT_STATE_SUCCESS | WFT_STATE_SYS_ERROR | WFT_STATE_TASK_ERROR
  | WFT_STATE_OTHER nat

subsection \<open>The query part\<close>

definition parse_query :: "workflow \<Rightarrow> bytes option \<Rightarrow> bytes str_map \<Rightarrow> bytes str_map" where
  "parse_query wkf query query_map =
     (case query of
        None \<Rightarrow> query_map
      | Some q \<Rightarrow>
          fold (\<lambda>(k, v) m. map_assign (map tolower k) (wf_url_decode wkf v) m) (wf_split_query wkf q) query_map)"

definition is_ssl_required :: "parsed_uri \<Rightarrow> bytes str_map \<Rightarrow> bool" where
  "is_ssl_required uri query_map \<longleftrightarrow>
     (case uri_scheme uri of None \<Rightarrow> False | Some s \<Rightarrow> strcasecmp_eq s ''postgresqls'') \<or>
     (case map_find query_map ''sslmode'' of
        None \<Rightarrow> False
      | Some m \<Rightarrow> m = ''require'' \<or> m = ''verify-ca'' \<or> m = ''verify-full'')"

text \<open>
  The result: whether it succeeded, the context and whether it is owned, and the state and
  error of a failure.
\<close>

definition setup_ssl_ctx ::
  "ssl_env \<Rightarrow> parsed_uri \<Rightarrow> bytes str_map \<Rightarrow> bool \<Rightarrow> ssl_ctx option \<times> bool \<Rightarrow>
   bool \<times> (ssl_ctx option \<times> bool) \<times> (wft_state \<times> int) option" where
  "setup_ssl_ctx env uri query_map default_verify_none old =
     (let sslmode = map_find query_map ''sslmode'';
          verify_peer = (sslmode = Some ''verify-full'' \<or> sslmode = Some ''verify-ca'')
      in if verify_peer \<or> default_verify_none then
           (if \<not> ssl_ctx_new_ok env then
              (False, (None, snd old), Some (WFT_STATE_TASK_ERROR, ERR_SSL_INIT_FAILED))
            else if verify_peer then
              let ctx = (new_ssl_ctx (ssl_fresh_id env))\<lparr>ctx_verify_peer := True\<rparr>;
                  ctx = (if sslmode = Some ''verify-full'' \<and> uri_host uri \<noteq> None
                         then ctx\<lparr>ctx_no_partial_wildcards := True\<rparr> else ctx)
              in (case map_find query_map ''sslrootcert'' of
                    None \<Rightarrow> (True, (Some ctx, True), None)
                  | Some file \<Rightarrow>
                      if ssl_load_verify_ok env file then
                        (True, (Some (ctx\<lparr>ctx_ca_file := Some file\<rparr>), True), None)
                      else (False, (None, False), Some (WFT_STATE_TASK_ERROR, ERR_SSL_CERT_FAILED)))
            else (True, (Some (new_ssl_ctx (ssl_fresh_id env)), True), None))
         else (True, old, None))"

subsection \<open>Credentials and startup parameters\<close>

definition extract_auth_info :: "workflow \<Rightarrow> parsed_uri \<Rightarrow> bytes \<times> bytes \<times> bytes \<Rightarrow> bytes \<times> bytes \<times> bytes" where
  "extract_auth_info wkf uri old =
     (let (user, pass, db) = old;
          (user, pass) =
            (case uri_userinfo uri of
               None \<Rightarrow> (user, pass)
             | Some info \<Rightarrow>
                 if CHR '':'' \<in> set info
                 then (takeWhile (\<lambda>c. c \<noteq> CHR '':'') info, tl (dropWhile (\<lambda>c. c \<noteq> CHR '':'') info))
                 else (info, pass));
          db = (case uri_path uri of
                  None \<Rightarrow> db
                | Some p \<Rightarrow> if length p \<ge> 2 \<and> p ! 0 = CHR ''/'' then tl p else db)
      in (wf_url_decode wkf user, wf_url_decode wkf pass, wf_url_decode wkf db))"

definition startup_param_step :: "bytes \<times> bytes \<Rightarrow> bytes str_map \<Rightarrow> bytes str_map" where
  "startup_param_step kv startup_params =
     (let (k, v) = kv in
      if k = ''client_encoding'' then map_assign ''client_encoding'' v startup_params
      else if k = ''application_name'' \<or> k = ''options'' then map_assign k v startup_params
      else if k = ''timezone'' then map_assign ''TimeZone'' v startup_params
      else if length k > 8 \<and> take 8 k = ''pgparam.'' then map_assign (drop 8 k) v startup_params
      else startup_params)"

definition extract_startup_params :: "bytes str_map \<Rightarrow> bytes str_map \<Rightarrow> bytes str_map" where
  "extract_startup_params query_map startup_params =
     fold startup_param_step query_map (map_assign ''client_encoding'' ''UTF8'' startup_params)"

subsection \<open>The key of the connection pool\<close>

definition info_part :: "bytes \<Rightarrow> bytes option \<Rightarrow> bytes" where
  "info_part label v = (case v of None \<Rightarrow> [] | Some x \<Rightarrow> CHR ''|'' # label @ CHR '':'' # x)"

text \<open>
  Two requests with the same string (and address) may share a physical connection. The
  last part is only there for the tasks of a \<open>WFPostgresConnection\<close>.
\<close>

definition connection_info ::
  "bool \<Rightarrow> bytes \<Rightarrow> bytes \<Rightarrow> bytes \<Rightarrow> parsed_uri \<Rightarrow> bytes str_map \<Rightarrow> bytes" where
  "connection_info is_ssl user pass db uri query_map =
     (if is_ssl then ''postgresqls'' else ''postgres'') @
     ''|user:'' @ user @ ''|pass:'' @ pass @ ''|db:'' @ db @
     info_part ''host'' (uri_host uri) @ info_part ''port'' (uri_port uri) @
     info_part ''application_name'' (map_find query_map ''application_name'') @
     info_part ''options'' (map_find query_map ''options'') @
     info_part ''sslmode'' (map_find query_map ''sslmode'') @
     info_part ''cancel'' (map_option (\<lambda>_. ''1'') (map_find query_map ''cancel'')) @
     info_part ''txn'' (map_find query_map ''transaction'')"

lemmas config_defs [step_defs] =
  parse_query_def is_ssl_required_def setup_ssl_ctx_def extract_auth_info_def
  extract_startup_params_def startup_param_step_def connection_info_def

subsection \<open>Facts\<close>

lemma parse_query_sorted: "map_sorted m \<Longrightarrow> map_sorted (parse_query wkf q m)"
proof -
  have "map_sorted m \<Longrightarrow> map_sorted (fold (\<lambda>(k, v) m. map_assign (f k) (g v) m) kvs m)"
    for m :: "bytes str_map" and kvs :: "(bytes \<times> bytes) list" and f g
    by (induction kvs arbitrary: m) (auto intro: map_sorted_assign)
  then show "map_sorted m \<Longrightarrow> map_sorted (parse_query wkf q m)"
    by (simp add: parse_query_def split: option.split)
qed

text \<open>Verification asked for is verification configured, or the set-up fails.\<close>

definition verify_mode :: "bytes str_map \<Rightarrow> bool" where
  "verify_mode query_map \<longleftrightarrow>
     map_find query_map ''sslmode'' \<in> {Some ''verify-ca'', Some ''verify-full''}"

lemma setup_ssl_ctx_verifies:
  assumes "verify_mode query_map"
    and "setup_ssl_ctx env uri query_map dvn old = (ok, (ctx, owns), err)"
  shows "if ok then \<exists>c. ctx = Some c \<and> owns \<and> ctx_verify_peer c \<and>
             ctx_ca_file c = map_find query_map ''sslrootcert'' \<and> err = None
         else err \<in> {Some (WFT_STATE_TASK_ERROR, ERR_SSL_INIT_FAILED),
                      Some (WFT_STATE_TASK_ERROR, ERR_SSL_CERT_FAILED)}"
proof -
  have "map_find query_map ''sslmode'' = Some ''verify-full'' \<or>
      map_find query_map ''sslmode'' = Some ''verify-ca''"
    using assms(1) by (auto simp: verify_mode_def)
  then have vp: "(map_find query_map ''sslmode'' = Some ''verify-full'' \<or>
      map_find query_map ''sslmode'' = Some ''verify-ca'') = True"
    by simp
  define c where "c = (if map_find query_map ''sslmode'' = Some ''verify-full'' \<and> uri_host uri \<noteq> None
    then (new_ssl_ctx (ssl_fresh_id env))\<lparr>ctx_verify_peer := True\<rparr>\<lparr>ctx_no_partial_wildcards := True\<rparr>
    else (new_ssl_ctx (ssl_fresh_id env))\<lparr>ctx_verify_peer := True\<rparr>)"
  have c: "ctx_verify_peer c" "ctx_ca_file c = None" by (simp_all add: c_def new_ssl_ctx_def)
  have "setup_ssl_ctx env uri query_map dvn old =
      (if \<not> ssl_ctx_new_ok env then (False, (None, snd old), Some (WFT_STATE_TASK_ERROR, ERR_SSL_INIT_FAILED))
       else case map_find query_map ''sslrootcert'' of
         None \<Rightarrow> (True, (Some c, True), None)
       | Some file \<Rightarrow> if ssl_load_verify_ok env file
           then (True, (Some (c\<lparr>ctx_ca_file := Some file\<rparr>), True), None)
           else (False, (None, False), Some (WFT_STATE_TASK_ERROR, ERR_SSL_CERT_FAILED)))"
    unfolding setup_ssl_ctx_def Let_def vp c_def by (simp only: if_True simp_thms)
  with assms(2) c show ?thesis by (auto split: if_splits option.splits)
qed

text \<open>Every startup parameter has a name: the server's parameter list is not cut short.\<close>

lemma startup_param_step_cases:
  obtains "startup_param_step kv m = m"
  | k v where "k \<noteq> []" "startup_param_step kv m = map_assign k v m"
proof -
  obtain k v where kv: "kv = (k, v)" by force
  consider "k = ''client_encoding''"
    | "k \<noteq> ''client_encoding''" "k = ''application_name'' \<or> k = ''options''"
    | "k \<noteq> ''client_encoding''" "\<not> (k = ''application_name'' \<or> k = ''options'')" "k = ''timezone''"
    | "k \<noteq> ''client_encoding''" "\<not> (k = ''application_name'' \<or> k = ''options'')" "k \<noteq> ''timezone''"
      "length k > 8 \<and> take 8 k = ''pgparam.''"
    | "k \<noteq> ''client_encoding''" "\<not> (k = ''application_name'' \<or> k = ''options'')" "k \<noteq> ''timezone''"
      "\<not> (length k > 8 \<and> take 8 k = ''pgparam.'')"
    by blast
  then show ?thesis
  proof cases
    case 1
    then show ?thesis by (intro that(2)) (simp_all add: startup_param_step_def kv)
  next
    case 2
    then have "k \<noteq> []" by auto
    with 2 show ?thesis by (intro that(2) [of k v]) (simp_all only: startup_param_step_def kv Let_def prod.case if_False if_True not_False_eq_True)
  next
    case 3
    then show ?thesis by (intro that(2)) (simp_all add: startup_param_step_def kv)
  next
    case 4
    then have "drop 8 k \<noteq> []" by simp
    with 4 show ?thesis by (intro that(2) [of "drop 8 k" v]) (simp_all only: startup_param_step_def kv Let_def prod.case if_False if_True simp_thms)
  next
    case 5
    then show ?thesis by (intro that(1)) (simp only: startup_param_step_def kv Let_def prod.case if_False)
  qed
qed

lemma startup_param_step_keys:
  assumes "k \<in> set (map fst (startup_param_step kv m))"
  shows "k \<in> set (map fst m) \<or> k \<noteq> []"
  using assms by (cases rule: startup_param_step_cases [of kv m]) (auto simp: fst_set_map_assign simp del: set_map)

lemma startup_param_step_sorted: "map_sorted m \<Longrightarrow> map_sorted (startup_param_step kv m)"
  by (cases rule: startup_param_step_cases [of kv m]) (simp_all add: map_sorted_assign)

lemma extract_startup_params_sorted:
  "map_sorted m \<Longrightarrow> map_sorted (extract_startup_params query_map m)"
proof -
  have "map_sorted m \<Longrightarrow> map_sorted (fold startup_param_step kvs m)" for m :: "bytes str_map" and kvs
    by (induction kvs arbitrary: m) (simp_all add: startup_param_step_sorted)
  then show "map_sorted m \<Longrightarrow> map_sorted (extract_startup_params query_map m)"
    by (simp add: extract_startup_params_def map_sorted_assign)
qed

lemma extract_startup_params_keys:
  "k \<in> set (map fst (extract_startup_params query_map [])) \<Longrightarrow> k \<noteq> []"
proof -
  have "[] \<notin> set (map fst (fold startup_param_step kvs m))" if "[] \<notin> set (map fst m)"
    for m :: "bytes str_map" and kvs
    using that
  proof (induction kvs arbitrary: m)
    case (Cons kv kvs)
    have "[] \<notin> set (map fst (startup_param_step kv m))"
      using startup_param_step_keys [of "[]" kv m] Cons.prems by blast
    then show ?case using Cons.IH by simp
  qed simp
  from this [of "map_assign ''client_encoding'' ''UTF8'' []" query_map]
  show "k \<in> set (map fst (extract_startup_params query_map [])) \<Longrightarrow> k \<noteq> []"
    by (force simp: extract_startup_params_def)
qed

subsection \<open>Which parameters are sent\<close>

text \<open>
  The specification, from the keys of the URL's query (in lower case): \<open>timezone\<close> gives \<open>TimeZone\<close>;
  \<open>pgparam.x\<close> gives \<open>x\<close>, and wins over a key \<open>x\<close>; the encoding is UTF8 unless one is given. The
  user and the database are not taken from parameters.
\<close>

definition wanted_param :: "bytes str_map \<Rightarrow> bytes \<Rightarrow> bytes option" where
  "wanted_param qm k =
     (if k = [] \<or> k = ''user'' \<or> k = ''database'' then None
      else if k = ''TimeZone'' \<and> map_find qm ''timezone'' \<noteq> None then map_find qm ''timezone''
      else if map_find qm (''pgparam.'' @ k) \<noteq> None then map_find qm (''pgparam.'' @ k)
      else if k \<in> {''application_name'', ''options'', ''client_encoding''} \<and> map_find qm k \<noteq> None then map_find qm k
      else if k = ''client_encoding'' then Some ''UTF8''
      else None)"

definition gives_param :: "bytes \<Rightarrow> bytes \<Rightarrow> bool" where
  "gives_param key k \<longleftrightarrow> k \<noteq> [] \<and> (key = k \<and> k \<in> {''application_name'', ''options'', ''client_encoding''} \<or>
     key = ''timezone'' \<and> k = ''TimeZone'' \<or> key = ''pgparam.'' @ k)"

lemma gives_param_simps:
  "gives_param ''client_encoding'' k \<longleftrightarrow> k = ''client_encoding''"
  "gives_param ''application_name'' k \<longleftrightarrow> k = ''application_name''"
  "gives_param ''options'' k \<longleftrightarrow> k = ''options''"
  "gives_param ''timezone'' k \<longleftrightarrow> k = ''TimeZone''"
  "gives_param (''pgparam.'' @ x) k \<longleftrightarrow> x \<noteq> [] \<and> k = x"
  unfolding gives_param_def by auto

lemma startup_param_step_simps:
  "startup_param_step (''client_encoding'', v) m = map_assign ''client_encoding'' v m"
  "startup_param_step (''application_name'', v) m = map_assign ''application_name'' v m"
  "startup_param_step (''options'', v) m = map_assign ''options'' v m"
  "startup_param_step (''timezone'', v) m = map_assign ''TimeZone'' v m"
  "startup_param_step (''pgparam.'' @ x, v) m = (if x = [] then m else map_assign x v m)"
  by (simp_all add: startup_param_step_def)

lemma startup_param_step_other:
  assumes "key \<notin> {''client_encoding'', ''application_name'', ''options'', ''timezone''}" and "\<nexists>x. key = ''pgparam.'' @ x"
  shows "startup_param_step (key, v) m = m" and "\<not> gives_param key k"
proof -
  have "\<not> (length key > 8 \<and> take 8 key = ''pgparam.'')"
    using assms(2) append_take_drop_id [of 8 key] by metis
  with assms(1) show "startup_param_step (key, v) m = m"
    unfolding startup_param_step_def Let_def prod.case by (simp only: insert_iff empty_iff simp_thms if_False de_Morgan_disj)
  show "\<not> gives_param key k" using assms unfolding gives_param_def by blast
qed

lemma startup_param_step_find:
  assumes "map_sorted m"
  shows "map_find (startup_param_step (key, v) m) k = (if gives_param key k then Some v else map_find m k)"
proof -
  have assign: "map_find (map_assign x v m) k' = (if k' = x then Some v else map_find m k')" for x k'
    using assms by (simp add: map_find_def map_of_assign)
  consider "key = ''client_encoding''" | "key = ''application_name''" | "key = ''options''" | "key = ''timezone''"
    | x where "key = ''pgparam.'' @ x"
    | "key \<notin> {''client_encoding'', ''application_name'', ''options'', ''timezone''}" "\<nexists>x. key = ''pgparam.'' @ x"
    by blast
  then show ?thesis
  proof cases
    case (5 x)
    show ?thesis unfolding 5 startup_param_step_simps gives_param_simps by (simp add: assign)
  next
    case 6
    show ?thesis by (simp only: startup_param_step_other [OF 6] if_False)
  qed (simp_all only: startup_param_step_simps gives_param_simps assign)
qed

text \<open>Of several keys for one parameter the last in the order of the map wins.\<close>

lemma startup_params_fold:
  assumes "map_sorted m"
  shows "map_find (fold startup_param_step kvs m) k =
    (case find (\<lambda>kv. gives_param (fst kv) k) (rev kvs) of Some kv \<Rightarrow> Some (snd kv) | None \<Rightarrow> map_find m k)"
  using assms
proof (induction kvs arbitrary: m)
  case (Cons kv kvs)
  obtain key v where kv: "kv = (key, v)" by force
  have "find P (xs @ [x]) = (case find P xs of Some y \<Rightarrow> Some y | None \<Rightarrow> if P x then Some x else None)"
    for P xs and x :: "bytes \<times> bytes"
    by (induction xs) simp_all
  with Cons.IH [OF startup_param_step_sorted [OF Cons.prems], of kv] startup_param_step_find [OF Cons.prems] show ?case
    by (simp add: kv split: option.split)
qed simp

lemma find_rev_sorted:
  fixes m :: "bytes str_map"
  assumes "map_sorted m" and "map_of m a = Some v" and "P a"
    and "\<And>b. b \<in> fst ` set m \<Longrightarrow> P b \<Longrightarrow> b \<noteq> a \<Longrightarrow> b < a"
  shows "find (\<lambda>kv. P (fst kv)) (rev m) = Some (a, v)"
proof -
  obtain xs ys where m: "m = xs @ (a, v) # ys" using map_of_SomeD [OF assms(2)] split_list by fastforce
  have "a < b" if "b \<in> fst ` set ys" for b
    using that assms(1) by (auto simp: m map_sorted_def sorted_wrt_append)
  then have "\<not> P (fst kv)" if "kv \<in> set ys" for kv
    using that assms(4) [of "fst kv"] by (force simp: m dest: order.asym)
  then have "find (\<lambda>kv. P (fst kv)) (rev ys @ zs) = find (\<lambda>kv. P (fst kv)) zs" for zs
  proof -
    assume no: "\<And>kv. kv \<in> set ys \<Longrightarrow> \<not> P (fst kv)"
    have "\<forall>kv \<in> set us. \<not> P (fst kv) \<Longrightarrow> find (\<lambda>kv. P (fst kv)) (us @ zs) = find (\<lambda>kv. P (fst kv)) zs" for us
      by (induction us) simp_all
    with no show ?thesis by simp
  qed
  with assms(3) show ?thesis by (simp add: m)
qed

lemma startup_params_wanted:
  assumes "map_sorted qm" and "k \<noteq> ''user''" and "k \<noteq> ''database''"
  shows "map_find (extract_startup_params qm []) k = wanted_param qm k"
proof -
  let ?P = "\<lambda>kv. gives_param (fst kv) k"
  have start: "map_find (extract_startup_params qm []) k =
      (case find ?P (rev qm) of Some kv \<Rightarrow> Some (snd kv) | None \<Rightarrow> if k = ''client_encoding'' then Some ''UTF8'' else None)"
    using startup_params_fold [of "[(''client_encoding'', ''UTF8'')]" qm k]
    by (simp add: extract_startup_params_def map_find_def map_sorted_def split: option.split)
  have found: "map_find (extract_startup_params qm []) k = Some v"
    if "map_find qm a = Some v" "gives_param a k"
      "\<And>b. b \<in> fst ` set qm \<Longrightarrow> gives_param b k \<Longrightarrow> b \<noteq> a \<Longrightarrow> b < a" for a v
    using find_rev_sorted [OF assms(1), of a v "\<lambda>b. gives_param b k"] that start by (simp add: map_find_def)
  have key: "b \<in> fst ` set qm \<longleftrightarrow> map_find qm b \<noteq> None" for b
    by (simp add: map_find_def map_of_eq_None_iff)
  have less: "''application_name'' < ''pgparam.'' @ x" "''options'' < ''pgparam.'' @ x" "''client_encoding'' < ''pgparam.'' @ x"
      "''pgparam.'' @ x < ''timezone''" for x :: bytes
    by simp_all
  consider (empty) "k = []" | (zone) v where "k = ''TimeZone''" "map_find qm ''timezone'' = Some v"
    | (pg) v where "k \<noteq> []" "k = ''TimeZone'' \<Longrightarrow> map_find qm ''timezone'' = None" "map_find qm (''pgparam.'' @ k) = Some v"
    | (named) v where "k \<in> {''application_name'', ''options'', ''client_encoding''}" "map_find qm (''pgparam.'' @ k) = None"
        "map_find qm k = Some v"
    | (none) "k \<noteq> []" "k = ''TimeZone'' \<Longrightarrow> map_find qm ''timezone'' = None" "map_find qm (''pgparam.'' @ k) = None"
        "k \<in> {''application_name'', ''options'', ''client_encoding''} \<Longrightarrow> map_find qm k = None"
    by (metis option.exhaust)
  then show ?thesis
  proof cases
    case empty
    then have "find ?P (rev qm) = None" by (simp add: find_None_iff gives_param_def)
    with empty start show ?thesis by (simp add: wanted_param_def)
  next
    case zone
    have "map_find (extract_startup_params qm []) k = Some v"
      by (rule found [OF zone(2)]) (use zone(1) less(4) in \<open>auto simp: gives_param_def\<close>)
    with zone show ?thesis by (simp add: wanted_param_def)
  next
    case pg
    have "map_find (extract_startup_params qm []) k = Some v"
      by (rule found [OF pg(3)]) (use pg(1,2) less(1-3) key in \<open>auto simp: gives_param_def\<close>)
    with pg assms(2,3) show ?thesis by (auto simp: wanted_param_def)
  next
    case named
    have "map_find (extract_startup_params qm []) k = Some v"
      by (rule found [OF named(3)]) (use named(1,2) key in \<open>auto simp: gives_param_def\<close>)
    with named assms(2,3) show ?thesis by (auto simp: wanted_param_def)
  next
    case none
    have "map_find qm b = None" if "gives_param b k" for b
      using that none unfolding gives_param_def by (elim conjE disjE) simp_all
    with key have "find ?P (rev qm) = None" by (force simp: find_None_iff)
    with none assms(2,3) start show ?thesis unfolding wanted_param_def by (cases "k = ''client_encoding''") simp_all
  qed
qed

text \<open>The parameters as they are sent, behind the user and the database.\<close>

lemma sent_params_wanted:
  assumes "map_sorted qm"
  defines "sent \<equiv> filter (\<lambda>(k, v). k \<noteq> ''user'' \<and> k \<noteq> ''database'') (extract_startup_params qm [])"
  shows "distinct (map fst sent)" and "map_of sent k = wanted_param qm k"
proof -
  have "map_sorted (extract_startup_params qm [])"
    by (rule extract_startup_params_sorted) (simp add: map_sorted_def)
  then have "distinct (map fst (extract_startup_params qm []))"
    by (simp add: map_sorted_def strict_sorted_iff)
  then show "distinct (map fst sent)" unfolding sent_def by (rule distinct_map_filter)
  have only: "map_of (filter (\<lambda>(k, v). R k) ps) k = (if R k then map_of ps k else None)" for R and ps :: "(bytes \<times> bytes) list"
    by (induction ps) auto
  show "map_of sent k = wanted_param qm k"
    using startup_params_wanted [OF assms(1), of k] only [of "\<lambda>k. k \<noteq> ''user'' \<and> k \<noteq> ''database''"]
    by (auto simp: sent_def map_find_def wanted_param_def)
qed

text \<open>The credentials and the database, from the parts of the URL.\<close>

lemma extract_auth_info_parts:
  assumes "uri_userinfo uri = Some (u @ (case p of None \<Rightarrow> [] | Some x \<Rightarrow> CHR '':'' # x)) \<or>
      uri_userinfo uri = None \<and> u = [] \<and> p = None"
    and "CHR '':'' \<notin> set u"
    and "uri_path uri = Some (CHR ''/'' # d) \<or> uri_path uri = None \<and> d = []"
  shows "extract_auth_info wkf uri ([], [], []) =
    (wf_url_decode wkf u, wf_url_decode wkf (case p of None \<Rightarrow> [] | Some x \<Rightarrow> x), wf_url_decode wkf d)"
proof -
  have no: "\<forall>x \<in> set u. x \<noteq> CHR '':''" using assms(2) by auto
  have "(case uri_path uri of None \<Rightarrow> [] | Some p \<Rightarrow> if length p \<ge> 2 \<and> p ! 0 = CHR ''/'' then tl p else []) = d"
    using assms(3) by (cases d) auto
  moreover have "(case uri_userinfo uri of None \<Rightarrow> ([], [])
      | Some info \<Rightarrow> if CHR '':'' \<in> set info
          then (takeWhile (\<lambda>c. c \<noteq> CHR '':'') info, tl (dropWhile (\<lambda>c. c \<noteq> CHR '':'') info)) else (info, [])) =
      (u, case p of None \<Rightarrow> [] | Some x \<Rightarrow> x)"
    using assms(1,2) takeWhile_append_stop [OF no, of "CHR '':''"] dropWhile_append_stop [OF no, of "CHR '':''"]
    by (cases p) auto
  ultimately show ?thesis by (simp add: extract_auth_info_def)
qed

end
