(* ===== verification/Parser.thy ===== *)
theory Parser
  imports Frame_Loop
begin

section \<open>Backend messages: src/protocol/PostgresParser.cc\<close>

text \<open>
  The classification of frames into backend events and the decoders of the message
  payloads. A decoder takes the payload as \<open>bytes\<close>; a pointer that walks over it is the
  remaining suffix, so \<open>end - p\<close> is the length of the suffix. Output parameters are taken
  and returned; the guards against null output pointers have no counterpart, since every
  call in the code passes an address. The \<open>int\<close> results are kept.

  A cell does not copy its bytes: \<open>parse_data_row\<close> is given the offset of its payload in the
  response buffer and records where each column lies. The lemmas give, for arbitrary input,
  that cells stay inside the payload, and for the reference encoders \<open>enc_\<dots>\<close> (the server's
  side of the protocol) that every message decodes to what was encoded.
\<close>

subsection \<open>Events\<close>

datatype pg_event_type =
    PG_EVENT_AUTH | PG_EVENT_ERROR | PG_EVENT_PARAMETER_STATUS | PG_EVENT_BACKEND_KEY
  | PG_EVENT_NEGOTIATE_PROTOCOL | PG_EVENT_READY | PG_EVENT_NOTIFICATION
  | PG_EVENT_ROW_DESCRIPTION | PG_EVENT_DATA_ROW | PG_EVENT_COMMAND_COMPLETE
  | PG_EVENT_COPY_IN | PG_EVENT_COPY_OUT | PG_EVENT_COPY_DATA | PG_EVENT_COPY_DONE
  | PG_EVENT_COPY_FAIL | PG_EVENT_NOTICE | PG_EVENT_EMPTY_QUERY | PG_EVENT_PARSE_COMPLETE
  | PG_EVENT_BIND_COMPLETE | PG_EVENT_CLOSE_COMPLETE | PG_EVENT_PARAMETER_DESCRIPTION
  | PG_EVENT_NO_DATA | PG_EVENT_UNKNOWN

definition event_type :: "char \<Rightarrow> pg_event_type" where
  "event_type t =
     (if t = CHR ''R'' then PG_EVENT_AUTH
      else if t = CHR ''E'' then PG_EVENT_ERROR
      else if t = CHR ''S'' then PG_EVENT_PARAMETER_STATUS
      else if t = CHR ''K'' then PG_EVENT_BACKEND_KEY
      else if t = CHR ''v'' then PG_EVENT_NEGOTIATE_PROTOCOL
      else if t = CHR ''Z'' then PG_EVENT_READY
      else if t = CHR ''A'' then PG_EVENT_NOTIFICATION
      else if t = CHR ''T'' then PG_EVENT_ROW_DESCRIPTION
      else if t = CHR ''D'' then PG_EVENT_DATA_ROW
      else if t = CHR ''C'' then PG_EVENT_COMMAND_COMPLETE
      else if t = CHR ''G'' then PG_EVENT_COPY_IN
      else if t = CHR ''H'' then PG_EVENT_COPY_OUT
      else if t = CHR ''W'' then PG_EVENT_COPY_OUT
      else if t = CHR ''d'' then PG_EVENT_COPY_DATA
      else if t = CHR ''c'' then PG_EVENT_COPY_DONE
      else if t = CHR ''f'' then PG_EVENT_COPY_FAIL
      else if t = CHR ''N'' then PG_EVENT_NOTICE
      else if t = CHR ''I'' then PG_EVENT_EMPTY_QUERY
      else if t = CHR ''1'' then PG_EVENT_PARSE_COMPLETE
      else if t = CHR ''2'' then PG_EVENT_BIND_COMPLETE
      else if t = CHR ''3'' then PG_EVENT_CLOSE_COMPLETE
      else if t = CHR ''t'' then PG_EVENT_PARAMETER_DESCRIPTION
      else if t = CHR ''n'' then PG_EVENT_NO_DATA
      else PG_EVENT_UNKNOWN)"

record pg_event =
  ev_type :: pg_event_type
  ev_payload :: "nat option"
  ev_payload_size :: nat

definition parse_backend_event :: "pg_frame \<Rightarrow> pg_event" where
  "parse_backend_event fr =
     \<lparr>ev_type = event_type (fr_type fr), ev_payload = fr_payload fr,
      ev_payload_size = fr_payload_size fr\<rparr>"

definition event_data :: "bytes \<Rightarrow> pg_event \<Rightarrow> bytes option" where
  "event_data buf ev =
     (case ev_payload ev of
        None \<Rightarrow> None
      | Some off \<Rightarrow>
          if off + ev_payload_size ev \<le> length buf
          then Some (take (ev_payload_size ev) (drop off buf)) else None)"

lemma parse_backend_event_simps [simp]:
  "ev_type (parse_backend_event fr) = event_type (fr_type fr)"
  "ev_payload (parse_backend_event fr) = fr_payload fr"
  "ev_payload_size (parse_backend_event fr) = fr_payload_size fr"
  by (simp_all add: parse_backend_event_def)

lemma event_data_view: "event_data buf (parse_backend_event fr) = payload_view buf fr"
  by (cases "fr_payload fr") (simp_all add: event_data_def payload_view_def)

subsection \<open>Error, parameter, key, notification and negotiation messages\<close>

definition set_error_field :: "char \<Rightarrow> bytes \<Rightarrow> pg_error \<Rightarrow> pg_error" where
  "set_error_field typ value e =
     (if typ = CHR ''S'' then e\<lparr>err_severity := value\<rparr>
      else if typ = CHR ''V'' then (if err_severity e = [] then e\<lparr>err_severity := value\<rparr> else e)
      else if typ = CHR ''C'' then e\<lparr>err_sql_state := value\<rparr>
      else if typ = CHR ''M'' then e\<lparr>err_message := value\<rparr>
      else if typ = CHR ''D'' then e\<lparr>err_detail := value\<rparr>
      else if typ = CHR ''H'' then e\<lparr>err_hint := value\<rparr>
      else if typ = CHR ''P'' then e\<lparr>err_position := value\<rparr>
      else e)"

function parse_error_response :: "bytes \<Rightarrow> pg_error \<Rightarrow> pg_error" where
  "parse_error_response data e =
     (case data of
        [] \<Rightarrow> e
      | typ # p \<Rightarrow>
          if typ = NUL then e
          else (case read_cstring p of
                  None \<Rightarrow> e
                | Some (value, rest) \<Rightarrow> parse_error_response rest (set_error_field typ value e)))"
  by pat_completeness auto
termination
  by (relation "measure (\<lambda>(data, e). length data)") (auto dest: read_cstring_shorter)

declare parse_error_response.simps [simp del]

definition parse_parameter_status :: "bytes \<Rightarrow> bytes str_map \<Rightarrow> bytes str_map" where
  "parse_parameter_status data parameters =
     (case read_cstring data of
        None \<Rightarrow> parameters
      | Some (key, p) \<Rightarrow>
          (case read_cstring p of
             None \<Rightarrow> parameters
           | Some (value, _) \<Rightarrow> map_assign key value parameters))"

definition parse_backend_key_data ::
  "bytes \<Rightarrow> i32 \<times> i32 \<times> bytes \<Rightarrow> i32 \<times> i32 \<times> bytes" where
  "parse_backend_key_data data key =
     (if length data \<ge> 8
      then (read_uint32 data, read_uint32 (drop 4 data), drop 4 data)
      else key)"

definition parse_notification :: "bytes \<Rightarrow> pg_notification list \<Rightarrow> pg_notification list" where
  "parse_notification data notifications =
     (if length data \<ge> 4 then
        (case read_cstring (drop 4 data) of
           None \<Rightarrow> notifications
         | Some (channel, p) \<Rightarrow>
             (case read_cstring p of
                None \<Rightarrow> notifications
              | Some (payload, _) \<Rightarrow>
                  notifications @ [\<lparr>ntf_backend_pid = read_uint32 data, ntf_channel = channel,
                                    ntf_payload = payload\<rparr>]))
      else notifications)"

fun read_options :: "nat \<Rightarrow> bytes \<Rightarrow> bytes list" where
  "read_options 0 p = []"
| "read_options (Suc n) p =
     (if p = [] then []
      else (case read_cstring p of
              None \<Rightarrow> []
            | Some (option, rest) \<Rightarrow> option # read_options n rest))"

definition parse_negotiation_response ::
  "bytes \<Rightarrow> u32 \<times> bytes list \<Rightarrow> u32 \<times> bytes list" where
  "parse_negotiation_response data neg =
     (if length data \<ge> 8
      then (read_uint32 data,
            snd neg @ read_options (unat (read_uint32 (drop 4 data))) (drop 8 data))
      else neg)"

subsection \<open>Result messages\<close>

definition read_field :: "bytes \<Rightarrow> bytes \<Rightarrow> pg_field" where
  "read_field name p =
     \<lparr>fd_name = name, fd_table_oid = read_uint32 p, fd_column_attr = read_uint16 (drop 4 p),
      fd_type_oid = read_uint32 (drop 6 p), fd_type_size = read_uint16 (drop 10 p),
      fd_type_modifier = read_uint32 (drop 12 p), fd_format = read_uint16 (drop 16 p)\<rparr>"

fun read_fields :: "nat \<Rightarrow> bytes \<Rightarrow> pg_field list \<Rightarrow> int \<times> pg_field list" where
  "read_fields 0 p flds = (0, flds)"
| "read_fields (Suc n) p flds =
     (case read_cstring p of
        None \<Rightarrow> (-1, [])
      | Some (name, q) \<Rightarrow>
          if length q < 18 then (-1, [])
          else read_fields n (drop 18 q) (flds @ [read_field name q]))"

definition parse_row_description :: "bytes \<Rightarrow> pg_field list \<Rightarrow> int \<times> pg_field list" where
  "parse_row_description data flds =
     (if length data < 2 then (-1, flds)
      else read_fields (nat (sint (read_int16 data))) (drop 2 data) [])"

definition parse_command_complete :: "bytes \<Rightarrow> bytes \<Rightarrow> bytes" where
  "parse_command_complete data command_tag =
     (case read_cstring data of None \<Rightarrow> command_tag | Some (tag, _) \<Rightarrow> tag)"

definition parse_ready_for_query :: "bytes \<Rightarrow> char \<Rightarrow> char" where
  "parse_ready_for_query data transaction_state =
     (if length data = 1 then data ! 0 else transaction_state)"

text \<open>
  A cell: a pointer into the response buffer (its offset), into the cell's own storage or
  null; its length; and a pointer to its column's entry in the cursor's \<open>fields_\<close> vector
  (the index of the entry).
\<close>

datatype cell_ptr = NullPtr | InBuf nat | InStorage

record pg_cell =
  cl_data :: cell_ptr
  cl_length :: nat
  cl_is_null :: bool
  cl_field :: "nat option"
  cl_storage :: bytes

definition mk_cell :: "cell_ptr \<Rightarrow> nat \<Rightarrow> bool \<Rightarrow> nat option \<Rightarrow> pg_cell" where
  "mk_cell data len is_null field =
     \<lparr>cl_data = data, cl_length = len, cl_is_null = is_null, cl_field = field, cl_storage = []\<rparr>"

fun read_cells :: "nat \<Rightarrow> nat \<Rightarrow> nat \<Rightarrow> bytes \<Rightarrow> pg_cell list \<Rightarrow> int \<times> pg_cell list" where
  "read_cells 0 i off p row = (0, row)"
| "read_cells (Suc n) i off p row =
     (if length p < 4 then (-1, row)
      else let col_len = sint (read_int32 p); q = drop 4 p in
        if col_len = -1 then
          read_cells n (Suc i) (off + 4) q (row @ [mk_cell NullPtr 0 True (Some i)])
        else if col_len \<ge> 0 then
          (if length q < nat col_len then (-1, row)
           else read_cells n (Suc i) (off + 4 + nat col_len) (drop (nat col_len) q)
                  (row @ [mk_cell (InBuf (off + 4)) (nat col_len) False (Some i)]))
        else (-1, row))"

definition parse_data_row ::
  "nat \<Rightarrow> bytes \<Rightarrow> pg_cell list \<Rightarrow> pg_field list \<Rightarrow> int \<times> pg_cell list" where
  "parse_data_row off data row flds =
     (if length data < 2 then (-1, row)
      else let num_cols = sint (read_int16 data) in
        if num_cols < 0 \<or> nat num_cols > length flds then (-1, row)
        else read_cells (nat num_cols) 0 (off + 2) (drop 2 data) row)"

lemmas parser_defs [step_defs] =
  parse_parameter_status_def parse_backend_key_data_def parse_notification_def
  parse_negotiation_response_def parse_row_description_def parse_command_complete_def
  parse_ready_for_query_def parse_data_row_def


subsection \<open>Memory safety of the row decoder, for arbitrary input\<close>

text \<open>
  \<open>cell_within lo hi m c\<close>: the cell is a null, or its bytes lie in the range \<open>[lo, hi)\<close> of
  the buffer; and its column index is below \<open>m\<close>.
\<close>

definition cell_within :: "nat \<Rightarrow> nat \<Rightarrow> nat \<Rightarrow> pg_cell \<Rightarrow> bool" where
  "cell_within lo hi m c \<longleftrightarrow> cl_storage c = [] \<and>
     (case cl_data c of
        NullPtr \<Rightarrow> cl_is_null c \<and> cl_length c = 0
      | InBuf off \<Rightarrow> lo \<le> off \<and> off + cl_length c \<le> hi
      | InStorage \<Rightarrow> False) \<and>
     (case cl_field c of None \<Rightarrow> False | Some i \<Rightarrow> i < m)"

lemma read_cells_within:
  assumes "\<forall>c \<in> set row. cell_within lo (off + length p) m c"
    and "i + n \<le> m" and "lo \<le> off"
  shows "\<forall>c \<in> set (snd (read_cells n i off p row)). cell_within lo (off + length p) m c"
  using assms
proof (induction n i off p row rule: read_cells.induct)
  case (2 n i off p row)
  let ?len = "sint (read_int32 p)"
  consider "length p < 4" | "4 \<le> length p" "?len = -1"
    | "4 \<le> length p" "?len \<noteq> -1" "?len < 0 \<or> length p - 4 < nat ?len"
    | "4 \<le> length p" "?len \<ge> 0" "nat ?len \<le> length p - 4"
    by linarith
  then show ?case
  proof cases
    case 2
    have "\<forall>c \<in> set (row @ [mk_cell NullPtr 0 True (Some i)]). cell_within lo (off + length p) m c"
      using "2.prems" by (auto simp: cell_within_def mk_cell_def)
    with 2 "2.IH"(1) "2.prems"(2,3) show ?thesis by (simp add: Let_def)
  next
    case 4
    have "\<forall>c \<in> set (row @ [mk_cell (InBuf (off + 4)) (nat ?len) False (Some i)]).
        cell_within lo (off + length p) m c"
      using 4 "2.prems" by (auto simp: cell_within_def mk_cell_def)
    with 4 "2.IH"(2) "2.prems"(2,3) show ?thesis by (simp add: Let_def)
  qed (use "2.prems" in \<open>auto simp: Let_def\<close>)
qed simp

lemma parse_data_row_within:
  "\<forall>c \<in> set (snd (parse_data_row off data [] flds)).
     cell_within off (off + length data) (length flds) c"
proof (cases "length data < 2 \<or> sint (read_int16 data) < 0 \<or>
    nat (sint (read_int16 data)) > length flds")
  case False
  let ?n = "nat (sint (read_int16 data))"
  from False have "2 \<le> length data" by simp
  then have eq: "off + 2 + length (drop 2 data) = off + length data" by simp
  have "\<forall>c \<in> set (snd (read_cells ?n 0 (off + 2) (drop 2 data) [])).
      cell_within off (off + 2 + length (drop 2 data)) (length flds) c"
    by (rule read_cells_within) (use False in auto)
  moreover have "parse_data_row off data [] flds = read_cells ?n 0 (off + 2) (drop 2 data) []"
    using False by (simp add: parse_data_row_def Let_def)
  ultimately show ?thesis by (simp only: eq)
qed (auto simp: parse_data_row_def Let_def)

subsection \<open>Reference encoders and round trips\<close>

definition enc_error :: "(char \<times> bytes) list \<Rightarrow> bytes" where
  "enc_error fs = concat (map (\<lambda>(t, v). t # v @ [NUL]) fs) @ [NUL]"

lemma parse_error_response_enc [wire_simps]:
  "(\<forall>(t, v) \<in> set fs. t \<noteq> NUL \<and> NUL \<notin> set v) \<Longrightarrow>
   parse_error_response (enc_error fs) e = fold (\<lambda>(t, v). set_error_field t v) fs e"
proof (induction fs arbitrary: e)
  case Nil
  then show ?case by (simp add: enc_error_def parse_error_response.simps)
next
  case (Cons f fs)
  obtain t v where f: "f = (t, v)" by force
  have "enc_error (f # fs) = t # v @ NUL # enc_error fs"
    by (simp add: enc_error_def f)
  with Cons show ?case
    by (simp add: f parse_error_response.simps [of "t # v @ NUL # enc_error fs"] wire_simps)
qed

lemma parse_parameter_status_enc [wire_simps]:
  "NUL \<notin> set k \<Longrightarrow> NUL \<notin> set v \<Longrightarrow>
   parse_parameter_status (k @ NUL # v @ [NUL]) m = map_assign k v m"
  by (simp add: parse_parameter_status_def wire_simps)

lemma parse_backend_key_data_enc [wire_simps]:
  "4 \<le> length secret \<Longrightarrow>
   parse_backend_key_data (be_bytes 4 (unat pid) @ secret) key = (pid, read_uint32 secret, secret)"
  by (simp add: parse_backend_key_data_def wire_simps)

lemma parse_notification_enc [wire_simps]:
  "NUL \<notin> set channel \<Longrightarrow> NUL \<notin> set payload \<Longrightarrow>
   parse_notification (be_bytes 4 (unat pid) @ channel @ NUL # payload @ [NUL]) ns =
     ns @ [\<lparr>ntf_backend_pid = pid, ntf_channel = channel, ntf_payload = payload\<rparr>]"
  by (simp add: parse_notification_def wire_simps)

lemma read_options_enc:
  "(\<forall>s \<in> set opts. NUL \<notin> set s) \<Longrightarrow>
   read_options (length opts) (concat (map (\<lambda>s. s @ [NUL]) opts)) = opts"
  by (induction opts) (auto simp: wire_simps)

lemma parse_negotiation_response_enc [wire_simps]:
  assumes "\<forall>s \<in> set opts. NUL \<notin> set s" and "length opts < 2 ^ 32"
  shows "parse_negotiation_response
     (be_bytes 4 (unat v) @ be_bytes 4 (length opts) @ concat (map (\<lambda>s. s @ [NUL]) opts)) neg =
     (v, snd neg @ opts)"
  using assms
  by (simp add: parse_negotiation_response_def wire_simps read_options_enc unat_of_nat
      take_bit_eq_mod)

definition enc_field :: "pg_field \<Rightarrow> bytes" where
  "enc_field f = fd_name f @ NUL # be_bytes 4 (unat (fd_table_oid f)) @
     be_bytes 2 (unat (fd_column_attr f)) @ be_bytes 4 (unat (fd_type_oid f)) @
     be_bytes 2 (unat (fd_type_size f)) @ be_bytes 4 (unat (fd_type_modifier f)) @
     be_bytes 2 (unat (fd_format f))"

definition enc_row_description :: "pg_field list \<Rightarrow> bytes" where
  "enc_row_description fs = be_bytes 2 (length fs) @ concat (map enc_field fs)"

lemma sint16_of_nat: "n < 2 ^ 15 \<Longrightarrow> sint (word_of_nat n :: i16) = int n"
  by (simp add: signed_of_nat signed_take_bit_int_eq_self)

lemma sint32_of_nat: "n < 2 ^ 31 \<Longrightarrow> sint (word_of_nat n :: i32) = int n"
  by (simp add: signed_of_nat signed_take_bit_int_eq_self)

lemma read_fields_enc:
  "(\<forall>f \<in> set fs. NUL \<notin> set (fd_name f)) \<Longrightarrow>
   read_fields (length fs) (concat (map enc_field fs)) flds = (0, flds @ fs)"
proof (induction fs arbitrary: flds)
  case (Cons f fs)
  let ?rest = "concat (map enc_field fs)"
  let ?q = "be_bytes 4 (unat (fd_table_oid f)) @ be_bytes 2 (unat (fd_column_attr f)) @
     be_bytes 4 (unat (fd_type_oid f)) @ be_bytes 2 (unat (fd_type_size f)) @
     be_bytes 4 (unat (fd_type_modifier f)) @ be_bytes 2 (unat (fd_format f)) @ ?rest"
  have "read_field (fd_name f) ?q = f"
    by (simp add: read_field_def wire_simps)
  moreover have "drop 18 ?q = ?rest" by simp
  moreover have "read_cstring (enc_field f @ ?rest) = Some (fd_name f, ?q)"
    using Cons.prems by (simp add: enc_field_def wire_simps)
  ultimately show ?case using Cons by simp
qed simp

lemma parse_row_description_enc [wire_simps]:
  assumes "\<forall>f \<in> set fs. NUL \<notin> set (fd_name f)" and "length fs < 2 ^ 15"
  shows "parse_row_description (enc_row_description fs) flds = (0, fs)"
  using assms
  by (simp add: parse_row_description_def enc_row_description_def read_int16_def wire_simps
      sint16_of_nat read_fields_enc)

fun enc_value :: "bytes option \<Rightarrow> bytes" where
  "enc_value None = be_bytes 4 (2 ^ 32 - 1)"
| "enc_value (Some v) = be_bytes 4 (length v) @ v"

definition enc_data_row :: "bytes option list \<Rightarrow> bytes" where
  "enc_data_row vals = be_bytes 2 (length vals) @ concat (map enc_value vals)"

text \<open>The cells of an encoded row that starts at offset \<open>off\<close> of the buffer.\<close>

fun row_cells :: "nat \<Rightarrow> nat \<Rightarrow> bytes option list \<Rightarrow> pg_cell list" where
  "row_cells i off [] = []"
| "row_cells i off (None # vals) =
     mk_cell NullPtr 0 True (Some i) # row_cells (Suc i) (off + 4) vals"
| "row_cells i off (Some v # vals) =
     mk_cell (InBuf (off + 4)) (length v) False (Some i) #
     row_cells (Suc i) (off + 4 + length v) vals"

lemma read_cells_enc:
  "(\<forall>v \<in> set vals. length (case v of None \<Rightarrow> [] | Some b \<Rightarrow> b) < 2 ^ 31) \<Longrightarrow>
   read_cells (length vals) i off (concat (map enc_value vals)) row = (0, row @ row_cells i off vals)"
proof (induction vals arbitrary: i off row)
  case (Cons v vals)
  show ?case
  proof (cases v)
    case None
    have "sint (read_int32 (enc_value None @ concat (map enc_value vals))) = -1"
      by (simp add: read_int32_def wire_simps)
    with None Cons show ?thesis by (simp add: Let_def)
  next
    case (Some b)
    with Cons.prems have "sint (read_int32 (enc_value v @ concat (map enc_value vals))) = int (length b)"
      by (simp add: read_int32_def wire_simps sint32_of_nat)
    with Some Cons show ?thesis by (simp add: Let_def)
  qed
qed simp

lemma parse_data_row_enc [wire_simps]:
  assumes "\<forall>v \<in> set vals. length (case v of None \<Rightarrow> [] | Some b \<Rightarrow> b) < 2 ^ 31"
    and "length vals \<le> length flds" and "length vals < 2 ^ 15"
  shows "parse_data_row off (enc_data_row vals) [] flds = (0, row_cells 0 (off + 2) vals)"
  using assms
  by (simp add: parse_data_row_def enc_data_row_def read_int16_def wire_simps sint16_of_nat
      read_cells_enc)

end
