(* ===== verification/Scram.thy ===== *)
theory Scram
  imports C_Stdlib
begin

section \<open>SCRAM-SHA-256: src/auth/ScramAuth.cc\<close>

text \<open>
  The client side of the SCRAM exchange. OpenSSL is not part of the repository: its digests,
  PBKDF2, base64 block functions and random bytes are the fields of a record the definitions
  take as an argument. \<open>openssl_ok\<close> states the documented behaviour the properties rely on:
  the output lengths of HMAC-SHA-256 and PBKDF2, and that \<open>EVP_DecodeBlock\<close> inverts
  \<open>EVP_EncodeBlock\<close> up to the zero bytes it pads with. \<open>demo_openssl\<close> is a concrete
  implementation of the record that satisfies it.

  The reference is RFC 5802: \<open>rfc_server_accepts\<close> is the server's check of the client
  proof, \<open>rfc_server_signature\<close> the signature it answers with.
\<close>

unbundle bit_operations_syntax

record openssl =
  ossl_md5 :: "bytes \<Rightarrow> bytes"
  ossl_sha256 :: "bytes \<Rightarrow> bytes"
  ossl_hmac :: "bytes \<Rightarrow> bytes \<Rightarrow> bytes"
  ossl_pbkdf2 :: "bytes \<Rightarrow> bytes \<Rightarrow> nat \<Rightarrow> bytes option"
  ossl_encode_block :: "bytes \<Rightarrow> bytes"
  ossl_decode_block :: "bytes \<Rightarrow> bytes option"
  ossl_rand :: "nat \<Rightarrow> bytes option"

record scram_auth =
  sc_user :: bytes
  sc_password :: bytes
  sc_client_nonce :: bytes
  sc_client_first_bare :: bytes
  sc_auth_message :: bytes
  sc_salted_password_cache :: bytes

definition new_scram :: scram_auth where
  "new_scram = \<lparr>sc_user = [], sc_password = [], sc_client_nonce = [],
     sc_client_first_bare = [], sc_auth_message = [], sc_salted_password_cache = []\<rparr>"

definition base64_encode :: "openssl \<Rightarrow> bytes \<Rightarrow> bytes" where
  "base64_encode ossl buffer = ossl_encode_block ossl buffer"

definition base64_decode :: "openssl \<Rightarrow> bytes \<Rightarrow> bytes" where
  "base64_decode ossl b64 =
     (let in_len = length b64 in
      if in_len = 0 then []
      else (case ossl_decode_block ossl b64 of
              None \<Rightarrow> []
            | Some out \<Rightarrow>
                let pad_len = (if b64 ! (in_len - 1) = CHR ''='' then 1 else 0) +
                              (if in_len > 1 \<and> b64 ! (in_len - 2) = CHR ''='' then 1 else 0)
                in take (length out - pad_len) out))"

definition scram_init :: "bytes \<Rightarrow> bytes \<Rightarrow> scram_auth \<Rightarrow> scram_auth" where
  "scram_init user pass sc = sc\<lparr>sc_user := user, sc_password := pass\<rparr>"

text \<open>The argument \<open>k\<close> counts the calls of \<open>RAND_bytes\<close>; \<open>None\<close> is its failure.\<close>

definition generate_client_first_message ::
  "openssl \<Rightarrow> nat \<Rightarrow> scram_auth \<Rightarrow> bytes \<times> scram_auth" where
  "generate_client_first_message ossl k sc =
     (case ossl_rand ossl k of
        None \<Rightarrow> ([], sc)
      | Some rand_bytes \<Rightarrow>
          let nonce = base64_encode ossl rand_bytes;
              bare = ''n='' @ sc_user sc @ '',r='' @ nonce
          in (bare, sc\<lparr>sc_client_nonce := nonce, sc_client_first_bare := bare\<rparr>))"

text \<open>The attributes of the server's first message; \<open>None\<close> when \<open>std::stoi\<close> throws.\<close>

fun scram_attributes :: "bytes list \<Rightarrow> bytes \<times> bytes \<times> int \<Rightarrow> (bytes \<times> bytes \<times> int) option" where
  "scram_attributes [] st = Some st"
| "scram_attributes (part # parts) (nonce, salt, iter) =
     (if length part > 2 then
        (if part ! 0 = CHR ''r'' \<and> part ! 1 = CHR ''='' then
           scram_attributes parts (drop 2 part, salt, iter)
         else if part ! 0 = CHR ''s'' \<and> part ! 1 = CHR ''='' then
           scram_attributes parts (nonce, drop 2 part, iter)
         else if part ! 0 = CHR ''i'' \<and> part ! 1 = CHR ''='' then
           (case stoi (drop 2 part) of
              None \<Rightarrow> None
            | Some n \<Rightarrow> scram_attributes parts (nonce, salt, n))
         else scram_attributes parts (nonce, salt, iter))
      else scram_attributes parts (nonce, salt, iter))"

definition xor_bytes :: "bytes \<Rightarrow> bytes \<Rightarrow> bytes" where
  "xor_bytes a b = map2 (\<lambda>x y. char_of (of_char x XOR of_char y :: nat)) a b"

definition generate_client_final_message ::
  "openssl \<Rightarrow> bytes \<Rightarrow> scram_auth \<Rightarrow> bytes \<times> scram_auth" where
  "generate_client_final_message ossl server_first_message sc =
     (case scram_attributes (split_on (CHR '','') server_first_message) ([], [], -1) of
        None \<Rightarrow> ([], sc)
      | Some (server_nonce, salt_b64, iterations) \<Rightarrow>
          if server_nonce = [] \<or> salt_b64 = [] \<or> iterations \<le> 0 then ([], sc)
          else if take (length (sc_client_nonce sc)) server_nonce \<noteq> sc_client_nonce sc then ([], sc)
          else let salt = base64_decode ossl salt_b64 in
            if salt = [] \<and> salt_b64 \<noteq> [] then ([], sc)
            else (case ossl_pbkdf2 ossl (sc_password sc) salt (nat iterations) of
                    None \<Rightarrow> ([], sc)
                  | Some salted_password \<Rightarrow>
                      let client_key = ossl_hmac ossl salted_password ''Client Key'';
                          stored_key = ossl_sha256 ossl client_key;
                          final_without_proof = ''c=biws,r='' @ server_nonce;
                          auth_message = sc_client_first_bare sc @ '','' @ server_first_message @
                                         '','' @ final_without_proof;
                          client_signature = ossl_hmac ossl stored_key auth_message;
                          client_proof = xor_bytes client_key client_signature
                      in (final_without_proof @ '',p='' @ base64_encode ossl client_proof,
                          sc\<lparr>sc_salted_password_cache := salted_password,
                             sc_auth_message := auth_message\<rparr>)))"

definition verify_server_signature :: "openssl \<Rightarrow> bytes \<Rightarrow> scram_auth \<Rightarrow> bool" where
  "verify_server_signature ossl server_final_message sc =
     (if length (sc_salted_password_cache sc) \<noteq> 32 \<or> sc_auth_message sc = [] then False
      else if length server_final_message < 2 \<or> server_final_message ! 0 \<noteq> CHR ''v'' \<or>
              server_final_message ! 1 \<noteq> CHR ''='' then False
      else let server_signature = base64_decode ossl (drop 2 server_final_message);
               server_key = ossl_hmac ossl (sc_salted_password_cache sc) ''Server Key'';
               expected = ossl_hmac ossl server_key (sc_auth_message sc)
           in if length server_signature \<noteq> 32 then False else server_signature = expected)"

lemmas scram_defs [step_defs] =
  scram_init_def generate_client_first_message_def generate_client_final_message_def

subsection \<open>The contract with OpenSSL and the RFC 5802 server\<close>

definition b64_pad :: "bytes \<Rightarrow> nat" where
  "b64_pad bs = (3 - length bs mod 3) mod 3"

definition openssl_ok :: "openssl \<Rightarrow> bool" where
  "openssl_ok ossl \<longleftrightarrow>
     (\<forall>k d. length (ossl_hmac ossl k d) = 32) \<and>
     (\<forall>p s i h. ossl_pbkdf2 ossl p s i = Some h \<longrightarrow> length h = 32) \<and>
     (\<forall>bs. ossl_decode_block ossl (ossl_encode_block ossl bs) =
            Some (bs @ replicate (b64_pad bs) NUL)) \<and>
     (\<forall>bs. \<exists>body. ossl_encode_block ossl bs = body @ replicate (b64_pad bs) (CHR ''='') \<and>
            CHR ''='' \<notin> set body \<and> CHR '','' \<notin> set body \<and> (bs \<noteq> [] \<longrightarrow> body \<noteq> []))"

definition rfc_auth_message :: "bytes \<Rightarrow> bytes \<Rightarrow> bytes \<Rightarrow> bytes" where
  "rfc_auth_message client_first_bare server_first final_without_proof =
     client_first_bare @ '','' @ server_first @ '','' @ final_without_proof"

definition rfc_server_accepts :: "openssl \<Rightarrow> bytes \<Rightarrow> bytes \<Rightarrow> bytes \<Rightarrow> bool" where
  "rfc_server_accepts ossl stored_key auth_message prf \<longleftrightarrow>
     ossl_sha256 ossl (xor_bytes prf (ossl_hmac ossl stored_key auth_message)) = stored_key"

definition rfc_server_signature :: "openssl \<Rightarrow> bytes \<Rightarrow> bytes \<Rightarrow> bytes" where
  "rfc_server_signature ossl salted_password auth_message =
     ossl_hmac ossl (ossl_hmac ossl salted_password ''Server Key'') auth_message"


text \<open>
  A concrete OpenSSL for the witnesses: hexadecimal digits with base64's padding for the
  block codec, and digests that mix their inputs into the documented number of bytes.
\<close>

definition unhex :: "char \<Rightarrow> nat" where
  "unhex c = (if isdigit c then of_char c - 48 else of_char c - 87)"

fun unhex_bytes :: "bytes \<Rightarrow> bytes" where
  "unhex_bytes (h # l # cs) = char_of (unhex h * 16 + unhex l) # unhex_bytes cs"
| "unhex_bytes _ = []"

definition demo_digest :: "nat \<Rightarrow> bytes \<Rightarrow> bytes" where
  "demo_digest n bs = take n (bs @ replicate n (CHR ''#''))"

definition demo_openssl :: openssl where
  "demo_openssl =
     \<lparr>ossl_md5 = demo_digest 16, ossl_sha256 = demo_digest 32,
      ossl_hmac = (\<lambda>k d. demo_digest 32 (take 8 (rev k) @ rev d)),
      ossl_pbkdf2 = (\<lambda>p s i. Some (demo_digest 32 (p @ s @ show_nat i))),
      ossl_encode_block = (\<lambda>bs. hex_bytes bs @ replicate (b64_pad bs) (CHR ''='')),
      ossl_decode_block = (\<lambda>cs.
        let body = takeWhile (\<lambda>c. c \<noteq> CHR ''='') cs in
        Some (unhex_bytes body @ replicate (length cs - length body) NUL)),
      ossl_rand = (\<lambda>k. Some (demo_digest 16 (show_nat k)))\<rparr>"

subsection \<open>The codec and the exclusive or\<close>

lemma xor_nat_less:
  fixes a b :: nat
  assumes "a < 2 ^ n" and "b < 2 ^ n"
  shows "a XOR b < 2 ^ n"
  using assms by (metis take_bit_nat_eq_self take_bit_nat_less_exp take_bit_xor)

lemma xor_bytes_cancel:
  assumes "length a = length b"
  shows "xor_bytes (xor_bytes a b) b = a"
  using assms
proof (induction a b rule: list_induct2)
  case (Cons x a y b)
  have "(of_char x XOR of_char y :: nat) < 2 ^ 8"
    by (rule xor_nat_less) (simp_all add: nat_of_char_less_256)
  then have "char_of (of_char (char_of (of_char x XOR of_char y :: nat) :: char) XOR of_char y :: nat) = x"
    by (simp add: xor.assoc)
  with Cons show ?case by (simp add: xor_bytes_def)
qed (simp add: xor_bytes_def)

lemma length_xor_bytes: "length (xor_bytes a b) = min (length a) (length b)"
  by (simp add: xor_bytes_def)

lemma openssl_okD:
  assumes "openssl_ok ossl"
  shows "length (ossl_hmac ossl k d) = 32"
    and "ossl_pbkdf2 ossl p s i = Some h \<Longrightarrow> length h = 32"
    and "ossl_decode_block ossl (ossl_encode_block ossl bs) = Some (bs @ replicate (b64_pad bs) NUL)"
    and "CHR '','' \<notin> set (ossl_encode_block ossl bs)"
    and "bs \<noteq> [] \<Longrightarrow> ossl_encode_block ossl bs \<noteq> []"
proof -
  have "\<exists>body. ossl_encode_block ossl bs = body @ replicate (b64_pad bs) (CHR ''='') \<and>
      CHR ''='' \<notin> set body \<and> CHR '','' \<notin> set body \<and> (bs \<noteq> [] \<longrightarrow> body \<noteq> [])"
    using assms by (simp add: openssl_ok_def)
  then show "CHR '','' \<notin> set (ossl_encode_block ossl bs)"
    and "bs \<noteq> [] \<Longrightarrow> ossl_encode_block ossl bs \<noteq> []"
    by auto
qed (use assms in \<open>auto simp: openssl_ok_def\<close>)

lemma b64_pad_cases: "b64_pad bs = 0 \<or> b64_pad bs = 1 \<or> b64_pad bs = 2"
  by (auto simp: b64_pad_def)

lemma base64_decode_encode:
  assumes "openssl_ok ossl"
  shows "base64_decode ossl (base64_encode ossl bs) = bs"
proof (cases "bs = []")
  case True
  have "ossl_decode_block ossl (ossl_encode_block ossl bs) = Some (bs @ replicate (b64_pad bs) NUL)"
    by (rule openssl_okD(3) [OF assms])
  with True show ?thesis
    by (simp add: base64_decode_def base64_encode_def b64_pad_def Let_def)
next
  case False
  let ?e = "ossl_encode_block ossl bs"
  obtain body where e: "?e = body @ replicate (b64_pad bs) (CHR ''='')"
    and body: "CHR ''='' \<notin> set body" "body \<noteq> []"
    using assms False by (auto simp: openssl_ok_def)
  obtain b0 c where b: "body = b0 @ [c]" and c: "c \<noteq> CHR ''=''"
    using body by (cases body rule: rev_cases) auto
  have no_eq: "i < length b0 \<Longrightarrow> b0 ! i \<noteq> CHR ''=''" for i
    using body(1) b by (metis Un_iff nth_mem set_append)
  have dec: "ossl_decode_block ossl ?e = Some (bs @ replicate (b64_pad bs) NUL)"
    by (rule openssl_okD(3) [OF assms])
  have pad: "(if ?e ! (length ?e - 1) = CHR ''='' then 1 else 0) +
      (if length ?e > 1 \<and> ?e ! (length ?e - 2) = CHR ''='' then 1 else 0) = b64_pad bs"
    using b64_pad_cases [of bs]
    by (elim disjE) (use no_eq c in \<open>auto simp: e b nth_append numeral_2_eq_2\<close>)
  have "?e \<noteq> []" using e b by simp
  then show ?thesis
    unfolding base64_decode_def base64_encode_def Let_def pad dec by simp
qed

subsection \<open>The exchange against the RFC 5802 server\<close>

lemma comma_to_string: "CHR '','' \<notin> set (to_string v)"
  by (simp add: to_string_def not_in_show_nat isdigit_def)

lemma scram_attributes_server_first:
  assumes "CHR '','' \<notin> set nonce" "CHR '','' \<notin> set salt" "nonce \<noteq> []" "salt \<noteq> []"
    and "0 < i" "i < 2 ^ 31"
  shows "scram_attributes
      (split_on (CHR '','') (''r='' @ nonce @ '',s='' @ salt @ '',i='' @ to_string i)) ([], [], -1) =
     Some (nonce, salt, i)"
proof -
  have "split_on (CHR '','') (''i='' @ to_string i) = [''i='' @ to_string i]"
    by (rule split_on_no_sep) (simp add: comma_to_string)
  moreover have "split_on (CHR '','') ((''s='' @ salt) @ CHR '','' # ''i='' @ to_string i) =
      (''s='' @ salt) # split_on (CHR '','') (''i='' @ to_string i)"
    by (rule split_on_append) (simp add: assms)
  moreover have "split_on (CHR '','') ((''r='' @ nonce) @ CHR '','' # (''s='' @ salt) @ CHR '','' # ''i='' @ to_string i) =
      (''r='' @ nonce) # split_on (CHR '','') ((''s='' @ salt) @ CHR '','' # ''i='' @ to_string i)"
    by (rule split_on_append) (simp add: assms)
  moreover have "to_string i \<noteq> []"
    using assms(5) show_nat_not_Nil by (simp add: to_string_def)
  moreover have "stoi (to_string i) = Some i"
    using assms(5,6) by (intro stoi_to_string) auto
  ultimately show ?thesis using assms(3,4) by simp
qed

lemma scram_final_message:
  assumes ok: "openssl_ok ossl"
    and nonce: "CHR '','' \<notin> set (sc_client_nonce sc @ server_part)" "sc_client_nonce sc @ server_part \<noteq> []"
    and salt: "salt \<noteq> []" and iter: "0 < i" "i < 2 ^ 31"
    and sp: "ossl_pbkdf2 ossl (sc_password sc) salt (nat i) = Some salted"
    and first: "server_first = ''r='' @ (sc_client_nonce sc @ server_part) @ '',s='' @
          base64_encode ossl salt @ '',i='' @ to_string i"
    and without: "final_without = ''c=biws,r='' @ sc_client_nonce sc @ server_part"
    and auth: "auth = rfc_auth_message (sc_client_first_bare sc) server_first final_without"
    and stored: "stored_key = ossl_sha256 ossl (ossl_hmac ossl salted ''Client Key'')"
  shows "generate_client_final_message ossl server_first sc =
      (final_without @ '',p='' @ base64_encode ossl
         (xor_bytes (ossl_hmac ossl salted ''Client Key'') (ossl_hmac ossl stored_key auth)),
       sc\<lparr>sc_salted_password_cache := salted, sc_auth_message := auth\<rparr>)"
    and "rfc_server_accepts ossl stored_key auth
         (xor_bytes (ossl_hmac ossl salted ''Client Key'') (ossl_hmac ossl stored_key auth))"
proof -
  have "base64_encode ossl salt \<noteq> []" and "CHR '','' \<notin> set (base64_encode ossl salt)"
    using openssl_okD(4,5) [OF ok] salt by (simp_all add: base64_encode_def)
  then have attrs: "scram_attributes (split_on (CHR '','') server_first) ([], [], -1) =
      Some (sc_client_nonce sc @ server_part, base64_encode ossl salt, i)"
    unfolding first using nonce iter by (intro scram_attributes_server_first)
  show "generate_client_final_message ossl server_first sc =
      (final_without @ '',p='' @ base64_encode ossl
         (xor_bytes (ossl_hmac ossl salted ''Client Key'') (ossl_hmac ossl stored_key auth)),
       sc\<lparr>sc_salted_password_cache := salted, sc_auth_message := auth\<rparr>)"
    using nonce(2) iter salt \<open>base64_encode ossl salt \<noteq> []\<close>
    by (simp add: generate_client_final_message_def attrs base64_decode_encode [OF ok] sp
        Let_def without auth rfc_auth_message_def stored)
  show "rfc_server_accepts ossl stored_key auth
         (xor_bytes (ossl_hmac ossl salted ''Client Key'') (ossl_hmac ossl stored_key auth))"
    using openssl_okD(1) [OF ok]
    by (simp add: rfc_server_accepts_def xor_bytes_cancel stored)
qed

lemma verify_server_signature_iff:
  assumes ok: "openssl_ok ossl"
  shows "verify_server_signature ossl msg sc \<longleftrightarrow>
     length (sc_salted_password_cache sc) = 32 \<and> sc_auth_message sc \<noteq> [] \<and>
     (\<exists>sig. msg = ''v='' @ sig \<and> base64_decode ossl sig =
        rfc_server_signature ossl (sc_salted_password_cache sc) (sc_auth_message sc))"
proof -
  have msg: "(\<exists>sig. msg = ''v='' @ sig \<and> P sig) \<longleftrightarrow>
      \<not> (length msg < 2 \<or> msg ! 0 \<noteq> CHR ''v'' \<or> msg ! 1 \<noteq> CHR ''='') \<and> P (drop 2 msg)" for P
    by (cases msg; cases "tl msg") auto
  show ?thesis
    unfolding msg verify_server_signature_def rfc_server_signature_def Let_def
    using openssl_okD(1) [OF ok] by auto
qed

lemma verify_rfc_signature:
  assumes "openssl_ok ossl" and "length (sc_salted_password_cache sc) = 32" and "sc_auth_message sc \<noteq> []"
  shows "verify_server_signature ossl (''v='' @ base64_encode ossl
      (rfc_server_signature ossl (sc_salted_password_cache sc) (sc_auth_message sc))) sc"
  using assms by (simp add: verify_server_signature_iff base64_decode_encode)

subsection \<open>The concrete OpenSSL keeps the contract\<close>

lemma unhex_hex_digit: "unhex (hex_digit n) = n mod 16"
proof -
  have "\<forall>m \<in> set [0..<16]. unhex (''0123456789abcdef'' ! m) = m" by code_simp
  then show ?thesis by (simp add: hex_digit_def)
qed

lemma hex_digit_alphabet: "hex_digit n \<noteq> CHR ''='' \<and> hex_digit n \<noteq> CHR '',''"
proof -
  have "\<forall>m \<in> set [0..<16]. ''0123456789abcdef'' ! m \<noteq> CHR ''='' \<and> ''0123456789abcdef'' ! m \<noteq> CHR '',''"
    by code_simp
  then show ?thesis by (simp add: hex_digit_def)
qed

lemma hex_bytes_alphabet: "CHR ''='' \<notin> set (hex_bytes bs) \<and> CHR '','' \<notin> set (hex_bytes bs)"
  using hex_digit_alphabet by (auto simp: hex_bytes_def hex_byte_def) metis+

lemma unhex_hex_bytes: "unhex_bytes (hex_bytes bs) = bs"
proof (induction bs)
  case (Cons b bs)
  have b: "(of_char b :: nat) div 16 mod 16 * 16 + of_char b mod 16 = of_char b"
  proof -
    have "(of_char b :: nat) div 16 < 16" by (rule less_mult_imp_div_less) simp
    then show ?thesis by simp
  qed
  have "unhex_bytes (hex_byte b @ hex_bytes bs) =
      char_of (unhex (hex_digit (of_char b div 16)) * 16 + unhex (hex_digit (of_char b))) # unhex_bytes (hex_bytes bs)"
    by (simp add: hex_byte_def)
  also have "\<dots> = char_of (of_char b :: nat) # bs"
    by (simp only: unhex_hex_digit b Cons.IH)
  finally show ?case by (simp add: hex_bytes_def)
qed (simp add: hex_bytes_def)

lemma demo_openssl_ok: "openssl_ok demo_openssl"
proof -
  have strip: "takeWhile (\<lambda>c. c \<noteq> CHR ''='') (hex_bytes bs @ replicate n (CHR ''='')) = hex_bytes bs" for bs n
  proof -
    have "\<forall>c \<in> set (hex_bytes bs). c \<noteq> CHR ''=''" using hex_bytes_alphabet by metis
    then show ?thesis by (cases n) (auto simp: takeWhile_append2)
  qed
  have "bs \<noteq> [] \<Longrightarrow> hex_bytes bs \<noteq> []" for bs
    by (cases bs) (simp_all add: hex_bytes_def hex_byte_def)
  then show ?thesis
    using hex_bytes_alphabet
    by (auto simp: openssl_ok_def demo_openssl_def demo_digest_def strip unhex_hex_bytes Let_def)
qed

end
