(* ===== verification/Auth.thy ===== *)
theory Auth
  imports Parser Scram
begin

section \<open>The response object and authentication: src/auth/PostgresAuth.cc\<close>

text \<open>
  \<open>pg_response\<close> is the state of a \<open>PostgresResponse\<close> (include/PostgresResponse.h): the
  receive buffer and its cursor, the credentials, the owned \<open>PostgresAuth\<close> with its optional
  \<open>ScramAuth\<close>, the error, backend key, transaction state, parameters, notifications and
  notices. Two fields record what the object does to its environment: \<open>rs_sent\<close> is the list
  of the messages handed to \<open>feedback\<close> (sent to the server at once), \<open>rs_rng_calls\<close> the
  number of calls of \<open>RAND_bytes\<close>.

  \<open>process_auth_request\<close> answers the server's authentication requests. The moved-from
  containers of the move operations are empty, as in the standard library the code is built
  with.
\<close>

record pg_auth =
  au_scram :: "scram_auth option"

record pg_response =
  rs_buf :: bytes
  rs_cursor :: nat
  rs_user :: bytes
  rs_pass :: bytes
  rs_auth :: "pg_auth option"
  rs_is_error :: bool
  rs_is_startup :: bool
  rs_is_copy_in :: bool
  rs_is_copy_out :: bool
  rs_error :: pg_error
  rs_backend_pid :: i32
  rs_backend_secret_key :: i32
  rs_backend_secret_data :: bytes
  rs_transaction_state :: char
  rs_ready_for_query :: bool
  rs_parameters :: "bytes str_map"
  rs_notifications :: "pg_notification list"
  rs_notices :: "pg_error list"
  rs_notify_mode :: bool
  rs_negotiated_version :: u32
  rs_negotiated_options :: "bytes list"
  rs_internal_error :: int
  rs_sent :: "bytes list"
  rs_rng_calls :: nat

definition new_response :: pg_response where
  "new_response = \<lparr>rs_buf = [], rs_cursor = 0, rs_user = [], rs_pass = [], rs_auth = None,
     rs_is_error = False, rs_is_startup = False, rs_is_copy_in = False, rs_is_copy_out = False,
     rs_error = empty_error, rs_backend_pid = 0, rs_backend_secret_key = 0,
     rs_backend_secret_data = [], rs_transaction_state = CHR ''I'', rs_ready_for_query = False,
     rs_parameters = [], rs_notifications = [], rs_notices = [], rs_notify_mode = False,
     rs_negotiated_version = 0, rs_negotiated_options = [], rs_internal_error = 0,
     rs_sent = [], rs_rng_calls = 0\<rparr>"

subsection \<open>Setters and moves\<close>

definition new_auth :: pg_auth where
  "new_auth = \<lparr>au_scram = None\<rparr>"

definition response_set_auth :: "bytes \<Rightarrow> bytes \<Rightarrow> pg_response \<Rightarrow> pg_response" where
  "response_set_auth user pass r =
     r\<lparr>rs_user := user, rs_pass := pass,
       rs_auth := (case rs_auth r of None \<Rightarrow> Some new_auth | Some a \<Rightarrow> Some a)\<rparr>"

definition set_error_fatal :: "bytes \<Rightarrow> pg_response \<Rightarrow> pg_response" where
  "set_error_fatal message r =
     r\<lparr>rs_is_error := True,
       rs_error := (rs_error r)\<lparr>err_severity := ''FATAL'', err_message := message\<rparr>\<rparr>"

definition clear_buffer :: "pg_response \<Rightarrow> pg_response" where
  "clear_buffer r =
     r\<lparr>rs_buf := [], rs_cursor := 0, rs_is_error := False, rs_is_copy_in := False,
       rs_is_copy_out := False, rs_ready_for_query := False, rs_error := empty_error,
       rs_negotiated_version := 0, rs_negotiated_options := [], rs_internal_error := 0,
       rs_notices := [], rs_notifications := [], rs_parameters := []\<rparr>"

definition feedback :: "bytes \<Rightarrow> pg_response \<Rightarrow> pg_response" where
  "feedback msg r = r\<lparr>rs_sent := rs_sent r @ [msg]\<rparr>"

definition response_set_is_startup :: "bool \<Rightarrow> pg_response \<Rightarrow> pg_response" where
  "response_set_is_startup v r = r\<lparr>rs_is_startup := v\<rparr>"

definition set_notify_mode :: "bool \<Rightarrow> pg_response \<Rightarrow> pg_response" where
  "set_notify_mode m r = r\<lparr>rs_notify_mode := m\<rparr>"

definition set_internal_error :: "int \<Rightarrow> pg_response \<Rightarrow> pg_response" where
  "set_internal_error error r = r\<lparr>rs_internal_error := error\<rparr>"

definition set_backend_pid :: "i32 \<Rightarrow> pg_response \<Rightarrow> pg_response" where
  "set_backend_pid pid r = r\<lparr>rs_backend_pid := pid\<rparr>"

definition set_backend_secret_key :: "i32 \<Rightarrow> pg_response \<Rightarrow> pg_response" where
  "set_backend_secret_key secret r = r\<lparr>rs_backend_secret_key := secret\<rparr>"

definition set_backend_secret_data :: "bytes \<Rightarrow> pg_response \<Rightarrow> pg_response" where
  "set_backend_secret_data data r = r\<lparr>rs_backend_secret_data := data\<rparr>"

lemmas response_setters [simp] =
  response_set_is_startup_def set_notify_mode_def set_internal_error_def set_backend_pid_def
  set_backend_secret_key_def set_backend_secret_data_def

definition is_startup_error :: "pg_response \<Rightarrow> bool" where
  "is_startup_error r \<longleftrightarrow> rs_is_error r \<and> rs_cursor r > 0"

text \<open>The new object and what is left of the moved one.\<close>

definition move_response :: "pg_response \<Rightarrow> pg_response \<times> pg_response" where
  "move_response r =
     (r, r\<lparr>rs_buf := [], rs_cursor := 0, rs_user := [], rs_pass := [], rs_auth := None,
           rs_is_error := False, rs_is_startup := False, rs_is_copy_in := False,
           rs_is_copy_out := False, rs_error := empty_error, rs_backend_pid := 0,
           rs_backend_secret_key := 0, rs_backend_secret_data := [],
           rs_transaction_state := CHR ''I'', rs_ready_for_query := False, rs_parameters := [],
           rs_notifications := [], rs_notices := [], rs_negotiated_options := [],
           rs_internal_error := 0\<rparr>)"

subsection \<open>Authentication requests\<close>

definition pg_md5_encrypt :: "openssl \<Rightarrow> bytes \<Rightarrow> bytes \<Rightarrow> bytes \<Rightarrow> bytes" where
  "pg_md5_encrypt ossl user pass salt =
     (let hex1 = hex_bytes (take 16 (ossl_md5 ossl (pass @ user)));
          hex2 = hex_bytes (take 16 (ossl_md5 ossl (take 32 hex1 @ salt)))
      in ''md5'' @ take 32 hex2)"

definition password_message :: "bytes \<Rightarrow> bytes" where
  "password_message auth_payload =
     write_uint32 ''p'' (word_of_nat (4 + length auth_payload)) @ auth_payload"

function sasl_offers_scram :: "bytes \<Rightarrow> bool \<Rightarrow> bool" where
  "sasl_offers_scram p supports =
     (if p = [] \<or> p ! 0 = NUL then supports
      else (case read_cstring p of
              None \<Rightarrow> supports
            | Some (mech, rest) \<Rightarrow>
                sasl_offers_scram rest (if mech = ''SCRAM-SHA-256'' then True else supports)))"
  by pat_completeness auto
termination
  by (relation "measure (\<lambda>(p, s). length p)") (auto dest: read_cstring_shorter)

declare sasl_offers_scram.simps [simp del]

definition set_scram :: "scram_auth \<Rightarrow> pg_response \<Rightarrow> pg_response" where
  "set_scram sc r = r\<lparr>rs_auth := Some \<lparr>au_scram = Some sc\<rparr>\<rparr>"

definition current_scram :: "pg_response \<Rightarrow> scram_auth option" where
  "current_scram r = (case rs_auth r of None \<Rightarrow> None | Some a \<Rightarrow> au_scram a)"

definition auth_sasl :: "openssl \<Rightarrow> bytes \<Rightarrow> pg_response \<Rightarrow> int \<times> pg_response" where
  "auth_sasl ossl p r =
     (if \<not> sasl_offers_scram p False then
        (-1, set_internal_error ERR_UNSUPPORTED_AUTH
               (set_error_fatal ''Server does not support SCRAM-SHA-256'' r))
      else let
          sc = scram_init (rs_user r) (rs_pass r)
                 (case current_scram r of None \<Rightarrow> new_scram | Some sc \<Rightarrow> sc);
          (bare, sc') = generate_client_first_message ossl (rs_rng_calls r) sc;
          r' = (set_scram sc' r)\<lparr>rs_rng_calls := rs_rng_calls r + 1\<rparr>
        in if bare = [] then
             (-1, set_error_fatal
                ''Failed to generate SCRAM client first message (RNG failure)'' r')
           else let full = ''n,,'' @ bare;
                    payload = write_uint32 (''SCRAM-SHA-256'' @ [NUL]) (word_of_nat (length full)) @ full
             in (0, feedback (password_message payload) r'))"

definition auth_sasl_continue :: "openssl \<Rightarrow> bytes \<Rightarrow> pg_response \<Rightarrow> int \<times> pg_response" where
  "auth_sasl_continue ossl p r =
     (case current_scram r of
        None \<Rightarrow> (-1, set_error_fatal ''Unexpected SASLContinue without SCRAM state'' r)
      | Some sc \<Rightarrow>
          let (final, sc') = generate_client_final_message ossl p sc; r' = set_scram sc' r in
          if final = [] then
            (-1, set_error_fatal
               ''SCRAM client final message generation failed (invalid server nonce or PBKDF2 error)'' r')
          else (0, feedback (password_message final) r'))"

definition auth_sasl_final :: "openssl \<Rightarrow> bytes \<Rightarrow> pg_response \<Rightarrow> int \<times> pg_response" where
  "auth_sasl_final ossl p r =
     (case current_scram r of
        None \<Rightarrow> (-1, set_error_fatal ''Unexpected SASLFinal without SCRAM state'' r)
      | Some sc \<Rightarrow>
          if \<not> verify_server_signature ossl p sc
          then (-1, set_error_fatal ''SCRAM server signature verification failed'' r)
          else (0, r))"

definition process_auth_request :: "openssl \<Rightarrow> bytes \<Rightarrow> pg_response \<Rightarrow> int \<times> pg_response" where
  "process_auth_request ossl payload r =
     (if length payload < 4 then (-1, set_error_fatal ''Authentication frame too short'' r)
      else let auth_type = read_uint32 payload; p = drop 4 payload in
        if auth_type = 0 then (0, r)
        else if auth_type = 3 then
          (0, feedback (password_message (rs_pass r @ [NUL])) r)
        else if auth_type = 5 then
          (if length p < 4 then
             (-1, set_error_fatal ''AuthenticationMD5Password frame too short'' r)
           else (0, feedback (password_message
                   (pg_md5_encrypt ossl (rs_user r) (rs_pass r) (take 4 p) @ [NUL])) r))
        else if auth_type = 10 then auth_sasl ossl p r
        else if auth_type = 11 then auth_sasl_continue ossl p r
        else if auth_type = 12 then auth_sasl_final ossl p r
        else (-1, set_internal_error ERR_UNSUPPORTED_AUTH (set_error_fatal
                (''Unsupported authentication request type: '' @ to_string (uint auth_type)) r)))"

lemmas auth_defs [step_defs] =
  response_set_auth_def set_error_fatal_def clear_buffer_def feedback_def set_scram_def
  auth_sasl_def auth_sasl_continue_def auth_sasl_final_def process_auth_request_def

subsection \<open>What a request can do\<close>

lemma password_message_frame: "password_message p = encode_frame (CHR ''p'') p"
  by (simp only: password_message_def encode_frame_def write_uint_of_nat) simp

text \<open>A refused request leaves a fatal error; an accepted one leaves the error state alone.\<close>

lemma process_auth_request_result:
  assumes "process_auth_request ossl payload r = (ret, r')"
  shows "ret = 0 \<and> rs_is_error r' = rs_is_error r \<and> rs_error r' = rs_error r
           \<and> rs_internal_error r' = rs_internal_error r
       \<or> ret = -1 \<and> rs_is_error r' \<and> err_severity (rs_error r') = ''FATAL'' \<and> rs_sent r' = rs_sent r"
  using assms
  by (auto simp: auth_defs Let_def split: if_splits option.splits prod.splits)

text \<open>Authentication touches nothing but the error, the SCRAM state and the trace.\<close>

lemma process_auth_request_frame:
  assumes "process_auth_request ossl payload r = (ret, r')"
  shows "rs_buf r' = rs_buf r" and "rs_cursor r' = rs_cursor r" and "rs_user r' = rs_user r"
    and "rs_pass r' = rs_pass r" and "rs_is_startup r' = rs_is_startup r"
    and "rs_transaction_state r' = rs_transaction_state r"
    and "rs_ready_for_query r' = rs_ready_for_query r"
  using assms
  by (auto simp: auth_defs Let_def split: if_splits option.splits prod.splits)

lemma process_auth_request_buf:
  "process_auth_request ossl payload (r\<lparr>rs_buf := b\<rparr>) =
     map_prod id (\<lambda>r. r\<lparr>rs_buf := b\<rparr>) (process_auth_request ossl payload r)"
  by (simp add: auth_defs current_scram_def Let_def split: option.split prod.split)

end
