(* ===== verification/Response.thy ===== *)
theory Response
  imports Auth
begin

section \<open>Receiving a response: src/protocol/PostgresResponse.cc\<close>

text \<open>
  \<open>response_append\<close> is \<open>PostgresResponse::append\<close>: it adds the received bytes to the
  buffer, runs the event loop over the complete frames, and reports whether the response is
  finished and how many of the given bytes it used. The two chains of \<open>if\<close>s in the loop
  body test disjoint event types, so the body is one case distinction. The result is \<open>None\<close>
  when the loop does not return or the code's behaviour is undefined: a frame with length
  field 0xFFFFFFFF neither moves the cursor nor has a payload inside the buffer.

  \<open>get_copy_data\<close> and \<open>is_copy_done\<close> scan the whole buffer again. All three loops are
  interpretations of \<open>frame_loop\<close>.
\<close>

subsection \<open>append\<close>

definition with_data :: "bytes \<Rightarrow> pg_event \<Rightarrow> (bytes \<Rightarrow> ('s, 'r) loop_step) \<Rightarrow> ('s, 'r) loop_step" where
  "with_data buf ev f = (case event_data buf ev of None \<Rightarrow> Undefined | Some d \<Rightarrow> f d)"

definition append_event ::
  "openssl \<Rightarrow> bytes \<Rightarrow> pg_event \<Rightarrow> pg_response \<Rightarrow> (pg_response, pg_response \<times> bool) loop_step" where
  "append_event ossl buf ev r =
     (case ev_type ev of
        PG_EVENT_ERROR \<Rightarrow> with_data buf ev (\<lambda>d.
          let r' = r\<lparr>rs_is_error := True, rs_error := parse_error_response d (rs_error r)\<rparr>
          in if rs_is_startup r' then Break (r', True) else Continue r')
      | PG_EVENT_PARAMETER_STATUS \<Rightarrow> with_data buf ev (\<lambda>d.
          Continue (r\<lparr>rs_parameters := parse_parameter_status d (rs_parameters r)\<rparr>))
      | PG_EVENT_NEGOTIATE_PROTOCOL \<Rightarrow> with_data buf ev (\<lambda>d.
          let (v, opts) = parse_negotiation_response d
                (rs_negotiated_version r, rs_negotiated_options r)
          in Continue (r\<lparr>rs_negotiated_version := v, rs_negotiated_options := opts\<rparr>))
      | PG_EVENT_BACKEND_KEY \<Rightarrow> with_data buf ev (\<lambda>d.
          let (pid, key, secret) = parse_backend_key_data d
                (rs_backend_pid r, rs_backend_secret_key r, rs_backend_secret_data r)
          in Continue (r\<lparr>rs_backend_pid := pid, rs_backend_secret_key := key,
                         rs_backend_secret_data := secret\<rparr>))
      | PG_EVENT_NOTIFICATION \<Rightarrow> with_data buf ev (\<lambda>d.
          let r' = r\<lparr>rs_notifications := parse_notification d (rs_notifications r)\<rparr>
          in if rs_notify_mode r' then Break (r', True) else Continue r')
      | PG_EVENT_NOTICE \<Rightarrow> with_data buf ev (\<lambda>d.
          Continue (r\<lparr>rs_notices := rs_notices r @ [parse_error_response d empty_error]\<rparr>))
      | PG_EVENT_AUTH \<Rightarrow> with_data buf ev (\<lambda>d.
          let r0 = (case rs_auth r of None \<Rightarrow> r\<lparr>rs_auth := Some new_auth\<rparr> | Some _ \<Rightarrow> r);
              (ret, r') = process_auth_request ossl d r0
          in if ret < 0 then Break (r', True) else Continue r')
      | PG_EVENT_READY \<Rightarrow>
          let st = (if ev_payload_size ev = 1
                    then (case event_data buf ev of
                            None \<Rightarrow> rs_transaction_state r
                          | Some d \<Rightarrow> parse_ready_for_query d (rs_transaction_state r))
                    else rs_transaction_state r)
          in Break (r\<lparr>rs_transaction_state := st,
                      rs_ready_for_query := (ev_payload_size ev = 1 \<and>
                        (st = CHR ''I'' \<or> st = CHR ''T'' \<or> st = CHR ''E''))\<rparr>, True)
      | PG_EVENT_COPY_IN \<Rightarrow> Break (r\<lparr>rs_is_copy_in := True\<rparr>, True)
      | PG_EVENT_COPY_OUT \<Rightarrow> Continue (r\<lparr>rs_is_copy_out := True\<rparr>)
      | _ \<Rightarrow> Continue r)"

definition append_body ::
  "openssl \<Rightarrow> bytes \<Rightarrow> pg_frame \<Rightarrow> nat \<Rightarrow> pg_response \<Rightarrow>
   (pg_response, pg_response \<times> bool) loop_step" where
  "append_body ossl buf fr c r =
     (let r = r\<lparr>rs_cursor := c\<rparr> in
      case fr_payload fr of
        None \<Rightarrow> Break (r\<lparr>rs_is_error := True,
                   rs_error := (rs_error r)\<lparr>err_severity := ''FATAL'',
                                 err_message := ''Invalid frame length < 4''\<rparr>\<rparr>, True)
      | Some _ \<Rightarrow> append_event ossl buf (parse_backend_event fr) r)"

partial_function (option) append_loop ::
  "openssl \<Rightarrow> bytes \<Rightarrow> nat \<Rightarrow> pg_response \<Rightarrow> (pg_response \<times> bool) option" where
  "append_loop ossl buf c r =
     (case next_frame False buf c of
        None \<Rightarrow> Some (r, False)
      | Some (fr, c') \<Rightarrow>
          (case append_body ossl buf fr c' r of
             Continue r' \<Rightarrow> append_loop ossl buf c' r'
           | Break x \<Rightarrow> Some x
           | Undefined \<Rightarrow> None))"

definition response_append ::
  "openssl \<Rightarrow> pg_response \<Rightarrow> bytes \<Rightarrow> (int \<times> u64 \<times> pg_response) option" where
  "response_append ossl r data =
     (let len = length data; buf = rs_buf r @ data in
      case append_loop ossl buf (rs_cursor r) (r\<lparr>rs_buf := buf\<rparr>) of
        None \<Rightarrow> None
      | Some (r', finished) \<Rightarrow>
          if finished then
            let over_read = length (rs_buf r') - rs_cursor r' in
            Some (1, of_nat len - of_nat over_read,
                  r'\<lparr>rs_buf := (if length (rs_buf r') > rs_cursor r'
                               then take (rs_cursor r') (rs_buf r') else rs_buf r')\<rparr>)
          else Some (0, of_nat len, r'))"

subsection \<open>COPY OUT data and notices\<close>

definition copy_data_body ::
  "bytes \<Rightarrow> pg_frame \<Rightarrow> nat \<Rightarrow> bytes list \<Rightarrow> (bytes list, bytes list) loop_step" where
  "copy_data_body buf fr c row =
     (case fr_payload fr of
        None \<Rightarrow> Break row
      | Some _ \<Rightarrow>
          let ev = parse_backend_event fr in
          if ev_type ev = PG_EVENT_COPY_DATA then with_data buf ev (\<lambda>d. Continue (row @ [d]))
          else if ev_type ev = PG_EVENT_COPY_DONE \<or> ev_type ev = PG_EVENT_COMMAND_COMPLETE
                  \<or> ev_type ev = PG_EVENT_READY then Break row
          else Continue row)"

partial_function (option) copy_data_loop ::
  "bytes \<Rightarrow> nat \<Rightarrow> bytes list \<Rightarrow> bytes list option" where
  "copy_data_loop buf c row =
     (case next_frame False buf c of
        None \<Rightarrow> Some row
      | Some (fr, c') \<Rightarrow>
          (case copy_data_body buf fr c' row of
             Continue row' \<Rightarrow> copy_data_loop buf c' row'
           | Break x \<Rightarrow> Some x
           | Undefined \<Rightarrow> None))"

definition get_copy_data :: "pg_response \<Rightarrow> bytes list option" where
  "get_copy_data r = (if \<not> rs_is_copy_out r then Some [] else copy_data_loop (rs_buf r) 0 [])"

definition copy_done_body ::
  "bytes \<Rightarrow> pg_frame \<Rightarrow> nat \<Rightarrow> unit \<Rightarrow> (unit, bool) loop_step" where
  "copy_done_body buf fr c s =
     (case fr_payload fr of
        None \<Rightarrow> Break False
      | Some _ \<Rightarrow>
          let ev = parse_backend_event fr in
          if ev_type ev = PG_EVENT_COPY_DONE \<or> ev_type ev = PG_EVENT_READY then Break True
          else Continue ())"

partial_function (option) copy_done_loop :: "bytes \<Rightarrow> nat \<Rightarrow> unit \<Rightarrow> bool option" where
  "copy_done_loop buf c s =
     (case next_frame False buf c of
        None \<Rightarrow> Some False
      | Some (fr, c') \<Rightarrow>
          (case copy_done_body buf fr c' s of
             Continue s' \<Rightarrow> copy_done_loop buf c' s'
           | Break x \<Rightarrow> Some x
           | Undefined \<Rightarrow> None))"

definition is_copy_done :: "pg_response \<Rightarrow> bool option" where
  "is_copy_done r = (if \<not> rs_is_copy_out r then Some False else copy_done_loop (rs_buf r) 0 ())"

fun get_warning_count :: "pg_error list \<Rightarrow> int" where
  "get_warning_count [] = 0"
| "get_warning_count (notice # ns) =
     (if err_severity notice = ''WARNING'' then 1 else 0) + get_warning_count ns"

text \<open>The answer to an SSLRequest is one byte; the rest of the input is left to the framework.\<close>

definition ssl_response_append :: "char \<Rightarrow> bytes \<Rightarrow> int \<times> nat \<times> char" where
  "ssl_response_append byte data =
     (if length data > 0 then (1, 1, data ! 0) else (0, 0, byte))"

text \<open>The loop equations are the code equations, so the definitions can be run.\<close>

declare append_loop.simps [code] copy_data_loop.simps [code] copy_done_loop.simps [code]

subsection \<open>The loops are frame loops\<close>

interpretation append_fl: frame_loop "append_body ossl" "\<lambda>c r. (r, False)" "append_loop ossl"
  for ossl
  by unfold_locales (subst append_loop.simps, rule refl)

interpretation copy_data_fl: frame_loop copy_data_body "\<lambda>c row. row" copy_data_loop
  by unfold_locales (subst copy_data_loop.simps, rule refl)

interpretation copy_done_fl: frame_loop copy_done_body "\<lambda>c s. False" copy_done_loop
  by unfold_locales (subst copy_done_loop.simps, rule refl)


subsection \<open>Frames of a buffer have their data\<close>

definition frame_ok :: "bytes \<Rightarrow> pg_frame \<Rightarrow> bool" where
  "frame_ok buf fr \<longleftrightarrow> fr_payload fr \<noteq> None \<longrightarrow> event_data buf (parse_backend_event fr) \<noteq> None"

lemma frames_ok:
  assumes "no_wrap buf c" and "x \<in> set (frames_from buf c)"
  shows "frame_ok buf (fst x)"
proof -
  obtain fr c' where x: "x = (fr, c')" by force
  then obtain c0 where "next_frame False buf c0 = Some (fr, c')"
    using frames_in_range assms by blast
  moreover have "fr_frame_size fr \<noteq> 0" using assms x by (auto simp: no_wrap_def)
  ultimately show ?thesis using next_frame_view(1) by (auto simp: frame_ok_def event_data_view x)
qed

lemma event_data_append:
  "event_data buf ev = Some d \<Longrightarrow> event_data (buf @ extra) ev = Some d"
  by (auto simp: event_data_def split: option.splits if_splits)

subsection \<open>The body of append\<close>

lemma with_data_Some: "event_data buf ev = Some d \<Longrightarrow> with_data buf ev f = f d"
  by (simp add: with_data_def)

lemma append_event_step:
  assumes "event_data buf ev = Some d"
  shows "append_event ossl buf ev r \<noteq> Undefined"
    and "append_event ossl buf ev r = Continue r' \<Longrightarrow> rs_buf r' = rs_buf r \<and> rs_cursor r' = rs_cursor r"
    and "append_event ossl buf ev r = Break (r', f) \<Longrightarrow>
           f \<and> rs_buf r' = rs_buf r \<and> rs_cursor r' = rs_cursor r"
  using assms
  by (auto simp: append_event_def with_data_Some Let_def
      dest: process_auth_request_frame(1,2)
      split: pg_event_type.splits prod.splits if_splits option.splits)

lemma append_body_step:
  assumes "frame_ok buf fr"
  shows "append_body ossl buf fr c r \<noteq> Undefined"
    and "append_body ossl buf fr c r = Continue r' \<Longrightarrow> rs_buf r' = rs_buf r \<and> rs_cursor r' = c"
    and "append_body ossl buf fr c r = Break z \<Longrightarrow>
           snd z \<and> rs_buf (fst z) = rs_buf r \<and> rs_cursor (fst z) = c"
proof -
  consider "fr_payload fr = None"
    | off d where "fr_payload fr = Some off" "event_data buf (parse_backend_event fr) = Some d"
    using assms by (auto simp: frame_ok_def)
  note cs = this
  show "append_body ossl buf fr c r \<noteq> Undefined"
    by (rule cs) (auto simp: append_body_def Let_def append_event_step(1))
  show "append_body ossl buf fr c r = Continue r' \<Longrightarrow> rs_buf r' = rs_buf r \<and> rs_cursor r' = c"
    by (rule cs) (auto simp: append_body_def Let_def dest: append_event_step(2))
  show "append_body ossl buf fr c r = Break z \<Longrightarrow>
      snd z \<and> rs_buf (fst z) = rs_buf r \<and> rs_cursor (fst z) = c"
    by (cases z, rule cs) (auto simp: append_body_def Let_def dest: append_event_step(3))
qed

lemma exec_append_Continue:
  assumes "\<forall>x \<in> set xs. frame_ok buf (fst x)"
    and "exec_frames (append_body ossl) buf r xs = Continue r'"
  shows "rs_buf r' = rs_buf r \<and> rs_cursor r' = (case xs of [] \<Rightarrow> rs_cursor r | _ \<Rightarrow> snd (last xs))"
  using assms
proof (induction xs arbitrary: r)
  case (Cons x xs)
  obtain fr c where x: "x = (fr, c)" by force
  with Cons.prems obtain r1 where r1: "append_body ossl buf fr c r = Continue r1"
    and rest: "exec_frames (append_body ossl) buf r1 xs = Continue r'"
    by (auto split: loop_step.splits)
  have "rs_buf r1 = rs_buf r \<and> rs_cursor r1 = c"
    using append_body_step(2) [OF _ r1] Cons.prems(1) x by simp
  moreover have "rs_buf r' = rs_buf r1 \<and>
      rs_cursor r' = (case xs of [] \<Rightarrow> rs_cursor r1 | _ \<Rightarrow> snd (last xs))"
    using Cons.IH [OF _ rest] Cons.prems(1) by simp
  ultimately show ?case by (auto simp: x split: list.splits)
qed simp

lemma exec_append_Break:
  assumes "\<forall>x \<in> set xs. frame_ok buf (fst x)"
    and "exec_frames (append_body ossl) buf r xs = Break z"
  shows "snd z \<and> rs_buf (fst z) = rs_buf r \<and> rs_cursor (fst z) \<in> snd ` set xs"
  using assms
proof (induction xs arbitrary: r)
  case (Cons x xs)
  obtain fr c where x: "x = (fr, c)" by force
  have ok: "frame_ok buf fr" using Cons.prems(1) x by simp
  show ?case
  proof (cases "append_body ossl buf fr c r")
    case (Continue r1)
    then have "rs_buf r1 = rs_buf r" using append_body_step(2) [OF ok] by simp
    with Continue Cons.IH [of r1] Cons.prems show ?thesis by (auto simp: x)
  next
    case (Break z')
    with Cons.prems(2) have "z' = z" by (simp add: x)
    with append_body_step(3) [OF ok Break] show ?thesis by (simp add: x)
  qed (use Cons.prems in \<open>simp add: x\<close>)
qed simp

subsection \<open>append returns, and what it returns\<close>

lemma append_loop_exec:
  assumes "no_wrap buf c"
  shows "append_loop ossl buf c r =
    loop_result (\<lambda>c r. (r, False)) (frames_end buf c)
      (exec_frames (append_body ossl) buf r (frames_from buf c))"
  by (rule append_fl.loop_exec [OF assms])

lemma append_loop_returns:
  assumes "no_wrap buf c"
  shows "\<exists>x. append_loop ossl buf c r = Some x"
proof (rule append_fl.loop_returns [OF assms])
  show "append_body ossl buf fr c' s \<noteq> Undefined" if "(fr, c') \<in> set (frames_from buf c)" for fr c' s
    using frames_ok [OF assms that] by (simp add: append_body_step(1))
qed

lemma response_append_returns:
  assumes "no_wrap (rs_buf r @ data) (rs_cursor r)"
  shows "\<exists>x. response_append ossl r data = Some x"
proof -
  obtain r' f where "append_loop ossl (rs_buf r @ data) (rs_cursor r) (r\<lparr>rs_buf := rs_buf r @ data\<rparr>) = Some (r', f)"
    using append_loop_returns [OF assms] by fastforce
  then show ?thesis by (simp add: response_append_def Let_def)
qed


text \<open>A frame that does not move the cursor and does not end the loop: append does not return.\<close>

lemma append_body_wrapped:
  assumes "next_frame False buf c = Some (fr, c')" and "fr_frame_size fr = 0"
    and "length buf < c + 2 ^ 32" and "event_type (fr_type fr) \<noteq> PG_EVENT_READY" and "event_type (fr_type fr) \<noteq> PG_EVENT_COPY_IN"
  shows "\<exists>r'. append_body ossl buf fr c' r \<in> {Continue r', Undefined}" and "c' = c"
proof -
  have "c + 5 \<le> length buf" using next_frame_progress(2) [OF assms(1)] .
  then have "event_data buf (parse_backend_event fr) = None"
    using assms(1-3)
    by (auto elim!: next_frame_cases simp: event_data_view payload_view_def)
  then show "\<exists>r'. append_body ossl buf fr c' r \<in> {Continue r', Undefined}"
    using assms
    by (auto elim!: next_frame_cases simp: append_body_def append_event_def with_data_def Let_def
        split: pg_event_type.splits)
  show "c' = c" using assms(1,2) by (auto elim!: next_frame_cases)
qed

lemma append_loop_stuck:
  assumes "next_frame False buf c = Some (fr, c')" and "fr_frame_size fr = 0"
    and "length buf < c + 2 ^ 32" and "event_type (fr_type fr) \<noteq> PG_EVENT_READY" and "event_type (fr_type fr) \<noteq> PG_EVENT_COPY_IN"
  shows "append_loop ossl buf c r = None"
proof (rule ccontr)
  assume "append_loop ossl buf c r \<noteq> None"
  then obtain x where ret: "append_loop ossl buf c r = Some x" by blast
  have "\<not> (buf = buf \<and> c = c)"
  proof (rule append_loop.raw_induct [where P = "\<lambda>o' b c0 r x. \<not> (b = buf \<and> c0 = c)", OF _ ret])
    fix loop o' b c0 r x
    assume IH: "\<And>o' b c0 r x. loop o' b c0 r = Some x \<Longrightarrow> \<not> (b = buf \<and> c0 = c)"
      and eq: "(case next_frame False b c0 of
          None \<Rightarrow> Some (r, False)
        | Some (fr, c') \<Rightarrow>
            (case append_body o' b fr c' r of
               Continue r' \<Rightarrow> loop o' b c' r'
             | Break x \<Rightarrow> Some x
             | Undefined \<Rightarrow> None)) = Some x"
    show "\<not> (b = buf \<and> c0 = c)"
    proof
      assume here: "b = buf \<and> c0 = c"
      with eq assms(1) append_body_wrapped(1) [OF assms, of o' r] append_body_wrapped(2) [OF assms]
      obtain r1 where "loop o' b c0 r1 = Some x" by auto
      then have "\<not> (b = buf \<and> c0 = c)" by (rule IH)
      with here show False by simp
    qed
  qed
  then show False by simp
qed

text \<open>A loop that ended because no complete frame was left has seen no such frame.\<close>

lemma append_loop_unfinished:
  assumes "append_loop ossl buf c r = Some (r', False)"
  shows "no_wrap buf c"
proof -
  have "snd (r', False) \<or> no_wrap buf c"
  proof (rule append_loop.raw_induct [where P = "\<lambda>o' b c0 r x. snd x \<or> no_wrap b c0", OF _ assms])
    fix loop o' b c0 r x
    assume IH: "\<And>o' b c0 r x. loop o' b c0 r = Some x \<Longrightarrow> snd x \<or> no_wrap b c0"
      and eq: "(case next_frame False b c0 of
          None \<Rightarrow> Some (r, False)
        | Some (fr, c') \<Rightarrow>
            (case append_body o' b fr c' r of
               Continue r' \<Rightarrow> loop o' b c' r'
             | Break x \<Rightarrow> Some x
             | Undefined \<Rightarrow> None)) = Some x"
    show "snd x \<or> no_wrap b c0"
    proof (cases "next_frame False b c0")
      case None
      then show ?thesis by (simp add: no_wrap_def frames_from_None)
    next
      case (Some z)
      obtain fr c' where z: "z = (fr, c')" by force
      show ?thesis
      proof (cases "append_body o' b fr c' r")
        case (Continue r1)
        with eq Some z have "snd x \<or> no_wrap b c'" using IH by simp
        then show ?thesis
        proof (cases "fr_frame_size fr = 0")
          case True
          then have "c' = c0" using Some z by (auto elim!: next_frame_cases)
          with \<open>snd x \<or> no_wrap b c'\<close> show ?thesis by simp
        next
          case False
          then have "frames_from b c0 = (fr, c') # frames_from b c'"
            using Some z by (simp add: frames_from_Some)
          with False \<open>snd x \<or> no_wrap b c'\<close> show ?thesis by (simp add: no_wrap_def)
        qed
      next
        case (Break y)
        then have "snd y"
          by (auto simp: append_body_def append_event_def with_data_def Let_def
              split: option.splits pg_event_type.splits if_splits prod.splits)
        with Break eq Some z show ?thesis by simp
      next
        case Undefined
        with eq Some z show ?thesis by simp
      qed
    qed
  qed
  then show ?thesis by simp
qed


subsection \<open>The idle invariant: bytes used and bytes kept\<close>

text \<open>
  Between two calls of \<open>append\<close> the buffer holds the frames read so far and an incomplete
  rest. The frame that ends a response then lies in the new bytes, so \<open>len - over_read\<close> does
  not wrap and the buffer is exactly what was there plus the bytes reported as used.
\<close>

definition response_idle :: "pg_response \<Rightarrow> bool" where
  "response_idle r \<longleftrightarrow>
     rs_cursor r \<le> length (rs_buf r) \<and> next_frame False (rs_buf r) (rs_cursor r) = None"

lemma idle_new_response: "response_idle new_response"
  by (simp add: response_idle_def new_response_def next_frame_def)

lemma idle_clear_buffer: "response_idle (clear_buffer r)"
  by (simp add: response_idle_def clear_buffer_def next_frame_def)

lemma frames_past_idle:
  assumes "next_frame False buf c = None" and "no_wrap (buf @ extra) c"
    and "(fr, c') \<in> set (frames_from (buf @ extra) c)"
  shows "length buf < c' \<and> c' \<le> length (buf @ extra)"
proof -
  obtain c0 where c0: "c \<le> c0" "next_frame False (buf @ extra) c0 = Some (fr, c')"
    using frames_in_range [OF assms(3,2)] by blast
  have nz: "fr_frame_size fr \<noteq> 0" using assms(2,3) by (auto simp: no_wrap_def)
  obtain fr1 c1 where f1: "next_frame False (buf @ extra) c = Some (fr1, c1)"
    using assms(3) by (cases "next_frame False (buf @ extra) c") (auto simp: frames_from_None)
  have step: "fr_frame_size fr1 \<noteq> 0" "frames_from (buf @ extra) c = (fr1, c1) # frames_from (buf @ extra) c1"
    using no_wrap_step [OF assms(2) f1] by simp_all
  have "length buf < c1"
  proof (rule ccontr)
    assume "\<not> length buf < c1"
    then have "c1 \<le> length buf" by simp
    with f1 have "next_frame False buf c = Some (fr1, c1)"
      using step(1) by (rule next_frame_restrict)
    with assms(1) show False by simp
  qed
  moreover have "c1 \<le> c'"
  proof (cases "(fr, c') = (fr1, c1)")
    case False
    then have "(fr, c') \<in> set (frames_from (buf @ extra) c1)" using assms(3) step(2) by auto
    then obtain c2 where "c1 \<le> c2" "next_frame False (buf @ extra) c2 = Some (fr, c')"
      using frames_in_range no_wrap_step(2) [OF assms(2) f1] by blast
    then show ?thesis using next_frame_progress(1) by fastforce
  qed simp
  ultimately show ?thesis using next_frame_progress(3) [OF c0(2)] nz by simp
qed

lemma response_append_cases:
  assumes nw: "no_wrap (rs_buf r @ data) (rs_cursor r)" and idle: "response_idle r"
    and ret: "response_append ossl r data = Some (ret, n, r')"
  obtains (unfinished) "ret = 0" "n = of_nat (length data)" "rs_buf r' = rs_buf r @ data"
      "rs_cursor r' = frames_end (rs_buf r @ data) (rs_cursor r)"
  | (finished) k where "ret = 1" "k \<le> length data" "n = of_nat k"
      "rs_buf r' = rs_buf r @ take k data" "rs_cursor r' = length (rs_buf r')"
proof -
  let ?buf = "rs_buf r @ data" and ?c = "rs_cursor r"
  let ?r = "r\<lparr>rs_buf := ?buf\<rparr>"
  let ?xs = "frames_from ?buf ?c"
  have ok: "\<forall>x \<in> set ?xs. frame_ok ?buf (fst x)" using frames_ok [OF nw] by blast
  have loop: "append_loop ossl ?buf ?c ?r = loop_result (\<lambda>c r. (r, False)) (frames_end ?buf ?c)
      (exec_frames (append_body ossl) ?buf ?r ?xs)"
    by (rule append_loop_exec [OF nw])
  show ?thesis
  proof (cases "exec_frames (append_body ossl) ?buf ?r ?xs")
    case (Continue r1)
    from exec_append_Continue [OF ok Continue]
    have "rs_buf r1 = ?buf" "rs_cursor r1 = frames_end ?buf ?c"
      by (auto simp: frames_end_def split: list.splits)
    then show ?thesis
      using ret loop Continue by (intro unfinished) (auto simp: response_append_def Let_def)
  next
    case (Break z)
    from exec_append_Break [OF ok Break]
    have fin: "snd z" and buf: "rs_buf (fst z) = ?buf" and cur: "rs_cursor (fst z) \<in> snd ` set ?xs"
      by simp_all
    from cur obtain fr where mem: "(fr, rs_cursor (fst z)) \<in> set ?xs" by force
    from idle have "next_frame False (rs_buf r) ?c = None" by (simp add: response_idle_def)
    from frames_past_idle [OF this nw mem]
    have range: "length (rs_buf r) < rs_cursor (fst z)" "rs_cursor (fst z) \<le> length ?buf"
      by simp_all
    define k where "k = rs_cursor (fst z) - length (rs_buf r)"
    have k: "k \<le> length data" "rs_cursor (fst z) = length (rs_buf r) + k"
      using range by (simp_all add: k_def)
    then have "of_nat (length data) - of_nat (length ?buf - rs_cursor (fst z)) = (of_nat k :: u64)"
      by (simp flip: of_nat_diff)
    moreover have "take (rs_cursor (fst z)) ?buf = rs_buf r @ take k data" using k by simp
    ultimately show ?thesis
      using ret loop Break fin buf k
      by (intro finished [of k]) (auto simp: response_append_def Let_def case_prod_unfold)
  next
    case Undefined
    with ret loop show ?thesis by (simp add: response_append_def Let_def)
  qed
qed

lemma response_append_idle:
  assumes "no_wrap (rs_buf r @ data) (rs_cursor r)" and "response_idle r"
    and "response_append ossl r data = Some (ret, n, r')" and "length data < 2 ^ 64"
  shows "response_idle r' \<and> unat n \<le> length data \<and> rs_buf r' = rs_buf r @ take (unat n) data
     \<and> (ret = 0 \<longrightarrow> unat n = length data) \<and> (ret = 1 \<longrightarrow> rs_cursor r' = length (rs_buf r'))"
  using assms(1-3)
proof (cases rule: response_append_cases)
  case unfinished
  then show ?thesis
    using assms frames_end_bounds [OF assms(1)]
    by (auto simp: response_idle_def unat_of_nat take_bit_nat_eq_self)
next
  case (finished k)
  then have "unat n = k" using assms(4) by (simp add: unat_of_nat take_bit_nat_eq_self)
  with finished show ?thesis by (simp add: response_idle_def next_frame_def)
qed


subsection \<open>Receiving in chunks\<close>

text \<open>
  The framework calls \<open>append\<close> once per chunk the socket delivers. The law below says that how
  the stream is cut does not matter: when the first chunk leaves the response unfinished,
  appending the second chunk does what appending both at once does.
\<close>

definition with_buf :: "bytes \<Rightarrow> pg_response \<Rightarrow> pg_response" where
  "with_buf b r = r\<lparr>rs_buf := b\<rparr>"

lemma process_auth_request_buf_auth:
  "process_auth_request ossl d (r\<lparr>rs_buf := b, rs_auth := a\<rparr>) =
     map_prod id (\<lambda>r. r\<lparr>rs_buf := b\<rparr>) (process_auth_request ossl d (r\<lparr>rs_auth := a\<rparr>))"
proof -
  have "r\<lparr>rs_buf := b, rs_auth := a\<rparr> = r\<lparr>rs_auth := a, rs_buf := b\<rparr>" by simp
  then show ?thesis by (simp only: process_auth_request_buf)
qed

lemma append_event_with_buf:
  assumes "event_data buf ev = Some d"
  shows "append_event ossl (buf @ extra) ev (with_buf b r) =
    map_loop_step (with_buf b) (map_prod (with_buf b) id) (append_event ossl buf ev r)"
  using assms event_data_append [OF assms, of extra]
  by (cases "ev_type ev")
    (simp_all add: append_event_def with_data_Some with_buf_def Let_def process_auth_request_buf
      process_auth_request_buf_auth map_prod_def split: option.split prod.split)

lemma append_body_with_buf:
  assumes "frame_ok buf fr"
  shows "append_body ossl (buf @ extra) fr c (with_buf b r) =
    map_loop_step (with_buf b) (map_prod (with_buf b) id) (append_body ossl buf fr c r)"
proof (cases "fr_payload fr")
  case (Some off)
  with assms obtain d where d: "event_data buf (parse_backend_event fr) = Some d"
    by (auto simp: frame_ok_def)
  have "(with_buf b r)\<lparr>rs_cursor := c\<rparr> = with_buf b (r\<lparr>rs_cursor := c\<rparr>)"
    by (simp add: with_buf_def)
  with Some append_event_with_buf [OF d] show ?thesis by (simp add: append_body_def)
qed (simp add: append_body_def with_buf_def)

lemma response_append_unfinished:
  assumes "response_append ossl r a = Some (0, n, r1)"
  shows "no_wrap (rs_buf r @ a) (rs_cursor r)" and "n = of_nat (length a)"
    and "rs_buf r1 = rs_buf r @ a" and "rs_cursor r1 = frames_end (rs_buf r @ a) (rs_cursor r)"
    and "exec_frames (append_body ossl) (rs_buf r @ a) (with_buf (rs_buf r @ a) r)
           (frames_from (rs_buf r @ a) (rs_cursor r)) = Continue r1"
proof -
  let ?buf = "rs_buf r @ a"
  have loop: "append_loop ossl ?buf (rs_cursor r) (with_buf ?buf r) = Some (r1, False)"
    using assms by (auto simp: response_append_def Let_def with_buf_def split: option.splits if_splits)
  show n: "n = of_nat (length a)"
    using assms by (auto simp: response_append_def Let_def split: option.splits if_splits)
  show nw: "no_wrap ?buf (rs_cursor r)" by (rule append_loop_unfinished [OF loop])
  have ok: "\<forall>x \<in> set (frames_from ?buf (rs_cursor r)). frame_ok ?buf (fst x)"
    using frames_ok [OF nw] by blast
  let ?e = "exec_frames (append_body ossl) ?buf (with_buf ?buf r) (frames_from ?buf (rs_cursor r))"
  from loop append_loop_exec [OF nw, of ossl "with_buf ?buf r"]
  have res: "loop_result (\<lambda>c r. (r, False)) (frames_end ?buf (rs_cursor r)) ?e = Some (r1, False)"
    by simp
  have "?e \<noteq> Break (r1, False)" using exec_append_Break [OF ok, of ossl _ "(r1, False)"] by auto
  moreover have "st = Continue r1"
    if "loop_result (\<lambda>c r. (r, False)) k st = Some (r1, False)" "st \<noteq> Break (r1, False)" for k st
    using that by (cases st) simp_all
  ultimately show e: "?e = Continue r1" using res by blast
  from exec_append_Continue [OF ok e]
  show "rs_buf r1 = ?buf" and "rs_cursor r1 = frames_end ?buf (rs_cursor r)"
    by (auto simp: frames_end_def with_buf_def split: list.splits)
qed

lemma response_append_append:
  assumes "response_append ossl r a = Some (0, n, r1)"
  shows "response_append ossl r (a @ b) =
    map_option (\<lambda>(ret, n2, r2). (ret, n + n2, r2)) (response_append ossl r1 b)"
proof -
  note un = response_append_unfinished [OF assms]
  let ?buf = "rs_buf r @ a"
  have ok: "\<forall>x \<in> set (frames_from ?buf (rs_cursor r)). frame_ok ?buf (fst x)"
    using frames_ok [OF un(1)] by blast
  have "exec_frames (append_body ossl) (?buf @ b) (with_buf (?buf @ b) (with_buf ?buf r))
      (frames_from ?buf (rs_cursor r)) =
      map_loop_step (with_buf (?buf @ b)) (map_prod (with_buf (?buf @ b)) id) (Continue r1)"
    unfolding un(5) [symmetric]
    by (rule exec_frames_map) (use ok append_body_with_buf in fastforce)
  then have "append_loop ossl (?buf @ b) (rs_cursor r) (with_buf (?buf @ b) r) =
      append_loop ossl (?buf @ b) (rs_cursor r1) (with_buf (?buf @ b) r1)"
    using append_fl.loop_prefix [OF un(1)] by (simp add: un(4) with_buf_def)
  then show ?thesis
    by (simp add: response_append_def Let_def un(2,3) with_buf_def split: option.split)
qed


lemma response_append_finished:
  assumes nw: "no_wrap (rs_buf r @ a @ b) (rs_cursor r)" and c: "rs_cursor r \<le> length (rs_buf r)"
    and ret: "response_append ossl r a = Some (1, n, r1)"
  shows "response_append ossl r (a @ b) = Some (1, n, r1)"
proof -
  let ?buf = "rs_buf r @ a" and ?c = "rs_cursor r"
  let ?e = "exec_frames (append_body ossl) ?buf (with_buf ?buf r) (frames_from ?buf ?c)"
  have nwa: "no_wrap ?buf ?c" using no_wrap_append [of ?buf b ?c] nw by simp
  have ok: "\<forall>x \<in> set (frames_from ?buf ?c). frame_ok ?buf (fst x)" using frames_ok [OF nwa] by blast
  obtain z where z: "?e = Break z"
    using ret append_loop_exec [OF nwa, of ossl "with_buf ?buf r"]
    by (cases ?e) (auto simp: response_append_def Let_def with_buf_def)
  have fin: "snd z" "rs_buf (fst z) = ?buf" and mem: "rs_cursor (fst z) \<in> snd ` set (frames_from ?buf ?c)"
    using exec_append_Break [OF ok z] by (simp_all add: with_buf_def)
  from mem obtain fr where "(fr, rs_cursor (fst z)) \<in> set (frames_from ?buf ?c)" by force
  from frames_in_range [OF this nwa] obtain c0 where "next_frame False ?buf c0 = Some (fr, rs_cursor (fst z))"
    by blast
  then have le: "rs_cursor (fst z) \<le> length ?buf" by (rule next_frame_progress(3))
  have "exec_frames (append_body ossl) (?buf @ b) (with_buf (?buf @ b) (with_buf ?buf r))
      (frames_from ?buf ?c) =
      map_loop_step (with_buf (?buf @ b)) (map_prod (with_buf (?buf @ b)) id) (Break z)"
    unfolding z [symmetric]
    by (rule exec_frames_map) (use ok append_body_with_buf in fastforce)
  then have "exec_frames (append_body ossl) (?buf @ b) (with_buf (?buf @ b) r)
      (frames_from (?buf @ b) ?c) = Break (with_buf (?buf @ b) (fst z), True)"
    using fin(1) frames_from_append [OF nwa, of b]
    by (cases z) (simp add: exec_frames_append with_buf_def)
  then have "append_loop ossl (?buf @ b) ?c (with_buf (?buf @ b) r) =
      Some (with_buf (?buf @ b) (fst z), True)"
    using append_loop_exec [of "?buf @ b" ?c ossl "with_buf (?buf @ b) r"] nw by simp
  moreover have "append_loop ossl ?buf ?c (with_buf ?buf r) = Some z"
    using append_loop_exec [OF nwa] z by simp
  moreover have "of_nat (length (a @ b)) - of_nat (length (?buf @ b) - rs_cursor (fst z)) =
      (of_nat (length a) - of_nat (length ?buf - rs_cursor (fst z)) :: u64)"
    using le by (simp add: of_nat_diff)
  ultimately show ?thesis
    using ret fin le by (cases z; cases b) (auto simp: response_append_def Let_def with_buf_def)
qed

text \<open>A response fed chunk by chunk, as the framework does, until it is finished.\<close>

fun append_chunks ::
  "openssl \<Rightarrow> pg_response \<Rightarrow> u64 \<Rightarrow> bytes list \<Rightarrow> (int \<times> u64 \<times> pg_response) option" where
  "append_chunks ossl r n [] = Some (0, n, r)"
| "append_chunks ossl r n (c # cs) =
     (case response_append ossl r c of
        None \<Rightarrow> None
      | Some (ret, k, r') \<Rightarrow>
          if ret = 0 then append_chunks ossl r' (n + k) cs else Some (ret, n + k, r'))"

lemma response_append_ret:
  "response_append ossl r data = Some (ret, n, r') \<Longrightarrow> ret = 0 \<or> ret = 1"
  by (auto simp: response_append_def Let_def split: option.splits if_splits)

lemma response_append_Nil:
  "response_idle r \<Longrightarrow> response_append ossl r [] = Some (0, 0, r)"
  by (simp add: response_append_def Let_def response_idle_def append_fl.loop_None)

lemma idle_unfinished:
  assumes "response_append ossl r a = Some (0, n, r1)" and "rs_cursor r \<le> length (rs_buf r)"
  shows "response_idle r1"
  using response_append_unfinished(3,4) [OF assms(1)]
    frames_end_bounds [OF response_append_unfinished(1) [OF assms(1)]] assms(2)
  by (simp add: response_idle_def)

lemma append_chunks_concat:
  assumes "no_wrap (rs_buf r @ concat cs) (rs_cursor r)" and "response_idle r"
  shows "append_chunks ossl r n cs =
    map_option (\<lambda>(ret, k, r'). (ret, n + k, r')) (response_append ossl r (concat cs))"
  using assms
proof (induction cs arbitrary: r n)
  case Nil
  then show ?case by (simp add: response_append_Nil)
next
  case (Cons c cs)
  have c_le: "rs_cursor r \<le> length (rs_buf r)" using Cons.prems(2) by (simp add: response_idle_def)
  have nwc: "no_wrap (rs_buf r @ c) (rs_cursor r)"
    using no_wrap_append [of "rs_buf r @ c" "concat cs"] Cons.prems(1) by simp
  obtain ret k r1 where ap: "response_append ossl r c = Some (ret, k, r1)"
    using response_append_returns [OF nwc] by fastforce
  from response_append_ret [OF ap] show ?case
  proof
    assume "ret = 0"
    with ap have ap0: "response_append ossl r c = Some (0, k, r1)" by simp
    note un = response_append_unfinished [OF ap0]
    have "frames_from (rs_buf r @ c @ concat cs) (rs_cursor r) =
        frames_from (rs_buf r @ c) (rs_cursor r) @ frames_from (rs_buf r1 @ concat cs) (rs_cursor r1)"
      using frames_from_append [OF nwc, of "concat cs"] un(3,4) by simp
    then have "no_wrap (rs_buf r1 @ concat cs) (rs_cursor r1)"
      using Cons.prems(1) by (auto simp: no_wrap_def)
    with Cons.IH [OF _ idle_unfinished [OF ap0 c_le], of "n + k"] show ?thesis
      by (auto simp: ap0 response_append_append [OF ap0] option.map_comp o_def case_prod_unfold
          add.assoc)
  next
    assume "ret = 1"
    with ap response_append_finished [of r c "concat cs" ossl k r1] Cons.prems(1) c_le
    show ?thesis by simp
  qed
qed


subsection \<open>The effect of a message\<close>

text \<open>
  \<open>receive_msgs\<close> is the specification of \<open>append\<close> on the level of protocol messages: the
  effect of each message on the response (its buffer and cursor left alone) until one ends
  it, and the number of bytes read. \<open>response_append_receive\<close> shows that \<open>append\<close> on the
  encoded stream does that.
\<close>

definition msg_event :: "char \<Rightarrow> bytes \<Rightarrow> pg_event" where
  "msg_event t p = \<lparr>ev_type = event_type t, ev_payload = Some 0, ev_payload_size = length p\<rparr>"

fun receive_msgs :: "openssl \<Rightarrow> pg_response \<Rightarrow> message list \<Rightarrow> pg_response \<times> bool \<times> nat" where
  "receive_msgs ossl r [] = (r, False, 0)"
| "receive_msgs ossl r ((t, p) # ms) =
     (case append_event ossl p (msg_event t p) r of
        Continue r' \<Rightarrow>
          (case receive_msgs ossl r' ms of (r'', fin, k) \<Rightarrow> (r'', fin, 5 + length p + k))
      | Break (r', _) \<Rightarrow> (r', True, 5 + length p)
      | Undefined \<Rightarrow> (r, True, 0))"

definition at_pos :: "bytes \<Rightarrow> nat \<Rightarrow> pg_response \<Rightarrow> pg_response" where
  "at_pos b c r = r\<lparr>rs_buf := b, rs_cursor := c\<rparr>"

lemma msg_event_simps [simp]:
  "event_data p (msg_event t p) = Some p"
  "ev_type (msg_event t p) = event_type t"
  "ev_payload_size (msg_event t p) = length p"
  by (simp_all add: msg_event_def event_data_def)

lemma process_auth_request_pos:
  "process_auth_request ossl payload (at_pos b c r) =
     map_prod id (at_pos b c) (process_auth_request ossl payload r)"
  by (simp add: auth_defs current_scram_def Let_def at_pos_def split: option.split prod.split)

lemma append_event_pos:
  assumes "event_data buf ev = Some p" and "ev_type ev = event_type t"
    and "ev_payload_size ev = length p"
  shows "append_event ossl buf ev (at_pos b c r) =
    map_loop_step (at_pos b c) (map_prod (at_pos b c) id) (append_event ossl p (msg_event t p) r)"
proof (cases "event_type t = PG_EVENT_AUTH")
  case True
  have "(case rs_auth (at_pos b c r) of None \<Rightarrow> (at_pos b c r)\<lparr>rs_auth := Some new_auth\<rparr>
      | Some _ \<Rightarrow> at_pos b c r) =
      at_pos b c (case rs_auth r of None \<Rightarrow> r\<lparr>rs_auth := Some new_auth\<rparr> | Some _ \<Rightarrow> r)"
    by (simp add: at_pos_def split: option.split)
  then show ?thesis
    using assms True
    by (simp add: append_event_def with_data_Some process_auth_request_pos split: prod.split)
next
  case False
  then show ?thesis
    using assms
    by (cases "event_type t")
      (simp_all add: append_event_def with_data_Some at_pos_def Let_def split: option.split prod.split)
qed

lemma exec_placed_receive:
  assumes "buf = pre @ encode_msgs ms @ rest"
  shows "exec_frames (append_body ossl) buf (at_pos buf (length pre) r) (placed (length pre) ms) =
    (case receive_msgs ossl r ms of (r', fin, k) \<Rightarrow>
       if fin then Break (at_pos buf (length pre + k) r', True)
       else Continue (at_pos buf (length pre + k) r'))"
  using assms
proof (induction ms arbitrary: pre r)
  case (Cons m ms)
  obtain t p where m: "m = (t, p)" by force
  let ?pre = "pre @ encode_frame t p"
  let ?fr = "\<lparr>fr_type = t, fr_payload = Some (length pre + 5), fr_payload_size = length p,
    fr_frame_size = 5 + length p\<rparr>" and ?c = "length pre + 5 + length p"
  have data: "event_data buf (parse_backend_event ?fr) = Some p"
    using payload_view_encode [of pre t p "encode_msgs ms @ rest"] Cons.prems
    by (simp add: event_data_view m)
  have body: "append_body ossl buf ?fr ?c (at_pos buf (length pre) r) =
      map_loop_step (at_pos buf ?c) (map_prod (at_pos buf ?c) id) (append_event ossl p (msg_event t p) r)"
    using append_event_pos [OF data, of t ossl buf ?c r]
    by (simp add: append_body_def at_pos_def)
  have step: "append_event ossl p (msg_event t p) r \<noteq> Undefined"
    by (rule append_event_step(1) [of p _ p]) simp
  have brk: "f" if "append_event ossl p (msg_event t p) r = Break (r', f)" for r' f
    using append_event_step(3) [OF _ that] by simp
  have len_pre: "length ?pre = ?c" by simp
  show ?case
  proof (cases "append_event ossl p (msg_event t p) r")
    case (Continue r1)
    have "buf = ?pre @ encode_msgs ms @ rest" using Cons.prems m by simp
    from Cons.IH [OF this, of r1, unfolded len_pre] body Continue show ?thesis
      by (auto simp: m add.assoc split: prod.split)
  next
    case (Break z)
    then obtain r2 where "append_event ossl p (msg_event t p) r = Break (r2, True)"
      using brk by (cases z) auto
    then show ?thesis using body by (simp add: m add.assoc)
  next
    case Undefined
    with step show ?thesis by simp
  qed
qed simp

lemma receive_msgs_length:
  assumes "receive_msgs ossl r ms = (r', fin, k)"
  shows "k \<le> length (encode_msgs ms) \<and> (\<not> fin \<longrightarrow> k = length (encode_msgs ms))"
  using assms
proof (induction ms arbitrary: r k)
  case (Cons m ms)
  obtain t p where m: "m = (t, p)" by force
  show ?case
  proof (cases "append_event ossl p (msg_event t p) r")
    case (Continue r1)
    obtain r2 f2 k2 where "receive_msgs ossl r1 ms = (r2, f2, k2)" using prod_cases3 by blast
    with Cons Continue m show ?thesis by fastforce
  next
    case (Break z)
    with Cons.prems m show ?thesis by (cases z) auto
  next
    case Undefined
    with Cons.prems m show ?thesis by simp
  qed
qed simp

lemma response_append_receive:
  assumes "small_msgs ms" and "rs_cursor r = length (rs_buf r)"
    and "receive_msgs ossl r ms = (r', fin, k)" and "fin \<or> rest = []"
  shows "response_append ossl r (encode_msgs ms @ rest) =
    Some (if fin then 1 else 0, of_nat k,
          at_pos (rs_buf r @ take k (encode_msgs ms)) (length (rs_buf r) + k) r')"
proof -
  let ?enc = "encode_msgs ms" and ?n = "length (rs_buf r)"
  define buf where "buf = rs_buf r @ ?enc @ rest"
  note k = receive_msgs_length [OF assms(3)]
  have start: "r\<lparr>rs_buf := buf\<rparr> = at_pos buf ?n r" using assms(2) by (simp add: at_pos_def)
  have "append_loop ossl buf ?n (at_pos buf ?n r) =
      (case exec_frames (append_body ossl) buf (at_pos buf ?n r) (placed ?n ms) of
         Continue s \<Rightarrow> append_loop ossl buf (?n + length ?enc) s
       | Break x \<Rightarrow> Some x | Undefined \<Rightarrow> None)"
    by (rule append_fl.loop_placed [OF assms(1) buf_def])
  also have "\<dots> = (if fin then Some (at_pos buf (?n + k) r', True)
      else append_loop ossl buf (?n + length ?enc) (at_pos buf (?n + k) r'))"
    by (simp add: exec_placed_receive [OF buf_def] assms(3))
  also have "\<dots> = Some (at_pos buf (?n + k) r', fin)"
    using assms(4) by (auto simp: buf_def append_fl.loop_None next_frame_def)
  finally have loop: "append_loop ossl buf ?n (at_pos buf ?n r) = Some (at_pos buf (?n + k) r', fin)" .
  have buf_eq: "rs_buf r @ ?enc @ rest = buf" by (simp add: buf_def)
  have "response_append ossl r (?enc @ rest) =
      (if fin then Some (1, of_nat (length (?enc @ rest)) - of_nat (length buf - (?n + k)),
         at_pos (if length buf > ?n + k then take (?n + k) buf else buf) (?n + k) r')
       else Some (0, of_nat (length (?enc @ rest)), at_pos buf (?n + k) r'))"
    unfolding response_append_def Let_def buf_eq assms(2) start loop by (simp add: at_pos_def)
  moreover have "of_nat (length (?enc @ rest)) - of_nat (length buf - (?n + k)) = (of_nat k :: u64)"
    using k by (simp add: buf_def of_nat_diff)
  moreover have "(if length buf > ?n + k then take (?n + k) buf else buf) = rs_buf r @ take k ?enc"
    using k by (cases rest) (simp_all add: buf_def)
  ultimately show ?thesis using k assms(4) by (cases rest) (auto simp: buf_def)
qed


subsection \<open>Replies\<close>

text \<open>The messages \<open>append\<close> passes over: they are left for the cursor.\<close>

definition quiet :: "message \<Rightarrow> bool" where
  "quiet m \<longleftrightarrow> event_type (fst m) \<in>
     {PG_EVENT_ROW_DESCRIPTION, PG_EVENT_DATA_ROW, PG_EVENT_COMMAND_COMPLETE, PG_EVENT_COPY_DATA,
      PG_EVENT_COPY_DONE, PG_EVENT_COPY_FAIL, PG_EVENT_EMPTY_QUERY, PG_EVENT_PARSE_COMPLETE,
      PG_EVENT_BIND_COMPLETE, PG_EVENT_CLOSE_COMPLETE, PG_EVENT_PARAMETER_DESCRIPTION,
      PG_EVENT_NO_DATA, PG_EVENT_UNKNOWN}"

lemma receive_quiet:
  assumes "list_all quiet ms"
  shows "receive_msgs ossl r (ms @ ms') =
    (case receive_msgs ossl r ms' of (r', fin, k) \<Rightarrow> (r', fin, length (encode_msgs ms) + k))"
  using assms
proof (induction ms)
  case (Cons m ms)
  obtain t p where m: "m = (t, p)" by force
  have "append_event ossl p (msg_event t p) r = Continue r"
    using Cons.prems by (auto simp: m quiet_def append_event_def)
  with Cons show ?case by (simp add: m split: prod.split)
qed simp

lemma receive_ready:
  assumes "st \<in> {CHR ''I'', CHR ''T'', CHR ''E''}"
  shows "receive_msgs ossl r ((CHR ''Z'', [st]) # ms) =
    (r\<lparr>rs_transaction_state := st, rs_ready_for_query := True\<rparr>, True, 6)"
  using assms by (auto simp: append_event_def event_type_def parse_ready_for_query_def)

lemma receive_reply:
  assumes "list_all quiet ms" and "st \<in> {CHR ''I'', CHR ''T'', CHR ''E''}"
  shows "receive_msgs ossl r (ms @ [(CHR ''Z'', [st])]) =
    (r\<lparr>rs_transaction_state := st, rs_ready_for_query := True\<rparr>, True, length (encode_msgs ms) + 6)"
  using receive_quiet [OF assms(1)] receive_ready [OF assms(2)] by simp

lemma receive_error:
  assumes "\<forall>(t, v) \<in> set fs. t \<noteq> NUL \<and> NUL \<notin> set v"
  shows "receive_msgs ossl r ((CHR ''E'', enc_error fs) # ms) =
    (let r' = r\<lparr>rs_is_error := True, rs_error := fold (\<lambda>(t, v). set_error_field t v) fs (rs_error r)\<rparr>;
         k = 5 + length (enc_error fs)
     in if rs_is_startup r then (r', True, k)
        else case receive_msgs ossl r' ms of (r'', fin, k') \<Rightarrow> (r'', fin, k + k'))"
  by (simp add: append_event_def event_type_def with_data_Some Let_def parse_error_response_enc [OF assms]
      split: prod.split)

lemma small_msgs_append [simp]: "small_msgs (xs @ ys) \<longleftrightarrow> small_msgs xs \<and> small_msgs ys"
  by (auto simp: small_msgs_def)

lemma encode_msgs_append [simp]: "encode_msgs (xs @ ys) = encode_msgs xs @ encode_msgs ys"
  by (simp add: encode_msgs_def)

subsection \<open>The scans for COPY OUT\<close>

definition copy_end :: "message \<Rightarrow> bool" where
  "copy_end m \<longleftrightarrow> event_type (fst m) \<in> {PG_EVENT_COPY_DONE, PG_EVENT_COMMAND_COMPLETE, PG_EVENT_READY}"

definition copy_payloads :: "message list \<Rightarrow> bytes list" where
  "copy_payloads ms =
     map snd (filter (\<lambda>m. event_type (fst m) = PG_EVENT_COPY_DATA) (takeWhile (\<lambda>m. \<not> copy_end m) ms))"

lemma placed_event_data:
  "event_data (pre @ encode_frame t p @ rest)
     (parse_backend_event \<lparr>fr_type = t, fr_payload = Some (length pre + 5),
        fr_payload_size = length p, fr_frame_size = n\<rparr>) = Some p"
  by (simp add: event_data_view payload_view_encode)

lemma exec_copy_data:
  "exec_frames copy_data_body (pre @ encode_msgs ms @ rest) row (placed (length pre) ms) =
     (if list_ex copy_end ms then Break (row @ copy_payloads ms) else Continue (row @ copy_payloads ms))"
proof (induction ms arbitrary: pre row)
  case (Cons m ms)
  obtain t p where m: "m = (t, p)" by force
  let ?buf = "pre @ encode_frame t p @ encode_msgs ms @ rest"
  have step: "copy_data_body ?buf \<lparr>fr_type = t, fr_payload = Some (length pre + 5),
        fr_payload_size = length p, fr_frame_size = 5 + length p\<rparr> c row =
      (if event_type t = PG_EVENT_COPY_DATA then Continue (row @ [p])
       else if copy_end m then Break row else Continue row)" for c
    by (auto simp: copy_data_body_def with_data_Some placed_event_data Let_def copy_end_def m)
  show ?case
    using Cons.IH [of "pre @ encode_frame t p"] step
    by (auto simp: m copy_payloads_def copy_end_def algebra_simps)
qed (simp add: copy_payloads_def)

lemma exec_copy_done:
  "exec_frames copy_done_body (pre @ encode_msgs ms @ rest) () (placed (length pre) ms) =
     (if list_ex (\<lambda>m. event_type (fst m) \<in> {PG_EVENT_COPY_DONE, PG_EVENT_READY}) ms then Break True
      else Continue ())"
proof (induction ms arbitrary: pre)
  case (Cons m ms)
  obtain t p where m: "m = (t, p)" by force
  show ?case
    using Cons.IH [of "pre @ encode_frame t p"]
    by (auto simp: m copy_done_body_def Let_def algebra_simps)
qed simp

lemma get_copy_data_encode:
  assumes "small_msgs ms" and "rs_is_copy_out r" and "rs_buf r = encode_msgs ms"
  shows "get_copy_data r = Some (copy_payloads ms)"
  using assms copy_data_fl.loop_placed [OF assms(1), of "rs_buf r" "[]" "[]" "[]"]
    exec_copy_data [of "[]" ms "[]" "[]"]
  by (auto simp: get_copy_data_def copy_data_fl.loop_None next_frame_def)

lemma is_copy_done_encode:
  assumes "small_msgs ms" and "rs_is_copy_out r" and "rs_buf r = encode_msgs ms"
  shows "is_copy_done r =
    Some (list_ex (\<lambda>m. event_type (fst m) \<in> {PG_EVENT_COPY_DONE, PG_EVENT_READY}) ms)"
  using assms copy_done_fl.loop_placed [OF assms(1), of "rs_buf r" "[]" "[]" "()"]
    exec_copy_done [of "[]" ms "[]"]
  by (auto simp: is_copy_done_def copy_done_fl.loop_None next_frame_def)

end
