(* ===== verification/Task.thy ===== *)
theory Task
  imports Uri_Config Response
begin

section \<open>The client task: src/factory/PostgresTaskImpl.cc\<close>

text \<open>
  \<open>pg_task\<close> is the state of a \<open>ComplexPostgresTask\<close>, \<open>pg_conn\<close> that of the
  \<open>PostgresConnection\<close> attached to a physical connection. \<open>world\<close> is what the virtual
  functions of the task see: the task, the connection's context (\<open>None\<close> until one is set), the
  state kept on the route target, the sequence number of the physical connection (0 for a fresh
  one) and the \<open>WFPostgresConnection\<close> the task belongs to.

  A message the task hands to the framework is one of its member objects, either plain or
  inside the connection's \<open>SSLWrapper\<close>. The wrapper is created once and keeps the message it
  was created for, so \<open>Wrapped\<close> names that message.
\<close>

subsection \<open>States\<close>

datatype conn_stage = Stage_New | Stage_Handshake | Stage_Startup | Stage_Ready | Stage_Used

fun stage_num :: "conn_stage \<Rightarrow> nat" where
  "stage_num Stage_New = 0"
| "stage_num Stage_Handshake = 1"
| "stage_num Stage_Startup = 2"
| "stage_num Stage_Ready = 3"
| "stage_num Stage_Used = 4"

instantiation conn_stage :: linorder
begin

definition less_eq_conn_stage :: "conn_stage \<Rightarrow> conn_stage \<Rightarrow> bool" where
  "less_eq_conn_stage a b \<longleftrightarrow> stage_num a \<le> stage_num b"

definition less_conn_stage :: "conn_stage \<Rightarrow> conn_stage \<Rightarrow> bool" where
  "less_conn_stage a b \<longleftrightarrow> stage_num a < stage_num b"

lemma stage_num_inject: "stage_num a = stage_num b \<Longrightarrow> a = b"
  by (cases a; cases b) simp_all

instance
  by standard (auto simp: less_eq_conn_stage_def less_conn_stage_def intro: stage_num_inject)

end

datatype proto_state = PG_PROTOCOL_READY | PG_PROTOCOL_COPY_IN | PG_PROTOCOL_NOTIFY_WAIT | PG_PROTOCOL_BROKEN

text \<open>The continuity state on the route target is an \<open>int\<close>: 0, -1 or a transaction status byte.\<close>

definition PG_CONTINUITY_NEW :: int where "PG_CONTINUITY_NEW = 0"
definition PG_CONTINUITY_IDLE :: int where "PG_CONTINUITY_IDLE = 73"
definition PG_CONTINUITY_UNKNOWN :: int where "PG_CONTINUITY_UNKNOWN = -1"

definition char_code :: "char \<Rightarrow> int" where
  "char_code c = sint (word_of_nat (of_char c) :: 8 word)"

definition POSTGRES_KEEPALIVE_DEFAULT :: int where "POSTGRES_KEEPALIVE_DEFAULT = 30 * 1000"
definition POSTGRES_KEEPALIVE_TRANSACTION :: int where "POSTGRES_KEEPALIVE_TRANSACTION = 3600 * 1000"

lemmas continuity_defs = PG_CONTINUITY_NEW_def PG_CONTINUITY_IDLE_def PG_CONTINUITY_UNKNOWN_def

datatype msg_ref =
    Msg_SSLRequest | Msg_SSLResponse | Msg_Handshaker | Msg_StartupReq | Msg_StartupResp
  | Msg_UserReq | Msg_UserResp

datatype net_msg = Plain msg_ref | Wrapped msg_ref

text \<open>
  The \<open>SSL\<close> object of a connection: the context it was made from (\<open>None\<close> is the framework's
  global client context) and the host name it checks the server's certificate against.
\<close>

record ssl_session =
  ssn_ctx :: "ssl_ctx option"
  ssn_verify_host :: "bytes option"
  ssn_no_partial_wildcards :: bool

record pg_conn =
  cn_ssl :: "ssl_session option"
  cn_state :: conn_stage
  cn_protocol_state :: proto_state
  cn_wrapper :: "msg_ref option"
  cn_backend_pid :: i32
  cn_backend_secret :: i32
  cn_backend_secret_data :: bytes

definition has_ssl :: "pg_conn \<Rightarrow> bool" where
  "has_ssl c \<longleftrightarrow> cn_ssl c \<noteq> None"

lemma has_ssl_update [simp]:
  "has_ssl (c\<lparr>cn_state := s\<rparr>) = has_ssl c" "has_ssl (c\<lparr>cn_protocol_state := p\<rparr>) = has_ssl c"
  "has_ssl (c\<lparr>cn_wrapper := m\<rparr>) = has_ssl c" "has_ssl (c\<lparr>cn_backend_pid := i\<rparr>) = has_ssl c"
  "has_ssl (c\<lparr>cn_backend_secret := i\<rparr>) = has_ssl c"
  "has_ssl (c\<lparr>cn_backend_secret_data := b\<rparr>) = has_ssl c"
  by (simp_all add: has_ssl_def)

definition new_conn :: "ssl_session option \<Rightarrow> pg_conn" where
  "new_conn ssl = \<lparr>cn_ssl = ssl, cn_state = Stage_New, cn_protocol_state = PG_PROTOCOL_READY,
     cn_wrapper = None, cn_backend_pid = 0, cn_backend_secret = 0, cn_backend_secret_data = []\<rparr>"

record pg_task =
  tk_req :: pg_request
  tk_resp :: pg_response
  tk_state :: wft_state
  tk_error :: int
  tk_uri :: parsed_uri
  tk_info :: bytes
  tk_fixed_addr :: bool
  tk_fixed_conn :: bool
  tk_keep_alive_timeo :: int
  tk_watch_timeo :: int
  tk_user :: bytes
  tk_pass :: bytes
  tk_db :: bytes
  tk_startup_params :: "bytes str_map"
  tk_is_user_request :: bool
  tk_user_request_started :: bool
  tk_is_ssl :: bool
  tk_verify_full :: bool
  tk_owns_ssl_ctx :: bool
  tk_ssl_ctx :: "ssl_ctx option"
  tk_startup_req :: "pg_request option"
  tk_ssl_req :: bool
  tk_ssl_handshaker :: bool
  tk_startup_resp :: "pg_response option"
  tk_ssl_resp :: "char option"
  tk_target_protocol_version :: u32

text \<open>The part of a \<open>WFPostgresConnection\<close> the task writes to.\<close>

record conn_handle =
  hd_last_tx_state :: char
  hd_backend_pid :: i32
  hd_backend_secret_data :: bytes

record world =
  w_task :: pg_task
  w_conn :: "pg_conn option"
  w_target :: "int option"
  w_seq :: nat
  w_handle :: "conn_handle option"

definition new_task :: "parsed_uri \<Rightarrow> pg_task" where
  "new_task uri = \<lparr>tk_req = new_request, tk_resp = new_response, tk_state = WFT_STATE_UNDEFINED,
     tk_error = 0, tk_uri = uri, tk_info = [], tk_fixed_addr = False, tk_fixed_conn = False,
     tk_keep_alive_timeo = 0, tk_watch_timeo = 0, tk_user = [], tk_pass = [], tk_db = [],
     tk_startup_params = [], tk_is_user_request = True, tk_user_request_started = False,
     tk_is_ssl = False, tk_verify_full = False, tk_owns_ssl_ctx = False, tk_ssl_ctx = None,
     tk_startup_req = None, tk_ssl_req = False, tk_ssl_handshaker = False,
     tk_startup_resp = None, tk_ssl_resp = None, tk_target_protocol_version = 196610\<rparr>"

subsection \<open>Connection helpers\<close>

definition wrap_ssl :: "pg_conn \<Rightarrow> msg_ref \<Rightarrow> net_msg \<times> pg_conn" where
  "wrap_ssl conn msg =
     (case cn_wrapper conn of
        None \<Rightarrow> (Wrapped msg, conn\<lparr>cn_wrapper := Some msg\<rparr>)
      | Some m \<Rightarrow> (Wrapped m, conn))"

lemma has_ssl_new_conn [simp]: "has_ssl (new_conn ssl) \<longleftrightarrow> ssl \<noteq> None"
  by (simp add: has_ssl_def new_conn_def)

text \<open>
  Results of the helpers of \<open>finish_once\<close>: \<open>True\<close> when the task is finished, the state and
  error when they are set, and the connection. \<open>create_ssl\<close> may fail; \<open>ssl_ok\<close> is its outcome.
\<close>

definition handle_starttls_transition ::
  "bool \<Rightarrow> ssl_ctx option \<Rightarrow> char \<Rightarrow> bool \<Rightarrow> parsed_uri \<Rightarrow> pg_conn option \<Rightarrow>
   bool \<times> (wft_state \<times> int) option \<times> pg_conn option" where
  "handle_starttls_transition ssl_ok task_ssl_ctx byte verify_full uri conn =
     (if byte = CHR ''S'' then
        (if \<not> ssl_ok then (True, Some (WFT_STATE_TASK_ERROR, ERR_SSL_INIT_FAILED), conn)
         else
           let check = (verify_full \<and> uri_host uri \<noteq> None);
               ssl = \<lparr>ssn_ctx = task_ssl_ctx,
                      ssn_verify_host = (if check then uri_host uri else None),
                      ssn_no_partial_wildcards = check\<rparr>
           in (False, None, Some ((new_conn (Some ssl))\<lparr>cn_state := Stage_Handshake\<rparr>)))
      else (True, Some (WFT_STATE_TASK_ERROR, ERR_SSL_NOT_SUPPORTED), conn))"

definition startup_error_code :: "pg_response \<Rightarrow> int" where
  "startup_error_code resp =
     (if rs_internal_error resp \<noteq> 0 then rs_internal_error resp
      else if err_sql_state (rs_error resp) = ''28P01'' \<or> err_sql_state (rs_error resp) = ''28000''
        then ERR_AUTH_FAILED
      else ERR_PROTOCOL_ERROR)"

definition handle_startup_auth_completion ::
  "pg_response \<Rightarrow> pg_conn option \<Rightarrow> bool \<times> (wft_state \<times> int) option \<times> pg_conn option" where
  "handle_startup_auth_completion startup_resp conn =
     (if rs_is_error startup_resp then
        (True, Some (WFT_STATE_TASK_ERROR, startup_error_code startup_resp), conn)
      else if rs_negotiated_version startup_resp \<noteq> 0 \<and> drop_bit 16 (rs_negotiated_version startup_resp) \<noteq> 3 then
        (True, Some (WFT_STATE_TASK_ERROR, ERR_PROTOCOL_NOT_SUPPORTED), conn)
      else
        let c = (case conn of None \<Rightarrow> new_conn None | Some c \<Rightarrow> c)
        in (False, None, Some (c\<lparr>cn_backend_pid := rs_backend_pid startup_resp,
              cn_backend_secret := rs_backend_secret_key startup_resp,
              cn_backend_secret_data := rs_backend_secret_data startup_resp,
              cn_state := Stage_Ready\<rparr>)))"

text \<open>The result: whether the request may go on, the target, the connection, the error code.\<close>

definition check_reconnect_guard ::
  "bool \<Rightarrow> bool \<Rightarrow> int option \<Rightarrow> pg_conn option \<Rightarrow> int \<Rightarrow> bool \<times> int option \<times> pg_conn option \<times> int" where
  "check_reconnect_guard is_fixed_conn allow_idle_reconnect target conn error_code =
     (case conn of
        Some c \<Rightarrow>
          if cn_state c = Stage_Ready then
            (case target of
               Some t \<Rightarrow>
                 if is_fixed_conn \<and> t \<noteq> PG_CONTINUITY_NEW \<and>
                    \<not> (allow_idle_reconnect \<and> t = PG_CONTINUITY_IDLE)
                 then (False, Some PG_CONTINUITY_UNKNOWN, conn, ECONNRESET)
                 else (True, target, Some (c\<lparr>cn_state := Stage_Used\<rparr>), error_code)
             | None \<Rightarrow> (True, target, Some (c\<lparr>cn_state := Stage_Used\<rparr>), error_code))
          else (True, target, conn, error_code)
      | None \<Rightarrow> (True, target, conn, error_code))"

definition validate_request :: "pg_conn option \<Rightarrow> pg_request \<Rightarrow> int \<Rightarrow> bool \<times> pg_conn option \<times> int" where
  "validate_request conn req error_code =
     (case conn of
        None \<Rightarrow> (True, conn, error_code)
      | Some c \<Rightarrow>
          let is_copy_task = rq_is_copy req \<or> rq_copy_done req \<or> rq_copy_fail req;
              is_disconnect = rq_is_disconnect req
          in (case cn_protocol_state c of
                PG_PROTOCOL_BROKEN \<Rightarrow> (False, conn, EBADF)
              | PG_PROTOCOL_COPY_IN \<Rightarrow>
                  if \<not> is_copy_task \<and> \<not> is_disconnect then (False, conn, EPROTO)
                  else (True, conn, error_code)
              | PG_PROTOCOL_NOTIFY_WAIT \<Rightarrow>
                  if \<not> is_disconnect then (False, conn, EPROTO) else (True, conn, error_code)
              | PG_PROTOCOL_READY \<Rightarrow>
                  if is_copy_task then (False, conn, EPROTO)
                  else if rq_wait_notification req
                    then (True, Some (c\<lparr>cn_protocol_state := PG_PROTOCOL_NOTIFY_WAIT\<rparr>), error_code)
                  else (True, conn, error_code)))"

definition update_after_response ::
  "pg_conn option \<Rightarrow> pg_request \<Rightarrow> pg_response \<Rightarrow> wft_state \<Rightarrow> pg_conn option \<times> pg_response" where
  "update_after_response conn req resp task_state =
     (case conn of
        None \<Rightarrow> (None, resp)
      | Some c \<Rightarrow>
          let resp = set_backend_secret_data (cn_backend_secret_data c)
                       (set_backend_secret_key (cn_backend_secret c)
                         (set_backend_pid (cn_backend_pid c) resp));
              tx = rs_transaction_state resp;
              ps = (if task_state \<noteq> WFT_STATE_SUCCESS \<and>
                       \<not> (task_state = WFT_STATE_TASK_ERROR \<and> rs_is_error resp)
                    then PG_PROTOCOL_BROKEN
                    else if rs_is_copy_in resp then PG_PROTOCOL_COPY_IN
                    else if rq_wait_notification req then PG_PROTOCOL_READY
                    else if tx = CHR ''I'' \<or> tx = CHR ''T'' \<or> tx = CHR ''E'' then PG_PROTOCOL_READY
                    else cn_protocol_state c)
          in (Some (c\<lparr>cn_protocol_state := ps\<rparr>), resp))"

subsection \<open>Sending\<close>

definition make_startup_req :: "pg_task \<Rightarrow> pg_request" where
  "make_startup_req tk =
     set_startup_params (tk_startup_params tk)
       (set_request_auth (tk_user tk) (tk_db tk) (tk_pass tk)
         (set_protocol_version (tk_target_protocol_version tk) (set_is_startup True new_request)))"

definition with_startup_req :: "pg_task \<Rightarrow> pg_task" where
  "with_startup_req tk =
     (case tk_startup_req tk of
        None \<Rightarrow> tk\<lparr>tk_startup_req := Some (make_startup_req tk)\<rparr>
      | Some _ \<Rightarrow> tk)"

text \<open>The user's own request: the guards, and what is handed to the framework.\<close>

definition user_message_out :: "world \<Rightarrow> (net_msg + int) \<times> world" where
  "user_message_out w =
     (let req = tk_req (w_task w);
          w = w\<lparr>w_task := (w_task w)\<lparr>tk_is_user_request := True\<rparr>\<rparr>;
          allow_idle_reconnect = (\<not> rq_wait_notification req \<and> \<not> rq_is_copy req);
          (ok, target, conn, err) =
            (if rq_is_disconnect req then (True, w_target w, w_conn w, 0)
             else check_reconnect_guard (tk_fixed_conn (w_task w)) allow_idle_reconnect
                    (w_target w) (w_conn w) 0);
          w = w\<lparr>w_target := target, w_conn := conn\<rparr>
      in if \<not> ok then (Inr err, w)
         else let (ok, conn, err) = validate_request (w_conn w) req err; w = w\<lparr>w_conn := conn\<rparr>
           in if \<not> ok then (Inr err, w)
              else let w = w\<lparr>w_task := (w_task w)\<lparr>tk_user_request_started := True\<rparr>\<rparr>;
                       w = (if tk_fixed_conn (w_task w) \<and> w_target w \<noteq> None \<and>
                               \<not> rq_is_cancel req \<and> \<not> rq_is_disconnect req
                            then w\<lparr>w_target := Some PG_CONTINUITY_UNKNOWN\<rparr> else w)
                in (case w_conn w of
                      Some c \<Rightarrow>
                        if has_ssl c
                        then let (m, c) = wrap_ssl c Msg_UserReq in (Inl m, w\<lparr>w_conn := Some c\<rparr>)
                        else (Inl (Plain Msg_UserReq), w)
                    | None \<Rightarrow> (Inl (Plain Msg_UserReq), w)))"

definition message_out :: "world \<Rightarrow> (net_msg + int) \<times> world" where
  "message_out w =
     (let tk = (w_task w)\<lparr>tk_is_user_request := False\<rparr>; w = w\<lparr>w_task := tk\<rparr> in
      if w_seq w = 0 \<and> \<not> rq_is_cancel (tk_req tk) \<and>
         (case w_conn w of None \<Rightarrow> True | Some c \<Rightarrow> tk_is_ssl tk \<and> cn_state c < Stage_Ready) then
        (if tk_is_ssl tk then (Inl (Plain Msg_SSLRequest), w\<lparr>w_task := tk\<lparr>tk_ssl_req := True\<rparr>\<rparr>)
         else (Inl (Plain Msg_StartupReq), w\<lparr>w_task := with_startup_req tk\<rparr>))
      else
        (case w_conn w of
           Some c \<Rightarrow>
             if tk_is_ssl tk \<and> cn_state c = Stage_Handshake then
               (Inl (Plain Msg_Handshaker), w\<lparr>w_task := tk\<lparr>tk_ssl_handshaker := True\<rparr>\<rparr>)
             else if tk_is_ssl tk \<and> cn_state c = Stage_Startup then
               (let (m, c) = wrap_ssl c Msg_StartupReq
                in (Inl m, w\<lparr>w_task := with_startup_req tk, w_conn := Some c\<rparr>))
             else user_message_out w
         | None \<Rightarrow> user_message_out w))"

subsection \<open>Receiving\<close>

definition message_in :: "world \<Rightarrow> net_msg \<times> world" where
  "message_in w =
     (let tk = w_task w in
      if \<not> tk_is_user_request tk then
        (if tk_is_ssl tk \<and> (case w_conn w of None \<Rightarrow> True | Some c \<Rightarrow> cn_state c = Stage_New) then
           (Plain Msg_SSLResponse,
            w\<lparr>w_task := tk\<lparr>tk_ssl_resp := (case tk_ssl_resp tk of None \<Rightarrow> Some NUL | Some b \<Rightarrow> Some b)\<rparr>\<rparr>)
         else if (case w_conn w of None \<Rightarrow> False | Some c \<Rightarrow> cn_state c = Stage_Handshake) then
           (Plain Msg_Handshaker, w)
         else
           let tk = (case tk_startup_resp tk of
                       None \<Rightarrow> tk\<lparr>tk_startup_resp := Some (response_set_is_startup True
                                 (response_set_auth (tk_user tk) (tk_pass tk) (clear_buffer new_response)))\<rparr>
                     | Some _ \<Rightarrow> tk);
               w = w\<lparr>w_task := tk\<rparr>
           in (case w_conn w of
                 Some c \<Rightarrow>
                   if has_ssl c
                   then let (m, c) = wrap_ssl c Msg_StartupResp in (m, w\<lparr>w_conn := Some c\<rparr>)
                   else (Plain Msg_StartupResp, w)
               | None \<Rightarrow> (Plain Msg_StartupResp, w)))
      else
        let resp = response_set_is_startup False
                     (response_set_auth (tk_user tk) (tk_pass tk) (clear_buffer (tk_resp tk)));
            w = w\<lparr>w_task := tk\<lparr>tk_resp := resp\<rparr>\<rparr>
        in (case w_conn w of
              Some c \<Rightarrow>
                if tk_is_ssl tk \<and> has_ssl c
                then let (m, c) = wrap_ssl c Msg_UserResp in (m, w\<lparr>w_conn := Some c\<rparr>)
                else (Plain Msg_UserResp, w)
            | None \<Rightarrow> (Plain Msg_UserResp, w)))"

subsection \<open>After a reply\<close>

definition keep_alive_timeout :: "pg_task \<Rightarrow> int" where
  "keep_alive_timeout tk =
     (if tk_state tk \<noteq> WFT_STATE_SUCCESS then 0
      else if \<not> tk_is_user_request tk then POSTGRES_KEEPALIVE_DEFAULT
      else if rq_is_disconnect (tk_req tk) \<or> rq_is_cancel (tk_req tk) then 0
      else if rs_transaction_state (tk_resp tk) = CHR ''E'' then 0
      else if rs_transaction_state (tk_resp tk) = CHR ''T'' \<and> \<not> tk_fixed_conn tk then 0
      else tk_keep_alive_timeo tk)"

definition first_timeout :: "pg_task \<Rightarrow> int" where
  "first_timeout tk = tk_watch_timeo tk"

definition set_failure :: "(wft_state \<times> int) option \<Rightarrow> pg_task \<Rightarrow> pg_task" where
  "set_failure f tk =
     (case f of None \<Rightarrow> tk | Some (st, err) \<Rightarrow> tk\<lparr>tk_state := st, tk_error := err\<rparr>)"

text \<open>
  The pointers to the startup response and to the answer to the SSLRequest are only used
  after \<open>message_in\<close> created the objects; \<open>None\<close> as a result is a null pointer access.
\<close>

definition finish_startup :: "world \<Rightarrow> (bool \<times> world) option" where
  "finish_startup w =
     (case tk_startup_resp (w_task w) of
        None \<Rightarrow> None
      | Some resp \<Rightarrow>
          let (fin, f, conn) = handle_startup_auth_completion resp (w_conn w);
              tk = set_failure f (w_task w);
              tk = (if fin then tk else tk\<lparr>tk_is_user_request := True\<rparr>)
          in Some (fin, w\<lparr>w_task := tk, w_conn := conn\<rparr>))"

definition finish_once :: "bool \<Rightarrow> world \<Rightarrow> (bool \<times> world) option" where
  "finish_once ssl_ok w =
     (let tk = w_task w in
      if tk_state tk \<noteq> WFT_STATE_SUCCESS then Some (True, w)
      else if w_seq w = 0 \<and> tk_is_ssl tk then
        (case tk_ssl_resp tk of
           None \<Rightarrow> None
         | Some byte \<Rightarrow>
             let (fin, f, conn) = handle_starttls_transition ssl_ok (tk_ssl_ctx tk) byte (tk_verify_full tk)
                                   (tk_uri tk) (w_conn w)
             in Some (fin, w\<lparr>w_task := set_failure f tk, w_conn := conn\<rparr>))
      else
        (case w_conn w of
           Some c \<Rightarrow>
             if tk_is_ssl tk \<and> cn_state c = Stage_Handshake then
               Some (False, w\<lparr>w_conn := Some (c\<lparr>cn_state := Stage_Startup\<rparr>)\<rparr>)
             else if tk_is_ssl tk \<and> cn_state c = Stage_Startup then finish_startup w
             else if \<not> tk_is_user_request tk then finish_startup w
             else Some (True, w)
         | None \<Rightarrow> if \<not> tk_is_user_request tk then finish_startup w else Some (True, w)))"

text \<open>
  \<open>handle\<close>: the state and error it passes on to the framework, and the new world. The base
  class then stores both in the task.
\<close>

definition update_route :: "wft_state \<Rightarrow> world \<Rightarrow> world" where
  "update_route state w =
     (let tk = w_task w; resp = tk_resp tk in
      if tk_is_user_request tk \<and> tk_fixed_conn tk \<and> w_target w \<noteq> None then
        (if rq_is_disconnect (tk_req tk) \<and> state = WFT_STATE_SUCCESS then
           w\<lparr>w_target := Some PG_CONTINUITY_NEW,
             w_handle := map_option (\<lambda>h. h\<lparr>hd_last_tx_state := CHR ''I'', hd_backend_pid := 0,
               hd_backend_secret_data := []\<rparr>) (w_handle w)\<rparr>
         else if tk_user_request_started tk \<and> state = WFT_STATE_SUCCESS then
           w\<lparr>w_target := Some (if rs_ready_for_query resp then char_code (rs_transaction_state resp)
                              else PG_CONTINUITY_UNKNOWN),
             w_handle := map_option (\<lambda>h. h\<lparr>hd_last_tx_state :=
                 (if rs_ready_for_query resp then rs_transaction_state resp else hd_last_tx_state h),
               hd_backend_pid := rs_backend_pid resp,
               hd_backend_secret_data := rs_backend_secret_data resp\<rparr>) (w_handle w)\<rparr>
         else if tk_user_request_started tk then
           w\<lparr>w_handle := map_option (\<lambda>h. h\<lparr>hd_backend_pid := 0, hd_backend_secret_data := []\<rparr>) (w_handle w)\<rparr>
         else w)
      else w)"

definition handle :: "wft_state \<Rightarrow> int \<Rightarrow> world \<Rightarrow> wft_state \<times> int \<times> world" where
  "handle state error w =
     (let tk = w_task w;
          expected_disconnect = (rq_is_disconnect (tk_req tk) \<or> rq_is_cancel (tk_req tk));
          (state, error) =
            (if expected_disconnect \<and> state = WFT_STATE_SYS_ERROR \<and> (error = ECONNRESET \<or> error = 0)
             then (WFT_STATE_SUCCESS, 0) else (state, error));
          (state, error) =
            (if state = WFT_STATE_SUCCESS \<and> rs_is_error (tk_resp tk) \<and> rs_internal_error (tk_resp tk) \<noteq> 0
             then (WFT_STATE_TASK_ERROR, rs_internal_error (tk_resp tk)) else (state, error));
          w = (if tk_is_user_request tk
               then (let (conn, resp) = update_after_response (w_conn w) (tk_req tk) (tk_resp tk) state
                     in w\<lparr>w_conn := conn, w_task := tk\<lparr>tk_resp := resp\<rparr>\<rparr>)
               else w)
      in (state, error, update_route state w))"

lemmas task_defs [step_defs] =
  message_out_def user_message_out_def message_in_def finish_once_def finish_startup_def
  handle_def update_route_def

end
