(* ===== verification/Session.thy ===== *)
theory Session
  imports Task
begin

section \<open>The life of a physical connection\<close>

text \<open>
  The framework drives the virtual functions of \<open>Task\<close>: it asks for a message
  (\<open>message_out\<close>), sends it, asks where to put the reply (\<open>message_in\<close>), and when the reply
  is complete or something failed calls \<open>handle\<close> and then \<open>finish_once\<close>; a task that is not
  finished goes around again on the same connection. \<open>task_step\<close> is that loop as a relation.
  What the server answers is arbitrary (\<open>deliver\<close>), and so is every failure.

  After a complete reply that finishes the task (\<open>Done\<close>) the connection is reused for another
  task only if the task ended successfully and \<open>keep_alive_timeout\<close> is not 0; otherwise, and
  after every failure (\<open>Lost\<close>), the next task has a fresh one. A task that \<open>finish_once\<close> does
  not call finished after a failure goes on with a fresh connection. The state on the route
  target outlives connections. \<open>rn_auth\<close> is a ghost: the startup response the client
  accepted on the current physical connection.
\<close>

datatype phase = Idle | Waiting net_msg | Done | Lost

record run =
  rn_world :: world
  rn_phase :: phase
  rn_auth :: "pg_response option"

definition deliver :: "world \<Rightarrow> world \<Rightarrow> bool" where
  "deliver w w' \<longleftrightarrow>
     (\<exists>s b r. w' = w\<lparr>w_task := (w_task w)\<lparr>tk_startup_resp := s, tk_ssl_resp := b, tk_resp := r\<rparr>\<rparr> \<and>
        (s = None \<longleftrightarrow> tk_startup_resp (w_task w) = None) \<and> (b = None \<longleftrightarrow> tk_ssl_resp (w_task w) = None))"

text \<open>The base class's \<open>handle\<close> stores the state and the error in the task.\<close>

definition store_result :: "wft_state \<times> int \<times> world \<Rightarrow> world" where
  "store_result x = (case x of (st, err, w) \<Rightarrow>
     w\<lparr>w_task := (w_task w)\<lparr>tk_state := st, tk_error := err\<rparr>\<rparr>)"

text \<open>A task as it is created: nothing was sent or received for it.\<close>

definition fresh_task :: "pg_task \<Rightarrow> bool" where
  "fresh_task tk \<longleftrightarrow> tk_startup_req tk = None \<and> tk_startup_resp tk = None \<and>
     tk_ssl_resp tk = None \<and> \<not> tk_user_request_started tk"

text \<open>The startup of a connection was just completed.\<close>

definition startup_done :: "bool \<Rightarrow> world \<Rightarrow> bool" where
  "startup_done fin w \<longleftrightarrow>
     \<not> fin \<and> (case w_conn w of None \<Rightarrow> False | Some c \<Rightarrow> cn_state c = Stage_Ready)"

definition note_auth :: "bool \<Rightarrow> world \<Rightarrow> pg_response option \<Rightarrow> pg_response option" where
  "note_auth fin w a = (if startup_done fin w then tk_startup_resp (w_task w) else a)"

inductive task_step :: "run \<Rightarrow> run \<Rightarrow> bool" where
  Send: "message_out w = (Inl m, w') \<Longrightarrow>
    task_step \<lparr>rn_world = w, rn_phase = Idle, rn_auth = a\<rparr>
              \<lparr>rn_world = w', rn_phase = Waiting m, rn_auth = a\<rparr>"
| Refuse: "message_out w = (Inr err, w') \<Longrightarrow>
    task_step \<lparr>rn_world = w, rn_phase = Idle, rn_auth = a\<rparr>
              \<lparr>rn_world = store_result (handle WFT_STATE_SYS_ERROR err w'), rn_phase = Lost, rn_auth = a\<rparr>"
| Reply: "message_in w = (m', w1) \<Longrightarrow> deliver w1 w2 \<Longrightarrow>
    finish_once ssl_ok (store_result (handle WFT_STATE_SUCCESS 0 w2)) = Some (fin, w3) \<Longrightarrow>
    task_step \<lparr>rn_world = w, rn_phase = Waiting m, rn_auth = a\<rparr>
              \<lparr>rn_world = (if fin then w3 else w3\<lparr>w_seq := Suc (w_seq w3)\<rparr>),
               rn_phase = (if fin then Done else Idle), rn_auth = note_auth fin w3 a\<rparr>"
| Fail: "st \<noteq> WFT_STATE_SUCCESS \<Longrightarrow> deliver w w2 \<Longrightarrow>
    finish_once ssl_ok (store_result (handle st err w2)) = Some (fin, w3) \<Longrightarrow>
    task_step \<lparr>rn_world = w, rn_phase = Waiting m, rn_auth = a\<rparr>
              \<lparr>rn_world = (if fin then w3 else w3\<lparr>w_conn := None, w_seq := 0\<rparr>),
               rn_phase = (if fin then Lost else Idle), rn_auth = None\<rparr>"
| Reuse: "tk_state (w_task w) = WFT_STATE_SUCCESS \<Longrightarrow> keep_alive_timeout (w_task w) \<noteq> 0 \<Longrightarrow>
    fresh_task tk \<Longrightarrow> tk_is_ssl tk = tk_is_ssl (w_task w) \<Longrightarrow>
    task_step \<lparr>rn_world = w, rn_phase = Done, rn_auth = a\<rparr>
              \<lparr>rn_world = w\<lparr>w_task := tk, w_seq := Suc (w_seq w), w_handle := h\<rparr>,
               rn_phase = Idle, rn_auth = a\<rparr>"
| Connect: "fresh_task tk \<Longrightarrow> tk_is_ssl tk = tk_is_ssl (w_task w) \<Longrightarrow>
    ph = Done \<or> ph = Lost \<Longrightarrow>
    task_step \<lparr>rn_world = w, rn_phase = ph, rn_auth = a\<rparr>
              \<lparr>rn_world = w\<lparr>w_task := tk, w_conn := None, w_seq := 0, w_handle := h\<rparr>,
               rn_phase = Idle, rn_auth = None\<rparr>"

inductive_cases task_step_from_Idle: "task_step \<lparr>rn_world = w, rn_phase = Idle, rn_auth = a\<rparr> r"
inductive_cases task_step_from_Lost: "task_step \<lparr>rn_world = w, rn_phase = Lost, rn_auth = a\<rparr> r"

inductive reachable :: "run \<Rightarrow> bool" where
  Start: "fresh_task tk \<Longrightarrow>
    reachable \<lparr>rn_world = \<lparr>w_task = tk, w_conn = None, w_target = t, w_seq = 0, w_handle = h\<rparr>,
               rn_phase = Idle, rn_auth = None\<rparr>"
| Step: "reachable r \<Longrightarrow> task_step r r' \<Longrightarrow> reachable r'"

subsection \<open>The invariant\<close>

text \<open>The startup response was one the client accepts.\<close>

definition accepted :: "pg_response option \<Rightarrow> bool" where
  "accepted a \<longleftrightarrow> (case a of None \<Rightarrow> False | Some resp \<Rightarrow> \<not> rs_is_error resp \<and>
     (rs_negotiated_version resp = 0 \<or> drop_bit 16 (rs_negotiated_version resp) = 3))"

definition conn_authed :: "bool \<Rightarrow> pg_conn option \<Rightarrow> pg_response option \<Rightarrow> bool" where
  "conn_authed ssl conn a \<longleftrightarrow>
     (case conn of None \<Rightarrow> False | Some c \<Rightarrow> Stage_Ready \<le> cn_state c \<and> (ssl \<longrightarrow> has_ssl c)) \<and> accepted a"

definition conn_starting :: "bool \<Rightarrow> pg_conn option \<Rightarrow> bool" where
  "conn_starting ssl conn \<longleftrightarrow>
     (case conn of None \<Rightarrow> False
      | Some c \<Rightarrow> ssl \<and> has_ssl c \<and> (cn_state c = Stage_Handshake \<or> cn_state c = Stage_Startup))"

definition run_inv :: "run \<Rightarrow> bool" where
  "run_inv r \<longleftrightarrow>
     (let w = rn_world r; tk = w_task w; conn = w_conn w; a = rn_auth r; ssl = tk_is_ssl tk in
      case rn_phase r of
        Idle \<Rightarrow> if w_seq w = 0 then conn = None else conn_starting ssl conn \<or> conn_authed ssl conn a
      | Waiting m \<Rightarrow>
          if tk_is_user_request tk
          then rq_is_cancel (tk_req tk) \<and> conn = None \<and> w_seq w = 0 \<or>
               conn_authed ssl conn a \<and> w_seq w \<noteq> 0
          else if w_seq w = 0 then conn = None else conn_starting ssl conn
      | Done \<Rightarrow> tk_state tk = WFT_STATE_SUCCESS \<and> keep_alive_timeout tk \<noteq> 0 \<longrightarrow>
          conn_authed ssl conn a
      | Lost \<Rightarrow> True)"


subsection \<open>What the operations keep\<close>

lemma update_route_frame [simp]:
  "w_task (update_route st w) = w_task w" "w_conn (update_route st w) = w_conn w"
  "w_seq (update_route st w) = w_seq w"
  by (simp_all add: update_route_def Let_def)

definition conn_view :: "pg_conn option \<Rightarrow> (conn_stage \<times> bool) option" where
  "conn_view conn = map_option (\<lambda>c. (cn_state c, has_ssl c)) conn"

lemma update_after_response_frame:
  "conn_view (fst (update_after_response conn req resp st)) = conn_view conn"
  by (simp add: update_after_response_def conn_view_def Let_def split: option.split)

definition request_world :: "wft_state \<Rightarrow> world \<Rightarrow> world" where
  "request_world st w =
     (if tk_is_user_request (w_task w)
      then (let (conn, resp) = update_after_response (w_conn w) (tk_req (w_task w)) (tk_resp (w_task w)) st
            in w\<lparr>w_conn := conn, w_task := (w_task w)\<lparr>tk_resp := resp\<rparr>\<rparr>)
      else w)"

lemma request_world_frame:
  "w_seq (request_world st w) = w_seq w"
  "tk_is_user_request (w_task (request_world st w)) = tk_is_user_request (w_task w)"
  "tk_is_ssl (w_task (request_world st w)) = tk_is_ssl (w_task w)"
  "tk_req (w_task (request_world st w)) = tk_req (w_task w)"
  "tk_startup_resp (w_task (request_world st w)) = tk_startup_resp (w_task w)"
  "tk_ssl_resp (w_task (request_world st w)) = tk_ssl_resp (w_task w)"
  "conn_view (w_conn (request_world st w)) = conn_view (w_conn w)"
  using update_after_response_frame [of "w_conn w" "tk_req (w_task w)" "tk_resp (w_task w)" st]
  by (simp_all add: request_world_def case_prod_unfold Let_def)

lemma handle_world:
  obtains st' where "snd (snd (handle st err w)) = update_route st' (request_world st' w)"
    and "fst (handle st err w) = st'"
  by (rule that [of "fst (handle st err w)"])
    (simp_all add: handle_def request_world_def Let_def case_prod_unfold)

lemma handle_frame:
  assumes "handle st err w = (st', err', w')"
  shows "w_seq w' = w_seq w" and "tk_is_user_request (w_task w') = tk_is_user_request (w_task w)"
    and "tk_is_ssl (w_task w') = tk_is_ssl (w_task w)" and "tk_req (w_task w') = tk_req (w_task w)"
    and "tk_startup_resp (w_task w') = tk_startup_resp (w_task w)"
    and "tk_ssl_resp (w_task w') = tk_ssl_resp (w_task w)"
    and "conn_view (w_conn w') = conn_view (w_conn w)"
  using assms by (rule_tac handle_world [of st err w]; simp add: request_world_frame)+

lemma conn_authed_cong:
  "conn_view conn' = conn_view conn \<Longrightarrow>
   conn_authed ssl conn' a = conn_authed ssl conn a"
  by (cases conn; cases conn') (auto simp: conn_authed_def conn_view_def)

lemma conn_starting_cong:
  "conn_view conn' = conn_view conn \<Longrightarrow>
   conn_starting ssl conn' = conn_starting ssl conn"
  by (cases conn; cases conn') (auto simp: conn_starting_def conn_view_def)


text \<open>A connection may only move on: from ready to used, and never out of TLS.\<close>

definition conn_keeps :: "pg_conn option \<Rightarrow> pg_conn option \<Rightarrow> bool" where
  "conn_keeps conn conn' \<longleftrightarrow>
     (case conn of
        None \<Rightarrow> conn' = None
      | Some c \<Rightarrow> (case conn' of
            None \<Rightarrow> False
          | Some c' \<Rightarrow> has_ssl c' = has_ssl c \<and>
              (cn_state c' = cn_state c \<or> cn_state c = Stage_Ready \<and> cn_state c' = Stage_Used)))"

lemma conn_keeps_refl [simp]: "conn_keeps conn conn"
  by (simp add: conn_keeps_def split: option.split)

lemma conn_keeps_trans: "conn_keeps a b \<Longrightarrow> conn_keeps b c \<Longrightarrow> conn_keeps a c"
  by (auto simp: conn_keeps_def split: option.splits)

lemma conn_keeps_authed: "conn_keeps conn conn' \<Longrightarrow> conn_authed ssl conn a \<Longrightarrow> conn_authed ssl conn' a"
  by (auto simp: conn_keeps_def conn_authed_def less_eq_conn_stage_def split: option.splits)

lemma guard_keeps:
  assumes "check_reconnect_guard fixed allow t conn e = (ok, t', conn', e')"
  shows "conn_keeps conn conn'"
  using assms by (auto simp: check_reconnect_guard_def conn_keeps_def split: option.splits if_splits)

lemma validate_keeps:
  assumes "validate_request conn req e = (ok, conn', e')"
  shows "conn_keeps conn conn'"
  using assms
  by (auto simp: validate_request_def conn_keeps_def Let_def split: option.splits if_splits proto_state.splits)

lemma wrap_keeps:
  assumes "wrap_ssl c m = (m', c')"
  shows "conn_keeps (Some c) (Some c')" and "\<exists>x. m' = Wrapped x"
  using assms by (auto simp: wrap_ssl_def conn_keeps_def split: option.splits)

definition user_guard :: "world \<Rightarrow> bool \<times> int option \<times> pg_conn option \<times> int" where
  "user_guard w =
     (let req = tk_req (w_task w) in
      if rq_is_disconnect req then (True, w_target w, w_conn w, 0)
      else check_reconnect_guard (tk_fixed_conn (w_task w)) (\<not> rq_wait_notification req \<and> \<not> rq_is_copy req)
             (w_target w) (w_conn w) 0)"

lemma user_guard_keeps: "user_guard w = (ok, t, conn, e) \<Longrightarrow> conn_keeps (w_conn w) conn"
  by (auto simp: user_guard_def Let_def dest: guard_keeps split: if_splits)

definition as_user :: "int option \<Rightarrow> pg_conn option \<Rightarrow> world \<Rightarrow> world" where
  "as_user t conn w = w\<lparr>w_task := (w_task w)\<lparr>tk_is_user_request := True\<rparr>, w_target := t, w_conn := conn\<rparr>"

definition started :: "world \<Rightarrow> world" where
  "started w =
     (let w = w\<lparr>w_task := (w_task w)\<lparr>tk_user_request_started := True\<rparr>\<rparr> in
      if tk_fixed_conn (w_task w) \<and> w_target w \<noteq> None \<and> \<not> rq_is_cancel (tk_req (w_task w)) \<and>
         \<not> rq_is_disconnect (tk_req (w_task w))
      then w\<lparr>w_target := Some PG_CONTINUITY_UNKNOWN\<rparr> else w)"

definition hand_out :: "world \<Rightarrow> (net_msg + int) \<times> world" where
  "hand_out w =
     (case w_conn w of
        Some c \<Rightarrow>
          if has_ssl c then let (m, c) = wrap_ssl c Msg_UserReq in (Inl m, w\<lparr>w_conn := Some c\<rparr>)
          else (Inl (Plain Msg_UserReq), w)
      | None \<Rightarrow> (Inl (Plain Msg_UserReq), w))"

lemma user_message_out_eq:
  "user_message_out w =
     (case user_guard w of (ok, t, conn, e) \<Rightarrow>
        if \<not> ok then (Inr e, as_user t conn w)
        else case validate_request conn (tk_req (w_task w)) e of (ok', conn', e') \<Rightarrow>
          if \<not> ok' then (Inr e', as_user t conn' w)
          else hand_out (started (as_user t conn' w)))"
  by (simp add: user_message_out_def user_guard_def as_user_def started_def hand_out_def Let_def
      cong: if_cong prod.case_cong option.case_cong)

lemma started_frame:
  "w_conn (started w) = w_conn w" "w_seq (started w) = w_seq w"
  "w_task (started w) = (w_task w)\<lparr>tk_user_request_started := True\<rparr>"
  "w_target (started w) = (if tk_fixed_conn (w_task w) \<and> w_target w \<noteq> None \<and>
     \<not> rq_is_cancel (tk_req (w_task w)) \<and> \<not> rq_is_disconnect (tk_req (w_task w))
     then Some PG_CONTINUITY_UNKNOWN else w_target w)"
  by (simp_all add: started_def Let_def)

lemma hand_out_frame:
  assumes "hand_out w = (x, w')"
  shows "conn_keeps (w_conn w) (w_conn w')" and "w_task w' = w_task w" and "w_seq w' = w_seq w"
    and "w_target w' = w_target w"
    and "x = Inl (Plain Msg_UserReq) \<and> \<not> (\<exists>c. w_conn w = Some c \<and> has_ssl c) \<or>
       (\<exists>m. x = Inl (Wrapped m) \<and> (\<exists>c. w_conn w = Some c \<and> has_ssl c))"
proof -
  consider c m c' where "w_conn w = Some c" "has_ssl c" "wrap_ssl c Msg_UserReq = (m, c')"
      "x = Inl m" "w' = w\<lparr>w_conn := Some c'\<rparr>"
    | "\<not> (\<exists>c. w_conn w = Some c \<and> has_ssl c)" "x = Inl (Plain Msg_UserReq)" "w' = w"
    using assms by (auto simp: hand_out_def Let_def split: option.splits if_splits prod.splits)
  note cs = this
  show "conn_keeps (w_conn w) (w_conn w')" by (rule cs) (auto dest: wrap_keeps(1))
  show "w_task w' = w_task w" and "w_seq w' = w_seq w" and "w_target w' = w_target w"
    by (rule cs; simp)+
  show "x = Inl (Plain Msg_UserReq) \<and> \<not> (\<exists>c. w_conn w = Some c \<and> has_ssl c) \<or>
      (\<exists>m. x = Inl (Wrapped m) \<and> (\<exists>c. w_conn w = Some c \<and> has_ssl c))"
    by (rule cs) (auto dest: wrap_keeps(2))
qed

text \<open>The three ways a user request can go.\<close>

lemma user_message_out_cases:
  assumes "user_message_out w = (x, w')"
  obtains (guard) t conn e where "user_guard w = (False, t, conn, e)" "x = Inr e" "w_conn w' = conn"
      "w_task w' = (w_task w)\<lparr>tk_is_user_request := True\<rparr>" "w_seq w' = w_seq w" "w_target w' = t"
  | (invalid) t conn e conn' e' where "user_guard w = (True, t, conn, e)"
      "validate_request conn (tk_req (w_task w)) e = (False, conn', e')" "x = Inr e'" "w_conn w' = conn'"
      "w_task w' = (w_task w)\<lparr>tk_is_user_request := True\<rparr>" "w_seq w' = w_seq w" "w_target w' = t"
  | (sent) t conn e conn' e' where "user_guard w = (True, t, conn, e)"
      "validate_request conn (tk_req (w_task w)) e = (True, conn', e')"
      "conn_keeps conn' (w_conn w')" "w_seq w' = w_seq w"
      "w_task w' = (w_task w)\<lparr>tk_is_user_request := True, tk_user_request_started := True\<rparr>"
      "x = Inl (Plain Msg_UserReq) \<and> \<not> (\<exists>c. conn' = Some c \<and> has_ssl c) \<or>
       (\<exists>m. x = Inl (Wrapped m) \<and> (\<exists>c. conn' = Some c \<and> has_ssl c))"
      "w_target w' = (if tk_fixed_conn (w_task w) \<and> t \<noteq> None \<and> \<not> rq_is_cancel (tk_req (w_task w)) \<and>
         \<not> rq_is_disconnect (tk_req (w_task w)) then Some PG_CONTINUITY_UNKNOWN else t)"
proof -
  obtain ok t conn e where g: "user_guard w = (ok, t, conn, e)" using prod_cases4 by blast
  obtain ok' conn' e' where v: "validate_request conn (tk_req (w_task w)) e = (ok', conn', e')"
    using prod_cases3 by blast
  consider "\<not> ok" | "ok" "\<not> ok'" | "ok" "ok'" by blast
  then show ?thesis
  proof cases
    case 1
    with assms g have "x = Inr e" "w' = as_user t conn w" by (simp_all add: user_message_out_eq)
    with 1 g show ?thesis by (intro guard) (simp_all add: as_user_def)
  next
    case 2
    with assms g v have "x = Inr e'" "w' = as_user t conn' w" by (simp_all add: user_message_out_eq)
    with 2 g v show ?thesis by (intro invalid) (simp_all add: as_user_def)
  next
    case 3
    with assms g v have "hand_out (started (as_user t conn' w)) = (x, w')" by (simp add: user_message_out_eq)
    from hand_out_frame [OF this] 3 g v show ?thesis
      by (intro sent [of t conn e conn' e']) (simp_all add: started_frame as_user_def)
  qed
qed

lemma user_message_out_frame:
  assumes "user_message_out w = (x, w')"
  shows "w_seq w' = w_seq w \<and> tk_is_user_request (w_task w') \<and> tk_is_ssl (w_task w') = tk_is_ssl (w_task w) \<and>
    tk_req (w_task w') = tk_req (w_task w) \<and> conn_keeps (w_conn w) (w_conn w')"
  using assms
  by (cases rule: user_message_out_cases)
    (auto dest!: user_guard_keeps validate_keeps intro: conn_keeps_trans)


text \<open>What \<open>message_out\<close> can hand out, by the stage of the connection.\<close>

definition not_user :: "world \<Rightarrow> world" where
  "not_user w = w\<lparr>w_task := (w_task w)\<lparr>tk_is_user_request := False\<rparr>\<rparr>"

lemma not_user_simps [simp]:
  "w_conn (not_user w) = w_conn w" "w_seq (not_user w) = w_seq w" "w_target (not_user w) = w_target w"
  "tk_req (w_task (not_user w)) = tk_req (w_task w)" "tk_is_ssl (w_task (not_user w)) = tk_is_ssl (w_task w)"
  "tk_fixed_conn (w_task (not_user w)) = tk_fixed_conn (w_task w)"
  "tk_is_user_request (w_task (not_user w)) = False"
  "tk_user_request_started (w_task (not_user w)) = tk_user_request_started (w_task w)"
  by (simp_all add: not_user_def)

definition starts_fresh :: "world \<Rightarrow> bool" where
  "starts_fresh w \<longleftrightarrow> w_seq w = 0 \<and> \<not> rq_is_cancel (tk_req (w_task w)) \<and>
     (case w_conn w of None \<Rightarrow> True | Some c \<Rightarrow> tk_is_ssl (w_task w) \<and> cn_state c < Stage_Ready)"

lemma message_out_fresh:
  assumes "starts_fresh w"
  shows "message_out w =
    (if tk_is_ssl (w_task w)
     then (Inl (Plain Msg_SSLRequest), w\<lparr>w_task := (w_task w)\<lparr>tk_is_user_request := False, tk_ssl_req := True\<rparr>\<rparr>)
     else (Inl (Plain Msg_StartupReq),
           w\<lparr>w_task := with_startup_req ((w_task w)\<lparr>tk_is_user_request := False\<rparr>)\<rparr>))"
  using assms unfolding message_out_def Let_def starts_fresh_def by (cases "w_conn w") simp_all

lemma message_out_later:
  assumes "\<not> starts_fresh w"
  shows "message_out w =
    (case w_conn w of
       Some c \<Rightarrow>
         if tk_is_ssl (w_task w) \<and> cn_state c = Stage_Handshake then
           (Inl (Plain Msg_Handshaker), w\<lparr>w_task := (w_task w)\<lparr>tk_is_user_request := False, tk_ssl_handshaker := True\<rparr>\<rparr>)
         else if tk_is_ssl (w_task w) \<and> cn_state c = Stage_Startup then
           (case wrap_ssl c Msg_StartupReq of (m, c') \<Rightarrow>
              (Inl m, w\<lparr>w_task := with_startup_req ((w_task w)\<lparr>tk_is_user_request := False\<rparr>), w_conn := Some c'\<rparr>))
         else user_message_out (not_user w)
     | None \<Rightarrow> user_message_out (not_user w))"
  using assms unfolding message_out_def Let_def starts_fresh_def not_user_def
  by (auto split: option.splits prod.splits)

lemma with_startup_req_frame [simp]:
  "tk_is_user_request (with_startup_req tk) = tk_is_user_request tk"
  "tk_is_ssl (with_startup_req tk) = tk_is_ssl tk" "tk_req (with_startup_req tk) = tk_req tk"
  by (simp_all add: with_startup_req_def split: option.split)

lemma message_out_cases:
  assumes "message_out w = (x, w')"
  obtains (fresh) "starts_fresh w" "\<not> tk_is_user_request (w_task w')" "w_conn w' = w_conn w"
      "x = Inl (Plain (if tk_is_ssl (w_task w) then Msg_SSLRequest else Msg_StartupReq))"
      "w_seq w' = w_seq w" "tk_is_ssl (w_task w') = tk_is_ssl (w_task w)" "w_target w' = w_target w"
  | (starting) c m where "\<not> starts_fresh w" "w_conn w = Some c" "tk_is_ssl (w_task w)"
      "cn_state c = Stage_Handshake \<or> cn_state c = Stage_Startup" "\<not> tk_is_user_request (w_task w')"
      "conn_keeps (w_conn w) (w_conn w')" "x = Inl m" "m = Plain Msg_Handshaker \<or> (\<exists>y. m = Wrapped y)"
      "w_seq w' = w_seq w" "tk_is_ssl (w_task w') = tk_is_ssl (w_task w)" "w_target w' = w_target w"
  | (user) "\<not> starts_fresh w" "user_message_out (not_user w) = (x, w')"
      "case w_conn w of None \<Rightarrow> True | Some c \<Rightarrow> \<not> (tk_is_ssl (w_task w) \<and>
         (cn_state c = Stage_Handshake \<or> cn_state c = Stage_Startup))"
proof (cases "starts_fresh w")
  case True
  with assms show ?thesis
    by (intro fresh) (auto simp: message_out_fresh split: if_splits)
next
  case False
  show ?thesis
  proof (cases "\<exists>c. w_conn w = Some c \<and> tk_is_ssl (w_task w) \<and>
      (cn_state c = Stage_Handshake \<or> cn_state c = Stage_Startup)")
    case True
    then obtain c where c: "w_conn w = Some c" "tk_is_ssl (w_task w)"
      "cn_state c = Stage_Handshake \<or> cn_state c = Stage_Startup" by blast
    obtain m c' where wr: "wrap_ssl c Msg_StartupReq = (m, c')" by force
    from c(3) show ?thesis
    proof
      assume "cn_state c = Stage_Handshake"
      with assms c False show ?thesis by (intro starting [of c "Plain Msg_Handshaker"]) (auto simp: message_out_later)
    next
      assume "cn_state c = Stage_Startup"
      with assms c False wrap_keeps [OF wr] show ?thesis
        by (intro starting [of c m]) (auto simp: message_out_later wr)
    qed
  next
    case no: False
    with assms False show ?thesis
      by (intro user) (auto simp: message_out_later split: option.splits if_splits)
  qed
qed

subsection \<open>The invariant holds in every reachable state\<close>

lemma Idle_not_fresh:
  assumes "run_inv \<lparr>rn_world = w, rn_phase = Idle, rn_auth = a\<rparr>" and "\<not> starts_fresh w"
  shows "rq_is_cancel (tk_req (w_task w)) \<and> w_conn w = None \<and> w_seq w = 0 \<or>
    w_seq w \<noteq> 0 \<and> (conn_starting (tk_is_ssl (w_task w)) (w_conn w) \<or> conn_authed (tk_is_ssl (w_task w)) (w_conn w) a)"
  using assms by (auto simp: run_inv_def starts_fresh_def Let_def split: if_splits)

lemma send_inv:
  assumes inv: "run_inv \<lparr>rn_world = w, rn_phase = Idle, rn_auth = a\<rparr>" and out: "message_out w = (Inl m, w')"
  shows "run_inv \<lparr>rn_world = w', rn_phase = Waiting m, rn_auth = a\<rparr>"
  using out
proof (cases rule: message_out_cases)
  case fresh
  with inv show ?thesis by (simp add: run_inv_def starts_fresh_def Let_def)
next
  case (starting c m')
  have "w_seq w \<noteq> 0" using inv starting by (auto simp: run_inv_def Let_def split: if_splits)
  moreover have "conn_starting True (w_conn w)"
  proof -
    have "\<not> conn_authed True (w_conn w) a"
      using starting by (auto simp: conn_authed_def less_eq_conn_stage_def)
    with Idle_not_fresh [OF inv starting(1)] starting show ?thesis by auto
  qed
  ultimately show ?thesis
    using starting by (auto simp: run_inv_def Let_def conn_starting_def conn_keeps_def split: option.splits)
next
  case user
  note fr = user_message_out_frame [OF user(2)]
  from Idle_not_fresh [OF inv user(1)] show ?thesis
  proof
    assume "rq_is_cancel (tk_req (w_task w)) \<and> w_conn w = None \<and> w_seq w = 0"
    with fr show ?thesis by (simp add: run_inv_def Let_def conn_keeps_def)
  next
    assume later: "w_seq w \<noteq> 0 \<and> (conn_starting (tk_is_ssl (w_task w)) (w_conn w) \<or>
        conn_authed (tk_is_ssl (w_task w)) (w_conn w) a)"
    moreover have "\<not> conn_starting (tk_is_ssl (w_task w)) (w_conn w)"
      using user(3) by (auto simp: conn_starting_def split: option.splits)
    ultimately have "conn_authed (tk_is_ssl (w_task w)) (w_conn w') a"
      using fr conn_keeps_authed by auto
    with fr later show ?thesis by (simp add: run_inv_def Let_def)
  qed
qed

lemma deliver_frame:
  assumes "deliver w w'"
  shows "w_conn w' = w_conn w" and "w_seq w' = w_seq w" and "w_target w' = w_target w"
    and "tk_is_user_request (w_task w') = tk_is_user_request (w_task w)"
    and "tk_is_ssl (w_task w') = tk_is_ssl (w_task w)" and "tk_req (w_task w') = tk_req (w_task w)"
  using assms by (auto simp: deliver_def)

lemma message_in_frame:
  assumes "message_in w = (m, w')"
  shows "w_seq w' = w_seq w" and "tk_is_user_request (w_task w') = tk_is_user_request (w_task w)"
    and "tk_is_ssl (w_task w') = tk_is_ssl (w_task w)" and "tk_req (w_task w') = tk_req (w_task w)"
    and "conn_view (w_conn w') = conn_view (w_conn w)"
proof -
  have wr: "cn_state c' = cn_state c \<and> has_ssl c' = has_ssl c" if "wrap_ssl c x = (y, c')" for c x y c'
    using that by (auto simp: wrap_ssl_def split: option.splits)
  show "w_seq w' = w_seq w" and "tk_is_user_request (w_task w') = tk_is_user_request (w_task w)"
    and "tk_is_ssl (w_task w') = tk_is_ssl (w_task w)" and "tk_req (w_task w') = tk_req (w_task w)"
    using assms by (auto simp: message_in_def Let_def split: if_splits option.splits prod.splits)
  show "conn_view (w_conn w') = conn_view (w_conn w)"
    using assms wr
    by (auto simp: message_in_def Let_def conn_view_def split: if_splits option.splits prod.splits) 
qed


lemma stored_frame:
  assumes "w' = store_result (handle st err w)"
  shows "w_seq w' = w_seq w" and "tk_is_user_request (w_task w') = tk_is_user_request (w_task w)"
    and "tk_is_ssl (w_task w') = tk_is_ssl (w_task w)" and "tk_req (w_task w') = tk_req (w_task w)"
    and "conn_view (w_conn w') = conn_view (w_conn w)"
proof -
  obtain st' e' w1 where h: "handle st err w = (st', e', w1)" using prod_cases3 by blast
  then have w': "w' = w1\<lparr>w_task := (w_task w1)\<lparr>tk_state := st', tk_error := e'\<rparr>\<rparr>"
    using assms by (simp add: store_result_def)
  note handle_frame [OF h]
  then show "w_seq w' = w_seq w" and "tk_is_user_request (w_task w') = tk_is_user_request (w_task w)"
    and "tk_is_ssl (w_task w') = tk_is_ssl (w_task w)" and "tk_req (w_task w') = tk_req (w_task w)"
    and "conn_view (w_conn w') = conn_view (w_conn w)"
    by (simp_all add: w')
qed

lemma set_failure_frame [simp]:
  "tk_is_ssl (set_failure f tk) = tk_is_ssl tk" "tk_startup_resp (set_failure f tk) = tk_startup_resp tk"
  "tk_is_user_request (set_failure f tk) = tk_is_user_request tk" "tk_req (set_failure f tk) = tk_req tk"
  by (simp_all add: set_failure_def split: option.split)

lemma finish_startup_result:
  assumes "finish_startup w = Some (fin, w')"
  shows "w_seq w' = w_seq w" and "tk_is_ssl (w_task w') = tk_is_ssl (w_task w)"
    and "fin \<Longrightarrow> tk_state (w_task w') = WFT_STATE_TASK_ERROR"
    and "\<not> fin \<Longrightarrow> \<exists>c. w_conn w' = Some c \<and> cn_state c = Stage_Ready \<and>
       has_ssl c = (case w_conn w of None \<Rightarrow> False | Some c0 \<Rightarrow> has_ssl c0) \<and>
       accepted (tk_startup_resp (w_task w'))"
proof -
  obtain resp where resp: "tk_startup_resp (w_task w) = Some resp"
    using assms by (auto simp: finish_startup_def split: option.splits)
  show "w_seq w' = w_seq w" and "tk_is_ssl (w_task w') = tk_is_ssl (w_task w)"
    and "fin \<Longrightarrow> tk_state (w_task w') = WFT_STATE_TASK_ERROR"
    and "\<not> fin \<Longrightarrow> \<exists>c. w_conn w' = Some c \<and> cn_state c = Stage_Ready \<and>
       has_ssl c = (case w_conn w of None \<Rightarrow> False | Some c0 \<Rightarrow> has_ssl c0) \<and>
       accepted (tk_startup_resp (w_task w'))"
    using assms resp
    by (auto simp: finish_startup_def handle_startup_auth_completion_def Let_def accepted_def
        new_conn_def has_ssl_def set_failure_def split: if_splits option.splits)
qed

text \<open>What a message in flight means for the connection.\<close>

definition waiting_inv :: "world \<Rightarrow> pg_response option \<Rightarrow> bool" where
  "waiting_inv w a \<longleftrightarrow>
     (let tk = w_task w; ssl = tk_is_ssl tk in
      if tk_is_user_request tk
      then rq_is_cancel (tk_req tk) \<and> w_conn w = None \<and> w_seq w = 0 \<or>
           conn_authed ssl (w_conn w) a \<and> w_seq w \<noteq> 0
      else if w_seq w = 0 then w_conn w = None else conn_starting ssl (w_conn w))"

lemma waiting_inv_run: "run_inv \<lparr>rn_world = w, rn_phase = Waiting m, rn_auth = a\<rparr> \<longleftrightarrow> waiting_inv w a"
  by (simp add: run_inv_def waiting_inv_def Let_def)

lemma conn_view_None: "conn_view conn = conn_view None \<longleftrightarrow> conn = None"
  by (cases conn) (simp_all add: conn_view_def)

lemma waiting_inv_cong:
  assumes "w_seq w' = w_seq w" and "tk_is_user_request (w_task w') = tk_is_user_request (w_task w)"
    and "tk_is_ssl (w_task w') = tk_is_ssl (w_task w)" and "tk_req (w_task w') = tk_req (w_task w)"
    and "conn_view (w_conn w') = conn_view (w_conn w)"
  shows "waiting_inv w' a = waiting_inv w a"
proof -
  have "w_conn w' = None \<longleftrightarrow> w_conn w = None"
    using assms(5) conn_view_None [of "w_conn w"] conn_view_None [of "w_conn w'"] by simp
  then show ?thesis
    using assms(1-4) conn_authed_cong [OF assms(5)] conn_starting_cong [OF assms(5)]
    by (simp add: waiting_inv_def Let_def)
qed

lemma finish_startup_inv:
  assumes "finish_startup w = Some (fin, w')" and "tk_is_ssl (w_task w) \<Longrightarrow> conn_starting True (w_conn w)"
  shows "run_inv \<lparr>rn_world = (if fin then w' else w'\<lparr>w_seq := Suc (w_seq w')\<rparr>),
    rn_phase = (if fin then Done else Idle), rn_auth = note_auth fin w' a\<rparr>"
proof (cases fin)
  case True
  with finish_startup_result(3) [OF assms(1)] show ?thesis by (simp add: run_inv_def)
next
  case False
  from finish_startup_result(4) [OF assms(1) False] obtain c where
    c: "w_conn w' = Some c" "cn_state c = Stage_Ready"
      "has_ssl c = (case w_conn w of None \<Rightarrow> False | Some c0 \<Rightarrow> has_ssl c0)"
      "accepted (tk_startup_resp (w_task w'))" by blast
  have "tk_is_ssl (w_task w') \<longrightarrow> has_ssl c"
    using assms(2) c(3) finish_startup_result(2) [OF assms(1)]
    by (auto simp: conn_starting_def split: option.splits)
  with c False show ?thesis
    by (simp add: run_inv_def conn_authed_def note_auth_def startup_done_def less_eq_conn_stage_def Let_def)
qed

lemma finish_once_inv:
  assumes inv: "waiting_inv w a" and fo: "finish_once ssl_ok w = Some (fin, w')"
  shows "run_inv \<lparr>rn_world = (if fin then w' else w'\<lparr>w_seq := Suc (w_seq w')\<rparr>),
    rn_phase = (if fin then Done else Idle), rn_auth = note_auth fin w' a\<rparr>"
proof -
  let ?ssl = "tk_is_ssl (w_task w)"
  consider "tk_state (w_task w) \<noteq> WFT_STATE_SUCCESS"
    | "tk_state (w_task w) = WFT_STATE_SUCCESS" "w_seq w = 0" "?ssl"
    | "tk_state (w_task w) = WFT_STATE_SUCCESS" "\<not> (w_seq w = 0 \<and> ?ssl)" "tk_is_user_request (w_task w)"
    | "tk_state (w_task w) = WFT_STATE_SUCCESS" "w_seq w = 0" "\<not> ?ssl" "\<not> tk_is_user_request (w_task w)"
    | "tk_state (w_task w) = WFT_STATE_SUCCESS" "w_seq w \<noteq> 0" "\<not> tk_is_user_request (w_task w)"
    by (cases "tk_is_user_request (w_task w)"; cases "w_seq w = 0"; cases "tk_is_ssl (w_task w)") auto
  then show ?thesis
  proof cases
    case 1
    with fo show ?thesis by (auto simp: finish_once_def run_inv_def Let_def)
  next
    case 2
    with fo show ?thesis
      by (auto simp: finish_once_def handle_starttls_transition_def Let_def run_inv_def set_failure_def
          conn_starting_def note_auth_def startup_done_def new_conn_def has_ssl_def split: option.splits if_splits)
  next
    case 3
    from inv 3 consider "rq_is_cancel (tk_req (w_task w))" "w_conn w = None"
      | "conn_authed ?ssl (w_conn w) a" "w_seq w \<noteq> 0"
      by (auto simp: waiting_inv_def Let_def)
    then show ?thesis
    proof cases
      case 1
      with 3 fo have "fin" "w' = w" by (auto simp: finish_once_def Let_def)
      with 1 3 show ?thesis by (auto simp: run_inv_def keep_alive_timeout_def Let_def)
    next
      case 2
      then obtain c where c: "w_conn w = Some c" "Stage_Ready \<le> cn_state c"
        by (auto simp: conn_authed_def split: option.splits)
      then have "cn_state c \<noteq> Stage_Handshake" "cn_state c \<noteq> Stage_Startup"
        by (auto simp: less_eq_conn_stage_def)
      with 2 3 fo c have "fin" "w' = w"
        by (simp_all add: finish_once_def Let_def)
      with 2 3 show ?thesis by (auto simp: run_inv_def Let_def note_auth_def startup_done_def)
    qed
  next
    case 4
    with inv have "w_conn w = None" by (simp add: waiting_inv_def Let_def)
    with 4 fo have "finish_startup w = Some (fin, w')" by (simp add: finish_once_def Let_def)
    then show ?thesis by (rule finish_startup_inv) (use 4 in simp)
  next
    case 5
    with inv have start: "conn_starting ?ssl (w_conn w)" by (simp add: waiting_inv_def Let_def)
    then obtain c where c: "w_conn w = Some c" "?ssl" "has_ssl c"
      "cn_state c = Stage_Handshake \<or> cn_state c = Stage_Startup"
      by (auto simp: conn_starting_def split: option.splits)
    from c(4) show ?thesis
    proof
      assume "cn_state c = Stage_Handshake"
      with 5 c fo show ?thesis
        by (auto simp: finish_once_def Let_def run_inv_def conn_starting_def)
    next
      assume "cn_state c = Stage_Startup"
      with 5 c fo have "finish_startup w = Some (fin, w')" by (simp add: finish_once_def Let_def)
      then show ?thesis by (rule finish_startup_inv) (use start c in simp)
    qed
  qed
qed

lemma step_inv:
  assumes "task_step r r'" and "run_inv r"
  shows "run_inv r'"
  using assms
proof (induction rule: task_step.induct)
  case (Send w m w' a)
  then show ?case by (intro send_inv)
next
  case (Refuse w err w' a)
  then show ?case by (simp add: run_inv_def)
next
  case (Reply w m' w1 w2 ssl_ok fin w3 m a)
  define w' where "w' = store_result (handle WFT_STATE_SUCCESS 0 w2)"
  have "waiting_inv w a" using Reply.prems by (simp add: waiting_inv_run)
  also have "waiting_inv w a = waiting_inv w1 a"
    using message_in_frame [OF Reply.hyps(1)] by (intro waiting_inv_cong [symmetric])
  also have "\<dots> = waiting_inv w2 a"
    using deliver_frame [OF Reply.hyps(2)] by (intro waiting_inv_cong [symmetric]) simp_all
  also have "\<dots> = waiting_inv w' a"
    using stored_frame [OF w'_def] by (intro waiting_inv_cong [symmetric])
  finally show ?case using Reply.hyps(3) unfolding w'_def [symmetric] by (rule finish_once_inv)
next
  case (Fail st w w2 err ssl_ok fin w3 m a)
  then show ?case by (simp add: run_inv_def)
next
  case (Reuse w tk a h)
  then show ?case by (auto simp: run_inv_def Let_def)
next
  case (Connect tk w ph a h)
  then show ?case by (simp add: run_inv_def)
qed

lemma reachable_inv: "reachable r \<Longrightarrow> run_inv r"
proof (induction rule: reachable.induct)
  case (Start tk t h)
  then show ?case by (simp add: run_inv_def)
next
  case (Step r r')
  then show ?case by (blast intro: step_inv)
qed

subsection \<open>What follows\<close>

text \<open>No request of the user goes out before the server's startup was accepted.\<close>

lemma user_request_authenticated:
  assumes "reachable r" and "rn_phase r = Waiting m" and "tk_is_user_request (w_task (rn_world r))"
    and "\<not> rq_is_cancel (tk_req (w_task (rn_world r)))"
  shows "accepted (rn_auth r) \<and> (\<exists>c. w_conn (rn_world r) = Some c \<and> Stage_Ready \<le> cn_state c \<and>
    (tk_is_ssl (w_task (rn_world r)) \<longrightarrow> has_ssl c))"
  using reachable_inv [OF assms(1)] assms(2-4)
  by (auto simp: run_inv_def Let_def conn_authed_def split: option.splits)

text \<open>With TLS asked for, neither the startup message nor a user request goes out in the clear.\<close>

lemma tls_not_plain:
  assumes "reachable \<lparr>rn_world = w, rn_phase = Idle, rn_auth = a\<rparr>" and "message_out w = (Inl m, w')"
    and "tk_is_ssl (w_task w)" and "\<not> rq_is_cancel (tk_req (w_task w))"
  shows "m \<in> {Plain Msg_SSLRequest, Plain Msg_Handshaker} \<or> (\<exists>y. m = Wrapped y)"
  using assms(2)
proof (cases rule: message_out_cases)
  case user
  note inv = reachable_inv [OF assms(1)]
  from Idle_not_fresh [OF inv user(1)] assms(3,4) user(3)
  have au: "conn_authed True (w_conn w) a"
    by (auto simp: conn_starting_def split: option.splits)
  from user(2) show ?thesis
  proof (cases rule: user_message_out_cases)
    case (sent t conn e conn' e')
    have "conn_keeps (w_conn w) conn'"
      using user_guard_keeps [OF sent(1)] validate_keeps [OF sent(2)] conn_keeps_trans by fastforce
    with au sent(6) show ?thesis
      by (auto simp: conn_authed_def conn_keeps_def split: option.splits)
  qed auto
qed (use assms(3) in auto)


text \<open>
  A task bound to its connection: when the physical connection is new and the route remembers
  an open or unknown transaction, the request is refused and nothing is sent.
\<close>

definition idle_reconnect :: "pg_request \<Rightarrow> int \<Rightarrow> bool" where
  "idle_reconnect req t \<longleftrightarrow> t = PG_CONTINUITY_NEW \<or>
     t = PG_CONTINUITY_IDLE \<and> \<not> rq_wait_notification req \<and> \<not> rq_is_copy req"

lemma reconnect_refused:
  assumes "message_out w = (x, w')" and "w_conn w = Some c" and "cn_state c = Stage_Ready"
    and "tk_fixed_conn (w_task w)" and "w_target w = Some t" and "\<not> rq_is_disconnect (tk_req (w_task w))"
    and "\<not> idle_reconnect (tk_req (w_task w)) t"
  shows "x = Inr ECONNRESET \<and> w_target w' = Some PG_CONTINUITY_UNKNOWN \<and> w_conn w' = Some c"
  using assms(1)
proof (cases rule: message_out_cases)
  case fresh
  then show ?thesis using assms(2,3) by (simp add: starts_fresh_def)
next
  case (starting c' m)
  then show ?thesis using assms(2,3) by auto
next
  case user
  have "user_guard (not_user w) = (False, Some PG_CONTINUITY_UNKNOWN, Some c, ECONNRESET)"
    using assms(2-7) by (auto simp: user_guard_def check_reconnect_guard_def idle_reconnect_def Let_def)
  with user(2) show ?thesis by (auto simp: user_message_out_eq as_user_def)
qed

lemma open_transaction_same_connection:
  assumes "reachable \<lparr>rn_world = w, rn_phase = Idle, rn_auth = a\<rparr>" and "message_out w = (Inl m, w')"
    and "tk_is_user_request (w_task w')" and "tk_fixed_conn (w_task w)"
    and "\<not> rq_is_disconnect (tk_req (w_task w))" and "\<not> rq_is_cancel (tk_req (w_task w))"
    and "w_target w = Some t" and "t \<noteq> PG_CONTINUITY_NEW" and "t \<noteq> PG_CONTINUITY_IDLE"
  shows "\<exists>c. w_conn w = Some c \<and> cn_state c = Stage_Used"
  using assms(2)
proof (cases rule: message_out_cases)
  case user
  from Idle_not_fresh [OF reachable_inv [OF assms(1)] user(1)] assms(6) user(3)
  have "conn_authed (tk_is_ssl (w_task w)) (w_conn w) a"
    by (auto simp: conn_starting_def split: option.splits)
  then obtain c where c: "w_conn w = Some c" "Stage_Ready \<le> cn_state c"
    by (auto simp: conn_authed_def split: option.splits)
  have "cn_state c \<noteq> Stage_Ready"
  proof
    assume "cn_state c = Stage_Ready"
    from reconnect_refused [OF assms(2) c(1) this assms(4,7,5)] assms(8,9) show False
      by (simp add: idle_reconnect_def)
  qed
  with c show ?thesis by (cases "cn_state c") (auto simp: less_eq_conn_stage_def)
qed (use assms(3) in auto)

text \<open>The discipline of the protocol states on what may be sent.\<close>

definition copy_request :: "pg_request \<Rightarrow> bool" where
  "copy_request req \<longleftrightarrow> rq_is_copy req \<or> rq_copy_done req \<or> rq_copy_fail req"

definition may_send :: "proto_state \<Rightarrow> pg_request \<Rightarrow> bool" where
  "may_send ps req \<longleftrightarrow>
     (case ps of
        PG_PROTOCOL_BROKEN \<Rightarrow> False
      | PG_PROTOCOL_COPY_IN \<Rightarrow> copy_request req \<or> rq_is_disconnect req
      | PG_PROTOCOL_NOTIFY_WAIT \<Rightarrow> rq_is_disconnect req
      | PG_PROTOCOL_READY \<Rightarrow> \<not> copy_request req)"

lemma validate_request_may_send:
  "validate_request (Some c) req e = (ok, conn', e') \<Longrightarrow> ok = may_send (cn_protocol_state c) req"
  by (auto simp: validate_request_def may_send_def copy_request_def Let_def
      split: proto_state.splits if_splits)

lemma validate_request_error:
  assumes "validate_request (Some c) req e = (False, conn', e')"
  shows "e' = (if cn_protocol_state c = PG_PROTOCOL_BROKEN then EBADF else EPROTO)" and "conn' = Some c"
  using assms
  by (auto simp: validate_request_def Let_def split: proto_state.splits if_splits)

lemma guard_protocol_state:
  assumes "user_guard w = (ok, t, conn, e)" and "w_conn w = Some c"
  shows "\<exists>c'. conn = Some c' \<and> cn_protocol_state c' = cn_protocol_state c"
  using assms(1)
  by (auto simp: user_guard_def check_reconnect_guard_def Let_def assms(2) split: if_splits option.splits)

lemma sent_user_request_allowed:
  assumes "message_out w = (Inl m, w')" and "tk_is_user_request (w_task w')" and "w_conn w = Some c"
  shows "may_send (cn_protocol_state c) (tk_req (w_task w))"
  using assms(1)
proof (cases rule: message_out_cases)
  case user
  from user(2) show ?thesis
  proof (cases rule: user_message_out_cases)
    case (sent t conn e conn' e')
    from guard_protocol_state [OF sent(1)] assms(3) obtain c' where
      "conn = Some c'" "cn_protocol_state c' = cn_protocol_state c" by auto
    with sent(2) validate_request_may_send show ?thesis by fastforce
  qed simp_all
qed (use assms(2) in auto)

lemma broken_refused:
  assumes "message_out w = (x, w')" and "w_conn w = Some c" and "Stage_Ready \<le> cn_state c"
    and "cn_protocol_state c = PG_PROTOCOL_BROKEN"
  shows "\<exists>e. x = Inr e \<and> (e = EBADF \<or> e = ECONNRESET)"
proof (cases x)
  case (Inl m)
  have no: "\<not> may_send (cn_protocol_state c) (tk_req (w_task w))" by (simp add: assms(4) may_send_def)
  from assms(1) [unfolded Inl] show ?thesis
  proof (cases rule: message_out_cases)
    case fresh
    then show ?thesis
      using assms(2,3) by (simp add: starts_fresh_def less_eq_conn_stage_def less_conn_stage_def)
  next
    case (starting c' m')
    then show ?thesis using assms(2,3) by (auto simp: less_eq_conn_stage_def)
  next
    case user
    from user_message_out_frame [OF user(2)] have "tk_is_user_request (w_task w')" by simp
    from sent_user_request_allowed [OF assms(1) [unfolded Inl] this assms(2)] no show ?thesis by simp
  qed
next
  case (Inr e)
  from assms(1) [unfolded Inr] show ?thesis
  proof (cases rule: message_out_cases)
    case user
    from user(2) show ?thesis
    proof (cases rule: user_message_out_cases)
      case (guard t conn e0)
      then have "e0 = ECONNRESET"
        by (auto simp: user_guard_def check_reconnect_guard_def Let_def split: if_splits option.splits)
      with guard Inr show ?thesis by simp
    next
      case (invalid t conn e0 conn' e')
      from guard_protocol_state [OF invalid(1)] assms(2) obtain c' where
        "conn = Some c'" "cn_protocol_state c' = PG_PROTOCOL_BROKEN" using assms(4) by auto
      with invalid(2) validate_request_error(1) have "e' = EBADF" by fastforce
      with invalid Inr show ?thesis by simp
    qed auto
  qed (use Inr in auto)
qed

text \<open>
  A cancel request with TLS asked for: it is sent in the clear, and when the server closes
  the connection, as it does after a cancel request, \<open>handle\<close> reports success and
  \<open>finish_once\<close> reads the answer to an SSLRequest that was never sent.
\<close>

definition cancel_world :: "world \<Rightarrow> bool" where
  "cancel_world w \<longleftrightarrow> w_seq w = 0 \<and> w_conn w = None \<and> tk_is_ssl (w_task w) \<and>
     rq_is_cancel (tk_req (w_task w)) \<and> tk_ssl_resp (w_task w) = None \<and> \<not> rs_is_error (tk_resp (w_task w))"

lemma cancel_world_out:
  assumes "cancel_world w"
  shows "\<exists>w'. message_out w = (Inl (Plain Msg_UserReq), w') \<and> w_seq w' = 0 \<and> w_conn w' = None \<and>
    tk_is_ssl (w_task w') \<and> rq_is_cancel (tk_req (w_task w')) \<and> tk_ssl_resp (w_task w') = None \<and>
    \<not> rs_is_error (tk_resp (w_task w'))"
proof -
  have later: "\<not> starts_fresh w" and conn: "w_conn w = None" using assms by (simp_all add: cancel_world_def starts_fresh_def)
  have g: "\<exists>t e. user_guard (not_user w) = (True, t, None, e)"
    using conn by (simp add: user_guard_def check_reconnect_guard_def Let_def)
  then obtain t e where g: "user_guard (not_user w) = (True, t, None, e)" by blast
  have "message_out w = hand_out (started (as_user t None (not_user w)))"
    using later conn by (simp add: message_out_later user_message_out_eq g validate_request_def)
  also have "\<dots> = (Inl (Plain Msg_UserReq), started (as_user t None (not_user w)))"
    by (simp add: hand_out_def started_frame as_user_def)
  finally show ?thesis
    using assms by (simp add: cancel_world_def started_frame as_user_def not_user_def)
qed

lemma cancel_finish_undefined:
  assumes "w_seq w = 0" and "tk_is_ssl (w_task w)" and "rq_is_cancel (tk_req (w_task w))"
    and "tk_ssl_resp (w_task w) = None" and "\<not> rs_is_error (tk_resp (w_task w))"
  shows "finish_once ssl_ok (store_result (handle WFT_STATE_SYS_ERROR ECONNRESET w)) = None"
proof -
  obtain st e w1 where h: "handle WFT_STATE_SYS_ERROR ECONNRESET w = (st, e, w1)" using prod_cases3 by blast
  then have "st = WFT_STATE_SUCCESS" using assms(3,5) by (simp add: handle_def Let_def split: prod.splits)
  then show ?thesis
    using handle_frame [OF h] assms by (simp add: h store_result_def finish_once_def Let_def)
qed

end
