(* ===== verification/Session_Run.thy ===== *)
theory Session_Run
  imports Session
begin

section \<open>Runs of a task: from a new connection to the user's request\<close>

text \<open>
  The step relation of \<open>Session\<close> over-approximates: it lets the server answer anything. Here
  are the runs that do make progress. \<open>startup_run\<close> is the one every request starts with: when
  the server accepts the startup message, the user's request goes out, after one round trip on
  a plain connection and after three with TLS. \<open>demo_w0\<close> to \<open>demo_w7\<close> are the worlds of a
  concrete run into an open transaction, evaluated by the simplifier.
\<close>

definition put_startup :: "pg_response \<Rightarrow> world \<Rightarrow> world" where
  "put_startup resp w = w\<lparr>w_task := (w_task w)\<lparr>tk_startup_resp := Some resp\<rparr>\<rparr>"

definition put_ssl_byte :: "char \<Rightarrow> world \<Rightarrow> world" where
  "put_ssl_byte b w = w\<lparr>w_task := (w_task w)\<lparr>tk_ssl_resp := Some b\<rparr>\<rparr>"

definition put_resp :: "pg_response \<Rightarrow> world \<Rightarrow> world" where
  "put_resp resp w = w\<lparr>w_task := (w_task w)\<lparr>tk_resp := resp\<rparr>\<rparr>"

definition after_reply :: "world \<Rightarrow> (bool \<times> world) option" where
  "after_reply w = finish_once True (store_result (handle WFT_STATE_SUCCESS 0 w))"

lemma deliver_put:
  "tk_startup_resp (w_task w) \<noteq> None \<Longrightarrow> deliver w (put_startup resp w)"
  "tk_ssl_resp (w_task w) \<noteq> None \<Longrightarrow> deliver w (put_ssl_byte b w)"
  "deliver w (put_resp resp w)"
  "deliver w w"
  unfolding deliver_def
  by (rule exI [of _ "Some resp"], rule exI [of _ "tk_ssl_resp (w_task w)"], rule exI [of _ "tk_resp (w_task w)"],
      simp add: put_startup_def,
      rule exI [of _ "tk_startup_resp (w_task w)"], rule exI [of _ "Some b"], rule exI [of _ "tk_resp (w_task w)"],
      simp add: put_ssl_byte_def,
      rule exI [of _ "tk_startup_resp (w_task w)"], rule exI [of _ "tk_ssl_resp (w_task w)"], rule exI [of _ resp],
      simp add: put_resp_def,
      rule exI [of _ "tk_startup_resp (w_task w)"], rule exI [of _ "tk_ssl_resp (w_task w)"],
      rule exI [of _ "tk_resp (w_task w)"], simp)

lemma reply_step:
  assumes "message_in w = (m', w1)" and "deliver w1 w2" and "after_reply w2 = Some (False, w3)"
  shows "task_step \<lparr>rn_world = w, rn_phase = Waiting m, rn_auth = a\<rparr>
    \<lparr>rn_world = w3\<lparr>w_seq := Suc (w_seq w3)\<rparr>, rn_phase = Idle, rn_auth = note_auth False w3 a\<rparr>"
  using task_step.Reply [OF assms(1,2), of True False w3 m a] assms(3) by (simp add: after_reply_def)

subsection \<open>Startup on a plain connection\<close>

definition plain_start :: "pg_task \<Rightarrow> int option \<Rightarrow> conn_handle option \<Rightarrow> world" where
  "plain_start tk t h = \<lparr>w_task = tk, w_conn = None, w_target = t, w_seq = 0, w_handle = h\<rparr>"

text \<open>The request may go out on a new connection.\<close>

definition request_allowed :: "pg_task \<Rightarrow> int option \<Rightarrow> bool" where
  "request_allowed tk t \<longleftrightarrow> may_send PG_PROTOCOL_READY (tk_req tk) \<and>
     (rq_is_disconnect (tk_req tk) \<or> \<not> tk_fixed_conn tk \<or>
      (case t of None \<Rightarrow> True | Some x \<Rightarrow> idle_reconnect (tk_req tk) x))"

lemma plain_first_out:
  assumes "\<not> tk_is_ssl tk" and "\<not> rq_is_cancel (tk_req tk)"
  shows "message_out (plain_start tk t h) =
    (Inl (Plain Msg_StartupReq), plain_start (with_startup_req (tk\<lparr>tk_is_user_request := False\<rparr>)) t h)"
  using assms by (simp add: message_out_def plain_start_def)

lemma plain_first_in:
  assumes "\<not> tk_is_ssl tk" and "\<not> tk_is_user_request tk" and "tk_startup_resp tk = None"
  shows "\<exists>s. message_in (plain_start tk t h) = (Plain Msg_StartupResp, plain_start (tk\<lparr>tk_startup_resp := Some s\<rparr>) t h)"
  using assms by (auto simp: message_in_def plain_start_def)

lemma plain_first_reply:
  assumes "\<not> tk_is_ssl tk" and "\<not> tk_is_user_request tk" and "\<not> rs_is_error (tk_resp tk)"
    and "tk_startup_resp tk = Some resp" and "accepted (Some resp)"
  shows "\<exists>w c. after_reply (plain_start tk t h) = Some (False, w) \<and> w_conn w = Some c \<and>
    cn_state c = Stage_Ready \<and> \<not> has_ssl c \<and> cn_protocol_state c = PG_PROTOCOL_READY \<and>
    w_task w = tk\<lparr>tk_is_user_request := True, tk_state := WFT_STATE_SUCCESS, tk_error := 0\<rparr> \<and>
    w_target w = t \<and> w_handle w = h \<and> w_seq w = 0"
  using assms
  by (simp add: after_reply_def plain_start_def handle_def update_route_def store_result_def
      finish_once_def finish_startup_def handle_startup_auth_completion_def accepted_def set_failure_def
      new_conn_def has_ssl_def Let_def)

lemma ready_user_out:
  assumes "\<not> tk_is_ssl (w_task w)" and "w_seq w \<noteq> 0" and "w_conn w = Some c" and "cn_state c = Stage_Ready"
    and "\<not> has_ssl c" and "cn_protocol_state c = PG_PROTOCOL_READY"
    and "request_allowed (w_task w) (w_target w)"
  shows "\<exists>w'. message_out w = (Inl (Plain Msg_UserReq), w') \<and> tk_is_user_request (w_task w') \<and>
    tk_req (w_task w') = tk_req (w_task w)"
  using assms
  by (auto simp: message_out_def user_message_out_def check_reconnect_guard_def validate_request_def
      request_allowed_def may_send_def copy_request_def idle_reconnect_def Let_def split: option.splits)

lemma startup_run:
  assumes "fresh_task tk" and "\<not> tk_is_ssl tk" and "\<not> rq_is_cancel (tk_req tk)"
    and "\<not> rs_is_error (tk_resp tk)" and "accepted (Some resp)" and "request_allowed tk t"
  shows "\<exists>w. task_step\<^sup>*\<^sup>* \<lparr>rn_world = plain_start tk t h, rn_phase = Idle, rn_auth = None\<rparr>
      \<lparr>rn_world = w, rn_phase = Waiting (Plain Msg_UserReq), rn_auth = Some resp\<rparr> \<and>
    tk_is_user_request (w_task w) \<and> tk_req (w_task w) = tk_req tk"
proof -
  let ?tk1 = "with_startup_req (tk\<lparr>tk_is_user_request := False\<rparr>)"
  have tk1: "\<not> tk_is_ssl ?tk1" "\<not> tk_is_user_request ?tk1" "tk_startup_resp ?tk1 = None"
      "\<not> rs_is_error (tk_resp ?tk1)" "tk_req ?tk1 = tk_req tk" "tk_fixed_conn ?tk1 = tk_fixed_conn tk"
    using assms by (simp_all add: with_startup_req_def fresh_task_def split: option.split)
  from plain_first_in [OF tk1(1-3)] obtain s where
    recv: "message_in (plain_start ?tk1 t h) = (Plain Msg_StartupResp, plain_start (?tk1\<lparr>tk_startup_resp := Some s\<rparr>) t h)"
    by blast
  let ?tk2 = "?tk1\<lparr>tk_startup_resp := Some resp\<rparr>"
  have put: "put_startup resp (plain_start (?tk1\<lparr>tk_startup_resp := Some s\<rparr>) t h) = plain_start ?tk2 t h"
    by (simp add: put_startup_def plain_start_def)
  have dlv: "deliver (plain_start (?tk1\<lparr>tk_startup_resp := Some s\<rparr>) t h) (plain_start ?tk2 t h)"
    unfolding put [symmetric] by (rule deliver_put(1)) (simp add: plain_start_def)
  obtain w c where w: "after_reply (plain_start ?tk2 t h) = Some (False, w)" "w_conn w = Some c"
      "cn_state c = Stage_Ready" "\<not> has_ssl c" "cn_protocol_state c = PG_PROTOCOL_READY" "w_target w = t"
      "w_task w = ?tk2\<lparr>tk_is_user_request := True, tk_state := WFT_STATE_SUCCESS, tk_error := 0\<rparr>"
    using plain_first_reply [of ?tk2 resp t h] tk1 assms(5) by auto
  let ?w = "w\<lparr>w_seq := Suc (w_seq w)\<rparr>"
  have auth: "note_auth False w None = Some resp" using w by (simp add: note_auth_def startup_done_def)
  have same: "tk_req (w_task ?w) = tk_req tk" "tk_fixed_conn (w_task ?w) = tk_fixed_conn tk" "w_target ?w = t"
    by (simp_all add: w(6,7) tk1)
  have "request_allowed (w_task ?w) (w_target ?w)"
    using assms(6) same by (simp only: request_allowed_def)
  then obtain w' where w': "message_out ?w = (Inl (Plain Msg_UserReq), w')"
      "tk_is_user_request (w_task w')" "tk_req (w_task w') = tk_req tk"
    using ready_user_out [of ?w c] w tk1 by auto
  have "task_step \<lparr>rn_world = plain_start tk t h, rn_phase = Idle, rn_auth = None\<rparr>
      \<lparr>rn_world = plain_start ?tk1 t h, rn_phase = Waiting (Plain Msg_StartupReq), rn_auth = None\<rparr>"
    by (rule task_step.Send [OF plain_first_out [OF assms(2,3)]])
  moreover have "task_step \<lparr>rn_world = plain_start ?tk1 t h, rn_phase = Waiting (Plain Msg_StartupReq), rn_auth = None\<rparr>
      \<lparr>rn_world = ?w, rn_phase = Idle, rn_auth = Some resp\<rparr>"
    by (rule reply_step [OF recv dlv w(1), of _ None, unfolded auth])
  moreover have "task_step \<lparr>rn_world = ?w, rn_phase = Idle, rn_auth = Some resp\<rparr>
      \<lparr>rn_world = w', rn_phase = Waiting (Plain Msg_UserReq), rn_auth = Some resp\<rparr>"
    by (rule task_step.Send [OF w'(1)])
  ultimately show ?thesis
    using w'(2,3) by (blast intro: converse_rtranclp_into_rtranclp)
qed

subsection \<open>Startup with TLS\<close>

text \<open>
  The wrapper of a TLS connection is made for the startup message and kept. What is handed out
  to receive the server's answer is the same wrapper, around the request object.
\<close>

lemma tls_startup_messages:
  assumes "message_out w = (x, w')" and "tk_is_ssl (w_task w)" and "w_seq w \<noteq> 0"
    and "w_conn w = Some c" and "cn_state c = Stage_Startup" and "has_ssl c" and "cn_wrapper c = None"
  shows "x = Inl (Wrapped Msg_StartupReq) \<and> fst (message_in w') = Wrapped Msg_StartupReq"
  using assms
  by (auto simp: message_out_def message_in_def wrap_ssl_def with_startup_req_def Let_def split: option.splits)

subsection \<open>A concrete run\<close>

definition demo_uri :: parsed_uri where
  "demo_uri = \<lparr>uri_scheme = Some ''postgres'', uri_userinfo = Some ''joe'', uri_host = Some ''db'',
     uri_port = None, uri_path = Some ''/main'', uri_query = Some ''transaction=1''\<rparr>"

definition demo_task :: pg_task where
  "demo_task = (new_task demo_uri)\<lparr>tk_req := set_query ''SELECT 1'' new_request, tk_user := ''joe'',
     tk_db := ''main'', tk_fixed_addr := True, tk_fixed_conn := True,
     tk_keep_alive_timeo := POSTGRES_KEEPALIVE_TRANSACTION\<rparr>"

definition demo_w0 :: world where
  "demo_w0 = \<lparr>w_task = demo_task, w_conn = None, w_target = Some PG_CONTINUITY_NEW, w_seq = 0, w_handle = None\<rparr>"

definition demo_w1 :: world where "demo_w1 = snd (message_out demo_w0)"

definition demo_started :: pg_response where
  "demo_started = new_response\<lparr>rs_backend_pid := 4711, rs_ready_for_query := True\<rparr>"

definition demo_w2 :: world where "demo_w2 = put_startup demo_started (snd (message_in demo_w1))"

definition demo_w3 :: world where
  "demo_w3 = (let w = snd (the (after_reply demo_w2)) in w\<lparr>w_seq := Suc (w_seq w)\<rparr>)"

definition demo_w4 :: world where "demo_w4 = snd (message_out demo_w3)"

definition demo_in_transaction :: pg_response where
  "demo_in_transaction = new_response\<lparr>rs_transaction_state := CHR ''T'', rs_ready_for_query := True\<rparr>"

definition demo_w5 :: world where "demo_w5 = put_resp demo_in_transaction (snd (message_in demo_w4))"

definition demo_w6 :: world where "demo_w6 = snd (the (after_reply demo_w5))"

definition demo_w7 :: world where
  "demo_w7 = demo_w6\<lparr>w_task := demo_task, w_seq := Suc (w_seq demo_w6), w_handle := None\<rparr>"

lemma demo_out:
  "message_out demo_w0 = (Inl (Plain Msg_StartupReq), demo_w1)"
  "message_out demo_w3 = (Inl (Plain Msg_UserReq), demo_w4)"
  by (simp_all only: prod_eq_iff demo_w1_def demo_w4_def snd_conv fst_conv) (code_simp)+

lemma demo_start: "reachable \<lparr>rn_world = demo_w0, rn_phase = Idle, rn_auth = None\<rparr>"
  unfolding demo_w0_def
  by (rule reachable.Start) (simp add: fresh_task_def demo_task_def new_task_def)

lemma demo_step_startup:
  "task_step \<lparr>rn_world = demo_w1, rn_phase = Waiting (Plain Msg_StartupReq), rn_auth = None\<rparr>
    \<lparr>rn_world = demo_w3, rn_phase = Idle, rn_auth = Some demo_started\<rparr>"
proof -
  have "tk_startup_resp (w_task (snd (message_in demo_w1))) \<noteq> None" by code_simp
  then have deliver: "deliver (snd (message_in demo_w1)) demo_w2"
    unfolding demo_w2_def by (rule deliver_put)
  have ready: "note_auth False (snd (the (after_reply demo_w2))) None = Some demo_started" by code_simp
  have "after_reply demo_w2 \<noteq> None \<and> \<not> fst (the (after_reply demo_w2))" by code_simp
  then have "after_reply demo_w2 = Some (False, snd (the (after_reply demo_w2)))" by auto
  from reply_step [OF prod.collapse [symmetric] deliver this, of "Plain Msg_StartupReq" None]
  show ?thesis by (simp add: demo_w3_def Let_def ready)
qed

lemma demo_step_answer:
  "task_step \<lparr>rn_world = demo_w4, rn_phase = Waiting (Plain Msg_UserReq), rn_auth = Some demo_started\<rparr>
    \<lparr>rn_world = demo_w6, rn_phase = Done, rn_auth = Some demo_started\<rparr>"
proof -
  have last: "after_reply demo_w5 \<noteq> None \<and> fst (the (after_reply demo_w5))"
    and auth: "note_auth True demo_w6 (Some demo_started) = Some demo_started"
    by code_simp+
  have "finish_once True (store_result (handle WFT_STATE_SUCCESS 0 demo_w5)) = Some (True, demo_w6)"
    using last by (auto simp: after_reply_def demo_w6_def)
  from task_step.Reply [OF prod.collapse [symmetric] _ this, of demo_w4 "Plain Msg_UserReq" "Some demo_started"]
  show ?thesis using deliver_put(3) by (simp add: demo_w5_def auth)
qed

lemma demo_step_reuse:
  "task_step \<lparr>rn_world = demo_w6, rn_phase = Done, rn_auth = Some demo_started\<rparr>
    \<lparr>rn_world = demo_w7, rn_phase = Idle, rn_auth = Some demo_started\<rparr>"
proof -
  have alive: "tk_state (w_task demo_w6) = WFT_STATE_SUCCESS" "keep_alive_timeout (w_task demo_w6) \<noteq> 0"
    and ssl: "tk_is_ssl demo_task = tk_is_ssl (w_task demo_w6)"
    by code_simp+
  have "fresh_task demo_task" by (simp add: fresh_task_def demo_task_def new_task_def)
  from task_step.Reuse [OF alive this ssl, of "Some demo_started" None] show ?thesis by (simp add: demo_w7_def)
qed

lemmas demo_steps = task_step.Send [OF demo_out(1)] demo_step_startup task_step.Send [OF demo_out(2)]
  demo_step_answer demo_step_reuse

lemma demo_request:
  "reachable \<lparr>rn_world = demo_w4, rn_phase = Waiting (Plain Msg_UserReq), rn_auth = Some demo_started\<rparr>"
  by (intro reachable.Step [OF _ demo_steps(3)] reachable.Step [OF _ demo_steps(2)]
      reachable.Step [OF _ demo_steps(1)] demo_start)

end
