(* ===== verification/Retry.thy ===== *)
theory Retry
  imports Session_Run
begin

section \<open>A task that is tried again\<close>

text \<open>
  A pooled task is created with a number of retries: when an attempt fails in the transport, the
  framework gives the same task object another connection. It resets the response and the state it
  owns itself; the members of \<open>ComplexPostgresTask\<close> stay as they are. \<open>retried\<close> is that second
  start. The startup request can be sent again, but the startup response is not cleared: it reads
  the stream of the new connection as if it went on where the lost one broke off.
\<close>

definition retried :: "world \<Rightarrow> world" where
  "retried w =
     plain_start ((w_task w)\<lparr>tk_resp := new_response, tk_state := WFT_STATE_UNDEFINED, tk_error := 0\<rparr>)
       (w_target w) (w_handle w)"

text \<open>The startup response as \<open>message_in\<close> creates it.\<close>

definition fresh_startup_resp :: "pg_task \<Rightarrow> pg_response" where
  "fresh_startup_resp tk =
     response_set_is_startup True (response_set_auth (tk_user tk) (tk_pass tk) (clear_buffer new_response))"

subsection \<open>The startup response is kept\<close>

lemma plain_start_in:
  assumes "\<not> tk_is_ssl tk" and "\<not> tk_is_user_request tk"
  shows "message_in (plain_start tk t h) = (Plain Msg_StartupResp,
    plain_start (tk\<lparr>tk_startup_resp := Some (case tk_startup_resp tk of None \<Rightarrow> fresh_startup_resp tk | Some r \<Rightarrow> r)\<rparr>) t h)"
  using assms by (auto simp: message_in_def plain_start_def fresh_startup_resp_def split: option.split)

text \<open>What a failed attempt leaves in the task.\<close>

lemma failed_attempt:
  assumes "\<not> tk_is_user_request tk" and "\<not> rq_is_disconnect (tk_req tk)" and "\<not> rq_is_cancel (tk_req tk)"
  shows "handle WFT_STATE_SYS_ERROR err (plain_start tk t h) = (WFT_STATE_SYS_ERROR, err, plain_start tk t h)"
  using assms by (simp add: handle_def plain_start_def update_route_def)

lemma retried_plain_start:
  "retried (plain_start tk t h) =
     plain_start (tk\<lparr>tk_resp := new_response, tk_state := WFT_STATE_UNDEFINED, tk_error := 0\<rparr>) t h"
  by (simp add: retried_def plain_start_def)

text \<open>
  The second attempt: the startup request goes out again, and the response that receives the answer
  is the one with the bytes of the first.
\<close>

definition attempt :: "pg_task \<Rightarrow> pg_response \<Rightarrow> pg_task" where
  "attempt tk r = (with_startup_req (tk\<lparr>tk_is_user_request := False\<rparr>))\<lparr>tk_startup_resp := Some r\<rparr>"

lemma first_attempt:
  assumes "fresh_task tk" and "\<not> tk_is_ssl tk" and "\<not> rq_is_cancel (tk_req tk)"
  shows "\<exists>w1. message_out (plain_start tk t h) = (Inl (Plain Msg_StartupReq), w1) \<and>
    message_in w1 = (Plain Msg_StartupResp, plain_start (attempt tk (fresh_startup_resp tk)) t h)"
  using assms
  by (simp add: plain_first_out plain_start_in with_startup_req_def fresh_task_def fresh_startup_resp_def attempt_def)

lemma second_attempt:
  assumes "fresh_task tk" and "\<not> tk_is_ssl tk" and "\<not> rq_is_cancel (tk_req tk)"
  shows "\<exists>w1 tk2. message_out (retried (plain_start (attempt tk r) t h)) = (Inl (Plain Msg_StartupReq), w1) \<and>
    message_in w1 = (Plain Msg_StartupResp, plain_start tk2 t h) \<and> tk_startup_resp tk2 = Some r \<and>
    tk_resp tk2 = new_response \<and> \<not> tk_is_user_request tk2 \<and> \<not> tk_is_ssl tk2"
  using assms
  by (simp add: retried_plain_start plain_first_out plain_start_in with_startup_req_def fresh_task_def attempt_def)
    (rule exI, rule conjI, rule refl, simp)

text \<open>The whole way: what the retried task makes of the new stream is what the lost bytes make of it.\<close>

lemma retry_continues:
  assumes "fresh_task tk" and "\<not> tk_is_ssl tk" and "\<not> rq_is_cancel (tk_req tk)" and "\<not> rq_is_disconnect (tk_req tk)"
    and "response_append ossl (fresh_startup_resp tk) lost = Some (0, n, r)"
  shows "\<exists>w1 w2 w3 w4 w5 tk2.
    message_out (plain_start tk t h) = (Inl (Plain Msg_StartupReq), w1) \<and> message_in w1 = (Plain Msg_StartupResp, w2) \<and>
    tk_startup_resp (w_task w2) = Some (fresh_startup_resp tk) \<and>
    handle WFT_STATE_SYS_ERROR err (put_startup r w2) = (WFT_STATE_SYS_ERROR, err, w3) \<and>
    message_out (retried w3) = (Inl (Plain Msg_StartupReq), w4) \<and> message_in w4 = (Plain Msg_StartupResp, w5) \<and>
    w5 = plain_start tk2 t h \<and> tk_startup_resp tk2 = Some r \<and> tk_resp tk2 = new_response \<and>
    \<not> tk_is_user_request tk2 \<and> \<not> tk_is_ssl tk2 \<and>
    map_option (\<lambda>(ret, n2, r2). (ret, n + n2, r2)) (response_append ossl r data) =
      response_append ossl (fresh_startup_resp tk) (lost @ data)"
proof -
  obtain w1 where w1: "message_out (plain_start tk t h) = (Inl (Plain Msg_StartupReq), w1)"
      "message_in w1 = (Plain Msg_StartupResp, plain_start (attempt tk (fresh_startup_resp tk)) t h)"
    using first_attempt [OF assms(1-3)] by blast
  have put: "put_startup r (plain_start (attempt tk (fresh_startup_resp tk)) t h) = plain_start (attempt tk r) t h"
    by (simp add: put_startup_def plain_start_def attempt_def)
  have lost: "handle WFT_STATE_SYS_ERROR err (plain_start (attempt tk r) t h) =
      (WFT_STATE_SYS_ERROR, err, plain_start (attempt tk r) t h)"
    using assms(1,3,4) by (intro failed_attempt) (simp_all add: attempt_def with_startup_req_def fresh_task_def)
  obtain w4 tk2 where w4: "message_out (retried (plain_start (attempt tk r) t h)) = (Inl (Plain Msg_StartupReq), w4)"
      "message_in w4 = (Plain Msg_StartupResp, plain_start tk2 t h)" "tk_startup_resp tk2 = Some r"
      "tk_resp tk2 = new_response" "\<not> tk_is_user_request tk2" "\<not> tk_is_ssl tk2"
    using second_attempt [OF assms(1-3)] by blast
  have resp: "tk_startup_resp (w_task (plain_start (attempt tk (fresh_startup_resp tk)) t h)) = Some (fresh_startup_resp tk)"
    by (simp add: plain_start_def attempt_def)
  note w1 w4 [folded put] resp lost [folded put] response_append_append [OF assms(5), symmetric]
  then show ?thesis by blast
qed

subsection \<open>A connection lost in the first frame\<close>

text \<open>
  The server's first message is an authentication request. When the connection breaks right after
  its header, the new server's stream is taken for its payload.
\<close>

definition auth_header :: "nat \<Rightarrow> bytes" where
  "auth_header n = CHR ''R'' # be_bytes 4 (4 + n)"

lemma header_read:
  assumes "0 < n" and "n < 2 ^ 31" and "rs_buf r = []" and "rs_cursor r = 0"
  shows "response_append ossl r (auth_header n) = Some (0, 5, r\<lparr>rs_buf := auth_header n\<rparr>)"
proof -
  define len :: u32 where "len = word_of_nat (4 + n)"
  have "unat (word_of_nat k :: u32) = k" if "k < 2 ^ 32" for k using that by (simp add: unat_of_nat)
  moreover have "4 + n < 2 ^ 32" using assms(2) by simp
  ultimately have num: "unat len = 4 + n" unfolding len_def by blast
  have size: "length (auth_header n) = 5" by (simp add: auth_header_def)
  have word: "read_uint32 (drop 1 (auth_header n)) = len"
    using read_uint32_be_bytes [of "4 + n" "[]"] by (simp add: auth_header_def len_def)
  have "len \<noteq> 0xFFFFFFFF" using num assms(2) by auto
  then have "unat (1 + len) = 5 + n" using num by (simp add: unat_one_plus)
  moreover have "\<not> len < 4" using num by (simp add: word_less_nat_alt)
  ultimately have "next_frame False (auth_header n) 0 = None"
    using assms(1) size word by (simp add: next_frame_def)
  then show ?thesis
    using assms(3,4) size by (simp add: response_append_def append_loop.simps)
qed

lemma auth_type_large:
  assumes "4 \<le> length p" and "p ! 0 = CHR ''R''"
  shows "0x52000000 \<le> unat (read_uint32 p)"
proof -
  obtain q where p: "p = CHR ''R'' # q" using assms by (cases p) auto
  then have "take 4 p = [CHR ''R''] @ take 3 q" by (simp add: numeral_eq_Suc)
  moreover have "length (take 3 q) = 3" using assms(1) p by simp
  ultimately have "be_nat (take 4 p) = 0x52 * 256 ^ 3 + be_nat (take 3 q)"
    by (simp only: be_nat_append) (simp add: be_nat_def)
  then show ?thesis by (simp add: unat_read_uint32)
qed

lemma misread_auth:
  assumes "4 \<le> length p" and "p ! 0 = CHR ''R''" and "rs_auth r \<noteq> None"
  shows "\<exists>r'. receive_msgs ossl r [(CHR ''R'', p)] = (r', True, 5 + length p) \<and> rs_is_error r' \<and>
    rs_internal_error r' = ERR_UNSUPPORTED_AUTH"
proof -
  have far: "read_uint32 p \<noteq> w" if "unat w < 0x52000000" for w using auth_type_large [OF assms(1,2)] that by auto
  have no: "read_uint32 p \<noteq> 0" "read_uint32 p \<noteq> 3" "read_uint32 p \<noteq> 5" "read_uint32 p \<noteq> 10"
    "read_uint32 p \<noteq> 11" "read_uint32 p \<noteq> 12"
    by (rule far, simp)+
  obtain ret r' where "process_auth_request ossl p r = (ret, r')" by force
  with no assms(1) have ret: "process_auth_request ossl p r = (-1, r')" "rs_is_error r'" "rs_internal_error r' = ERR_UNSUPPORTED_AUTH"
    by (auto simp: process_auth_request_def set_internal_error_def set_error_fatal_def Let_def)
  then show ?thesis
    using assms(3) by (auto simp: append_event_def event_type_def with_data_Some)
qed

text \<open>
  A server that the first attempt would have started a session with; the retried task takes its
  stream for an unknown authentication request and fails.
\<close>

lemma retry_misreads:
  assumes "fresh_task tk" and "\<not> tk_is_ssl tk" and "\<not> rq_is_cancel (tk_req tk)" and "\<not> rq_is_disconnect (tk_req tk)"
    and "4 \<le> n" and "n \<le> length data" and "length data < 2 ^ 31" and "data ! 0 = CHR ''R''"
  shows "\<exists>w1 w2 r w3 w4 w5 n2 r2 w6.
    message_out (plain_start tk t h) = (Inl (Plain Msg_StartupReq), w1) \<and> message_in w1 = (Plain Msg_StartupResp, w2) \<and>
    tk_startup_resp (w_task w2) = Some (fresh_startup_resp tk) \<and>
    response_append ossl (fresh_startup_resp tk) (auth_header n) = Some (0, 5, r) \<and>
    handle WFT_STATE_SYS_ERROR err (put_startup r w2) = (WFT_STATE_SYS_ERROR, err, w3) \<and>
    message_out (retried w3) = (Inl (Plain Msg_StartupReq), w4) \<and> message_in w4 = (Plain Msg_StartupResp, w5) \<and>
    tk_startup_resp (w_task w5) = Some r \<and> response_append ossl r data = Some (1, n2, r2) \<and>
    after_reply (put_startup r2 w5) = Some (True, w6) \<and>
    tk_state (w_task w6) = WFT_STATE_TASK_ERROR \<and> tk_error (w_task w6) = ERR_UNSUPPORTED_AUTH"
proof -
  let ?fresh = "fresh_startup_resp tk" and ?p = "take n data"
  have r0: "rs_buf ?fresh = []" "rs_cursor ?fresh = 0" "rs_auth ?fresh \<noteq> None"
    by (simp_all add: fresh_startup_resp_def response_set_is_startup_def response_set_auth_def clear_buffer_def new_response_def)
  let ?r = "?fresh\<lparr>rs_buf := auth_header n\<rparr>"
  have head: "response_append ossl ?fresh (auth_header n) = Some (0, 5, ?r)"
    using header_read [OF _ _ r0(1,2)] assms(5-7) by simp
  obtain w1 w2 w3 w4 w5 tk2 where att: "message_out (plain_start tk t h) = (Inl (Plain Msg_StartupReq), w1)"
      "message_in w1 = (Plain Msg_StartupResp, w2)" "tk_startup_resp (w_task w2) = Some ?fresh"
      "handle WFT_STATE_SYS_ERROR err (put_startup ?r w2) = (WFT_STATE_SYS_ERROR, err, w3)"
      "message_out (retried w3) = (Inl (Plain Msg_StartupReq), w4)" "message_in w4 = (Plain Msg_StartupResp, w5)"
      "w5 = plain_start tk2 t h" "tk_startup_resp tk2 = Some ?r" "tk_resp tk2 = new_response"
      "\<not> tk_is_user_request tk2" "\<not> tk_is_ssl tk2"
      "map_option (\<lambda>(ret, n2, r2). (ret, 5 + n2, r2)) (response_append ossl ?r data) =
        response_append ossl ?fresh (auth_header n @ data)"
    using retry_continues [OF assms(1-4) head] by blast
  obtain r' where r': "receive_msgs ossl ?fresh [(CHR ''R'', ?p)] = (r', True, 5 + length ?p)" "rs_is_error r'"
      "rs_internal_error r' = ERR_UNSUPPORTED_AUTH"
    using misread_auth [of ?p, OF _ _ r0(3)] assms(5,6,8) by auto
  have small: "small_msgs [(CHR ''R'', ?p)]" using assms(6,7) by (simp add: small_msgs_def)
  have stream: "auth_header n @ data = encode_msgs [(CHR ''R'', ?p)] @ drop n data"
    using assms(6) by (simp add: auth_header_def encode_frame_def min_absorb2)
  have "\<exists>k r2. response_append ossl ?fresh (auth_header n @ data) = Some (1, k, r2) \<and> rs_is_error r2 \<and>
      rs_internal_error r2 = ERR_UNSUPPORTED_AUTH"
    unfolding stream using response_append_receive [OF small _ r'(1), of "drop n data"] r0 r'(2,3)
    by (simp add: at_pos_def)
  then obtain n2 r2 where r2: "response_append ossl ?r data = Some (1, n2, r2)" "rs_is_error r2"
      "rs_internal_error r2 = ERR_UNSUPPORTED_AUTH"
    using att(12) by (cases "response_append ossl ?r data") (auto split: prod.splits)
  have code: "ERR_UNSUPPORTED_AUTH \<noteq> 0" by (simp add: ERR_UNSUPPORTED_AUTH_def ERR_BASE_def)
  have "\<exists>w6. after_reply (put_startup r2 w5) = Some (True, w6) \<and>
      tk_state (w_task w6) = WFT_STATE_TASK_ERROR \<and> tk_error (w_task w6) = ERR_UNSUPPORTED_AUTH"
    using att(7-11) r2(2,3) code
    by (simp add: after_reply_def put_startup_def plain_start_def handle_def update_route_def store_result_def
        new_response_def finish_once_def finish_startup_def handle_startup_auth_completion_def startup_error_code_def
        set_failure_def Let_def)
  moreover have "tk_startup_resp (w_task w5) = Some ?r" using att(7,8) by (simp add: plain_start_def)
  ultimately show ?thesis using att(1-6) head r2(1) by blast
qed

end
