(* ===== verification/Cell.thy ===== *)
theory Cell
  imports Parser C_Stdlib
begin

section \<open>Cells and their conversions: src/protocol/PostgresResult.cc\<close>

text \<open>
  A \<open>PostgresCell\<close> (include/PostgresResult.h) points at its bytes: in the response buffer, in
  its own storage once it is detached, or nowhere. \<open>cell_bytes buf c\<close> reads them, and is
  \<open>None\<close> when the range leaves the memory it points into. The column description is an
  entry of the cursor's \<open>fields_\<close> vector \<open>flds\<close>; an index outside it is a dangling pointer.

  The conversions take the buffer, the fields and the cell. Their result is \<open>None\<close> for an
  access outside the memory, and otherwise the value with the value \<open>errno\<close> is set to, if the
  call sets it. Integers are kept at their width. The elements of an array are cells whose
  offsets are into the memory of the array cell (\<open>cell_mem\<close>).
\<close>

subsection \<open>Memory\<close>

definition cell_mem :: "bytes \<Rightarrow> pg_cell \<Rightarrow> bytes" where
  "cell_mem buf c = (case cl_data c of InStorage \<Rightarrow> cl_storage c | _ \<Rightarrow> buf)"

definition cell_off :: "pg_cell \<Rightarrow> nat" where
  "cell_off c = (case cl_data c of InBuf off \<Rightarrow> off | _ \<Rightarrow> 0)"

definition cell_bytes :: "bytes \<Rightarrow> pg_cell \<Rightarrow> bytes option" where
  "cell_bytes buf c =
     (if cl_length c = 0 then Some []
      else if cl_data c = NullPtr then None
      else if cell_off c + cl_length c \<le> length (cell_mem buf c)
        then Some (take (cl_length c) (drop (cell_off c) (cell_mem buf c)))
      else None)"

definition cell_binary :: "pg_field list \<Rightarrow> pg_cell \<Rightarrow> bool option" where
  "cell_binary flds c =
     (case cl_field c of
        None \<Rightarrow> Some False
      | Some i \<Rightarrow> if i < length flds then Some (fd_format (flds ! i) = 1) else None)"

definition with_cell ::
  "bytes \<Rightarrow> pg_field list \<Rightarrow> pg_cell \<Rightarrow> (bool \<Rightarrow> bytes \<Rightarrow> 'a option) \<Rightarrow> 'a option" where
  "with_cell buf flds c f =
     (case cell_binary flds c of
        None \<Rightarrow> None
      | Some binary \<Rightarrow> (case cell_bytes buf c of None \<Rightarrow> None | Some d \<Rightarrow> f binary d))"

subsection \<open>Construction, moves and detaching\<close>

definition empty_cell :: pg_cell where
  "empty_cell = mk_cell NullPtr 0 True None"

definition copy_cell :: "pg_cell \<Rightarrow> pg_cell" where
  "copy_cell other =
     \<lparr>cl_data = (if cl_storage other \<noteq> [] then InStorage else cl_data other),
      cl_length = cl_length other, cl_is_null = cl_is_null other, cl_field = cl_field other,
      cl_storage = cl_storage other\<rparr>"

definition move_cell :: "pg_cell \<Rightarrow> pg_cell \<times> pg_cell" where
  "move_cell other =
     (copy_cell other, other\<lparr>cl_data := NullPtr, cl_length := 0, cl_is_null := True, cl_storage := []\<rparr>)"

text \<open>\<open>None\<close>: the bytes to copy are not in the memory the cell points into.\<close>

definition detach :: "bytes \<Rightarrow> pg_cell \<Rightarrow> pg_cell option" where
  "detach buf c =
     (if \<not> cl_is_null c \<and> cl_data c \<noteq> NullPtr \<and> cl_storage c = [] \<and> cl_length c > 0
      then map_option (\<lambda>d. c\<lparr>cl_storage := d, cl_data := InStorage\<rparr>) (cell_bytes buf c)
      else Some c)"

definition is_detached :: "pg_cell \<Rightarrow> bool" where
  "is_detached c \<longleftrightarrow> cl_storage c \<noteq> []"

subsection \<open>Booleans, integers, strings\<close>

definition as_bool :: "bytes \<Rightarrow> pg_field list \<Rightarrow> pg_cell \<Rightarrow> bool option" where
  "as_bool buf flds c =
     (if cl_is_null c \<or> cl_length c = 0 then Some False
      else with_cell buf flds c (\<lambda>binary d.
        if binary then Some (d ! 0 \<noteq> NUL)
        else Some (d ! 0 \<in> {CHR ''t'', CHR ''T'', CHR ''1'', CHR ''y'', CHR ''Y''})))"

definition text_to_int :: "bytes \<Rightarrow> i64 \<times> int option" where
  "text_to_int d =
     (let tmp = c_str d; (val, end, err) = strtoll tmp
      in (word_of_int val, if end \<noteq> [] then Some EINVAL else err))"

definition as_int :: "bytes \<Rightarrow> pg_field list \<Rightarrow> pg_cell \<Rightarrow> (i64 \<times> int option) option" where
  "as_int buf flds c =
     (if cl_is_null c \<or> cl_length c = 0 then Some (0, None)
      else with_cell buf flds c (\<lambda>binary d.
        if binary then
          (if cl_length c = 2 then Some (ucast (read_uint16 d), None)
           else if cl_length c = 4 then Some (scast (read_uint32 d), None)
           else if cl_length c = 8 then Some (read_uint64 d, None)
           else Some (0, Some EINVAL))
        else Some (text_to_int d)))"

definition as_bigint :: "bytes \<Rightarrow> pg_field list \<Rightarrow> pg_cell \<Rightarrow> (i64 \<times> int option) option" where
  "as_bigint buf flds c =
     (if cl_is_null c then Some (0, None)
      else with_cell buf flds c (\<lambda>binary d.
        if binary then
          (if cl_length c \<noteq> 8 then Some (0, Some EINVAL) else Some (read_uint64 d, None))
        else Some (text_to_int d)))"

text \<open>
  A floating point number is its bit pattern; \<open>strtod\<close> and \<open>strtof\<close> of the C library are parameters.
\<close>

definition as_double ::
  "(bytes \<Rightarrow> u64 \<times> bytes \<times> int option) \<Rightarrow> bytes \<Rightarrow> pg_field list \<Rightarrow> pg_cell \<Rightarrow> (u64 \<times> int option) option" where
  "as_double strtod buf flds c =
     (if cl_is_null c then Some (0, None)
      else with_cell buf flds c (\<lambda>binary d.
        if binary then
          (if cl_length c \<noteq> 8 then Some (0, Some EINVAL) else Some (read_uint64 d, None))
        else
          let (val, rest, err) = strtod (c_str d)
          in Some (val, if rest \<noteq> [] then Some EINVAL else err)))"

definition as_float ::
  "(bytes \<Rightarrow> u32 \<times> bytes \<times> int option) \<Rightarrow> bytes \<Rightarrow> pg_field list \<Rightarrow> pg_cell \<Rightarrow> (u32 \<times> int option) option" where
  "as_float strtof buf flds c =
     (if cl_is_null c then Some (0, None)
      else with_cell buf flds c (\<lambda>binary d.
        if binary then
          (if cl_length c \<noteq> 4 then Some (0, Some EINVAL) else Some (read_uint32 d, None))
        else
          let (val, rest, err) = strtof (c_str d)
          in Some (val, if rest \<noteq> [] then Some EINVAL else err)))"

definition as_string :: "bytes \<Rightarrow> pg_cell \<Rightarrow> bytes option" where
  "as_string buf c = (if cl_is_null c then Some [] else cell_bytes buf c)"

definition as_jsonb_string :: "bytes \<Rightarrow> pg_field list \<Rightarrow> pg_cell \<Rightarrow> bytes option" where
  "as_jsonb_string buf flds c =
     (if cl_is_null c \<or> cl_length c = 0 then Some []
      else with_cell buf flds c (\<lambda>binary d.
        if binary \<and> d ! 0 = CHR 0x01 then Some (tl d) else Some d))"

definition uuid_text :: "bytes \<Rightarrow> bytes" where
  "uuid_text u =
     hex_bytes (take 4 u) @ ''-'' @ hex_bytes (take 2 (drop 4 u)) @ ''-'' @
     hex_bytes (take 2 (drop 6 u)) @ ''-'' @ hex_bytes (take 2 (drop 8 u)) @ ''-'' @
     hex_bytes (take 6 (drop 10 u))"

definition as_uuid_string :: "bytes \<Rightarrow> pg_field list \<Rightarrow> pg_cell \<Rightarrow> bytes option" where
  "as_uuid_string buf flds c =
     (if cl_is_null c then Some []
      else with_cell buf flds c (\<lambda>binary d.
        if binary then (if cl_length c \<noteq> 16 then Some [] else Some (uuid_text d)) else Some d))"

subsection \<open>Byte strings\<close>

definition hex_val :: "char \<Rightarrow> nat" where
  "hex_val c =
     (let n = of_char c :: nat in
      if 48 \<le> n \<and> n \<le> 57 then n - 48
      else if 97 \<le> n \<and> n \<le> 102 then n - 97 + 10
      else if 65 \<le> n \<and> n \<le> 70 then n - 65 + 10
      else 0)"

fun hex_pairs :: "bytes \<Rightarrow> bytes" where
  "hex_pairs (a # b # cs) = char_of (hex_val a * 16 + hex_val b) # hex_pairs cs"
| "hex_pairs _ = []"

definition as_bytea :: "bytes \<Rightarrow> pg_field list \<Rightarrow> pg_cell \<Rightarrow> bytes option" where
  "as_bytea buf flds c =
     (if cl_is_null c \<or> cl_length c = 0 \<or> cl_data c = NullPtr then Some []
      else with_cell buf flds c (\<lambda>binary str.
        if binary then Some str
        else if cl_length c \<ge> 2 \<and> str ! 0 = CHR 0x5C \<and> (str ! 1 = CHR ''x'' \<or> str ! 1 = CHR ''X'')
          then Some (hex_pairs (drop 2 str))
        else Some str))"

subsection \<open>Arrays\<close>

text \<open>
  The loop over the elements: \<open>p\<close> is the read position and \<open>e\<close> the end of the cell, both
  offsets in the memory \<open>mem\<close>.
\<close>

fun array_elements :: "nat \<Rightarrow> bytes \<Rightarrow> nat \<Rightarrow> nat \<Rightarrow> nat option \<Rightarrow> pg_cell list" where
  "array_elements 0 mem p e field = []"
| "array_elements (Suc n) mem p e field =
     (if p + 4 > e then []
      else let elem_len = sint (read_int32 (drop p mem)); q = p + 4 in
        if elem_len = -1 then mk_cell NullPtr 0 True field # array_elements n mem q e field
        else if elem_len \<ge> 0 then
          (if e - q < nat elem_len then []
           else mk_cell (InBuf q) (nat elem_len) False field #
                  array_elements n mem (q + nat elem_len) e field)
        else [])"

text \<open>
  \<open>12 + 8 * ndim\<close> is an \<open>int\<close>, compared with a \<open>size_t\<close>: an overflow is undefined, and a
  negative value is a huge size. The two dimension words are read before anything checks that
  they are inside the cell; reading them past the end of the memory is undefined.
\<close>

definition as_array :: "bytes \<Rightarrow> pg_field list \<Rightarrow> pg_cell \<Rightarrow> pg_cell list option" where
  "as_array buf flds c =
     (if cl_is_null c \<or> cl_length c < 12 then Some []
      else with_cell buf flds c (\<lambda>binary d.
        if \<not> binary then Some []
        else
          let ndim = sint (read_int32 d); mem = cell_mem buf c; off = cell_off c;
              need = 12 + 8 * ndim in
          if ndim = 0 then Some []
          else if need < - (2 ^ 31) \<or> need \<ge> 2 ^ 31 \<or> 8 * ndim < - (2 ^ 31) then None
          else if need < 0 \<or> cl_length c < nat need then Some []
          else if length mem < off + 20 then None
          else let dim_size = sint (read_int32 (drop (off + 12) mem)) in
            Some (array_elements (nat dim_size) mem (off + nat need) (off + cl_length c) (cl_field c))))"

text \<open>The two array conversions map a conversion over the elements.\<close>

fun map_option_list :: "('a \<Rightarrow> 'b option) \<Rightarrow> 'a list \<Rightarrow> 'b list option" where
  "map_option_list f [] = Some []"
| "map_option_list f (x # xs) =
     (case f x of None \<Rightarrow> None | Some y \<Rightarrow> map_option ((#) y) (map_option_list f xs))"

definition as_string_array :: "bytes \<Rightarrow> pg_field list \<Rightarrow> pg_cell \<Rightarrow> bytes list option" where
  "as_string_array buf flds c =
     (case as_array buf flds c of
        None \<Rightarrow> None
      | Some cells \<Rightarrow> map_option_list (as_string (cell_mem buf c)) cells)"

definition as_bigint_array :: "bytes \<Rightarrow> pg_field list \<Rightarrow> pg_cell \<Rightarrow> i64 list option" where
  "as_bigint_array buf flds c =
     (case as_array buf flds c of
        None \<Rightarrow> None
      | Some cells \<Rightarrow>
          map_option_list (\<lambda>e. map_option fst (as_bigint (cell_mem buf c) flds e)) cells)"

lemmas cell_defs [step_defs] =
  as_bool_def as_int_def as_bigint_def as_string_def as_jsonb_string_def as_uuid_string_def
  as_bytea_def as_array_def as_string_array_def as_bigint_array_def


subsection \<open>Where a cell lies\<close>

lemma with_cell_Some:
  "cell_binary flds c = Some binary \<Longrightarrow> cell_bytes buf c = Some d \<Longrightarrow> with_cell buf flds c f = f binary d"
  by (simp add: with_cell_def)

lemma cell_bytes_length: "cell_bytes buf c = Some d \<Longrightarrow> length d = cl_length c"
  by (auto simp: cell_bytes_def split: if_splits)

text \<open>A cell of the row decoder: its bytes are the column's value.\<close>

definition value_cell :: "nat \<Rightarrow> nat \<Rightarrow> bytes option \<Rightarrow> pg_cell" where
  "value_cell off i v =
     (case v of
        None \<Rightarrow> mk_cell NullPtr 0 True (Some i)
      | Some b \<Rightarrow> mk_cell (InBuf off) (length b) False (Some i))"

lemma cell_bytes_value:
  "cell_bytes (pre @ b @ rest) (value_cell (length pre) i (Some b)) = Some b"
  by (simp add: value_cell_def cell_bytes_def mk_cell_def cell_off_def cell_mem_def)

subsection \<open>Detached cells\<close>

definition wf_cell :: "pg_cell \<Rightarrow> bool" where
  "wf_cell c \<longleftrightarrow> (cl_storage c \<noteq> [] \<longrightarrow> cl_data c = InStorage) \<and>
     (cl_data c = InStorage \<longrightarrow> cl_length c \<le> length (cl_storage c)) \<and>
     (cl_data c = NullPtr \<longrightarrow> cl_is_null c \<and> cl_length c = 0)"

lemma wf_mk_cell: "data \<noteq> InStorage \<Longrightarrow> (data = NullPtr \<Longrightarrow> is_null \<and> len = 0) \<Longrightarrow> wf_cell (mk_cell data len is_null field)"
  by (simp add: wf_cell_def mk_cell_def)

lemma copy_cell_id: "wf_cell c \<Longrightarrow> copy_cell c = c"
  by (auto simp: copy_cell_def wf_cell_def)

lemma detach_wf:
  assumes "wf_cell c" and "detach buf c = Some c'"
  shows "wf_cell c'" and "detach buf' c' = Some c'"
  using assms
  by (auto simp: detach_def wf_cell_def dest!: cell_bytes_length split: if_splits)

lemma detach_bytes:
  assumes "wf_cell c" and "detach buf c = Some c'" and "\<not> cl_is_null c"
  shows "cell_bytes buf' c' = cell_bytes buf c"
proof (cases "cl_length c > 0 \<and> cl_storage c = []")
  case True
  then have "cl_data c \<noteq> NullPtr" using assms(1,3) by (auto simp: wf_cell_def)
  with True assms obtain d where d: "cell_bytes buf c = Some d"
    and c': "c' = c\<lparr>cl_storage := d, cl_data := InStorage\<rparr>"
    by (auto simp: detach_def)
  from True d cell_bytes_length [OF d] show ?thesis
    by (simp add: d c') (simp add: cell_bytes_def cell_mem_def cell_off_def)
next
  case False
  then have "c' = c" using assms(2) by (auto simp: detach_def)
  moreover have "cl_length c = 0 \<or> cl_data c = InStorage"
    using False assms(1) by (auto simp: wf_cell_def)
  ultimately show ?thesis by (auto simp: cell_bytes_def cell_mem_def)
qed

lemma detach_frame:
  assumes "detach buf c = Some c'"
  shows "cl_is_null c' = cl_is_null c" and "cl_length c' = cl_length c" and "cl_field c' = cl_field c"
    and "cl_data c' = NullPtr \<longleftrightarrow> cl_data c = NullPtr"
  using assms by (auto simp: detach_def split: if_splits)

text \<open>The conversions of a detached cell do not depend on the response buffer.\<close>

lemma with_cell_detach:
  assumes "wf_cell c" and "detach buf c = Some c'" and "\<not> cl_is_null c"
  shows "with_cell buf' flds c' f = with_cell buf flds c f"
  using detach_bytes [OF assms] detach_frame [OF assms(2)]
  by (simp add: with_cell_def cell_binary_def split: option.split)

lemma detach_conversions:
  assumes "wf_cell c" and "detach buf c = Some c'"
  shows "as_bool buf' flds c' = as_bool buf flds c"
    and "as_int buf' flds c' = as_int buf flds c"
    and "as_bigint buf' flds c' = as_bigint buf flds c"
    and "as_string buf' c' = as_string buf c"
    and "as_jsonb_string buf' flds c' = as_jsonb_string buf flds c"
    and "as_uuid_string buf' flds c' = as_uuid_string buf flds c"
    and "as_bytea buf' flds c' = as_bytea buf flds c"
    and "as_double strtod buf' flds c' = as_double strtod buf flds c"
    and "as_float strtof buf' flds c' = as_float strtof buf flds c"
  using detach_frame [OF assms(2)]
  by (simp_all add: as_bool_def as_int_def as_bigint_def as_string_def as_jsonb_string_def
      as_uuid_string_def as_bytea_def as_double_def as_float_def with_cell_detach [OF assms] detach_bytes [OF assms]
      cong: if_cong)

subsection \<open>Integers\<close>

lemma text_to_int_to_string:
  fixes v :: i64
  shows "text_to_int (to_string (sint v)) = (v, None)"
proof -
  have "- (2 ^ 63) \<le> sint v" "sint v < 2 ^ 63"
    using sint_greater_eq [of v] sint_less [of v] by simp_all
  then have "strtoll (to_string (sint v)) = (sint v, [], None)" by (rule strtoll_to_string)
  then show ?thesis by (simp add: text_to_int_def c_str_id to_string_no_NUL)
qed

lemma as_int_binary:
  assumes "cell_binary flds c = Some True" and "\<not> cl_is_null c"
  shows "cell_bytes buf c = Some (be_bytes 2 (unat (v2 :: i16))) \<Longrightarrow>
      as_int buf flds c = Some (ucast v2, None)"
    and "cell_bytes buf c = Some (be_bytes 4 (unat (v4 :: i32))) \<Longrightarrow>
      as_int buf flds c = Some (scast v4, None)"
    and "cell_bytes buf c = Some (be_bytes 8 (unat (v8 :: i64))) \<Longrightarrow>
      as_int buf flds c = Some (v8, None) \<and> as_bigint buf flds c = Some (v8, None)"
  using assms read_uint16_be_bytes [of _ "[]"] read_uint32_be_bytes [of _ "[]"]
    read_uint64_be_bytes [of _ "[]"]
  by (auto simp: as_int_def as_bigint_def with_cell_Some dest!: cell_bytes_length)

text \<open>A negative two-byte integer is read as if it had no sign.\<close>

lemma sint_ucast16:
  fixes v :: i16
  shows "sint (ucast v :: i64) = uint v"
  using uint_lt2p [of v]
  by (simp add: signed_ucast_eq signed_take_bit_int_eq_self_iff) (rule order_trans [of _ 0]; simp)

lemma uint_eq_sint16:
  fixes v :: i16
  shows "uint v = sint v \<longleftrightarrow> 0 \<le> sint v"
  using uint_sint [of v] sint_less [of v] by (auto simp: take_bit_int_eq_self_iff)


subsection \<open>Byte strings\<close>

lemma hex_val_digit: "n < 16 \<Longrightarrow> hex_val (hex_digit n) = n"
proof -
  have "list_all (\<lambda>n. hex_val (hex_digit n) = n) [0..<16]" by code_simp
  then show "n < 16 \<Longrightarrow> hex_val (hex_digit n) = n" by (simp add: list_all_iff)
qed

lemma hex_pairs_hex_bytes: "hex_pairs (hex_bytes bs) = bs"
proof (induction bs)
  case (Cons b bs)
  let ?n = "of_char b :: nat"
  have n: "?n < 256" by (rule nat_of_char_less_256)
  have "hex_digit ?n = hex_digit (?n mod 16)" by (simp add: hex_digit_def)
  then have "hex_val (hex_digit (?n div 16)) = ?n div 16" "hex_val (hex_digit ?n) = ?n mod 16"
    using n by (simp_all add: hex_val_digit less_mult_imp_div_less)
  with Cons show ?case by (simp add: hex_bytes_def hex_byte_def)
qed (simp add: hex_bytes_def)

lemma as_bytea_hex:
  assumes "cell_binary flds c = Some False" and "\<not> cl_is_null c"
    and "cell_bytes buf c = Some (CHR 0x5C # CHR ''x'' # hex_bytes bs)"
  shows "as_bytea buf flds c = Some bs"
proof -
  have "cl_length c = 2 + length (hex_bytes bs)" using cell_bytes_length [OF assms(3)] by simp
  moreover have "cl_data c \<noteq> NullPtr" using assms(3) by (auto simp: cell_bytes_def split: if_splits)
  ultimately show ?thesis
    using assms by (simp add: as_bytea_def with_cell_Some hex_pairs_hex_bytes)
qed

subsection \<open>Arrays\<close>

lemma array_elements_within:
  assumes "c \<in> set (array_elements n mem p e field)"
  shows "cl_data c = NullPtr \<and> cl_is_null c \<and> cl_length c = 0 \<or>
    (\<exists>q. cl_data c = InBuf q \<and> p + 4 \<le> q \<and> q + cl_length c \<le> e)"
  using assms
proof (induction n mem p e field rule: array_elements.induct)
  case (2 n mem p e field)
  let ?len = "sint (read_int32 (drop p mem))"
  consider "c = mk_cell NullPtr 0 True field"
    | "p + 4 \<le> e" "?len = -1" "c \<in> set (array_elements n mem (p + 4) e field)"
    | "p + 4 \<le> e" "?len \<ge> 0" "nat ?len \<le> e - (p + 4)"
      "c = mk_cell (InBuf (p + 4)) (nat ?len) False field"
    | "p + 4 \<le> e" "?len \<noteq> -1" "?len \<ge> 0" "nat ?len \<le> e - (p + 4)"
      "c \<in> set (array_elements n mem (p + 4 + nat ?len) e field)"
    using "2.prems" by (auto simp: Let_def split: if_splits)
  then show ?case
  proof cases
    case 2
    then have "\<not> p + 4 > e" by simp
    from "2.IH"(1) [OF this refl refl 2(2,3)] show ?thesis by auto
  next
    case 4
    then have "\<not> p + 4 > e" "\<not> e - (p + 4) < nat ?len" by simp_all
    from "2.IH"(2) [OF this(1) refl refl 4(2,3) this(2) 4(5)] show ?thesis by auto
  qed (auto simp: mk_cell_def)
qed simp

text \<open>The dimension count the guard is meant for.\<close>

definition array_ndim :: "bytes \<Rightarrow> pg_cell \<Rightarrow> int" where
  "array_ndim buf c = (case cell_bytes buf c of None \<Rightarrow> 0 | Some d \<Rightarrow> sint (read_int32 d))"

lemma as_array_within:
  assumes "cell_bytes buf c = Some d" and "cell_binary flds c = Some binary"
    and "0 \<le> array_ndim buf c" and "array_ndim buf c < 2 ^ 28 - 2"
  shows "\<exists>cells. as_array buf flds c = Some cells \<and>
    (\<forall>e \<in> set cells. cl_data e = NullPtr \<and> cl_is_null e \<and> cl_length e = 0 \<or>
       (\<exists>q. cl_data e = InBuf q \<and> cell_off c + 20 \<le> q \<and>
            q + cl_length e \<le> cell_off c + cl_length c))"
proof (cases "cl_is_null c \<or> cl_length c < 12 \<or> \<not> binary \<or> array_ndim buf c = 0 \<or>
    cl_length c < nat (12 + 8 * array_ndim buf c)")
  case True
  then have "as_array buf flds c = Some []"
    using assms by (auto simp: as_array_def with_cell_Some Let_def array_ndim_def)
  then show ?thesis by simp
next
  case False
  let ?need = "12 + 8 * array_ndim buf c"
  from False have n: "1 \<le> array_ndim buf c" using assms(3) by simp
  then have len: "20 \<le> cl_length c" using False by linarith
  then have mem: "cell_off c + cl_length c \<le> length (cell_mem buf c)"
    using assms(1) by (auto simp: cell_bytes_def split: if_splits)
  define cells where "cells = array_elements (nat (sint (read_int32 (drop (cell_off c + 12) (cell_mem buf c)))))
      (cell_mem buf c) (cell_off c + nat ?need) (cell_off c + cl_length c) (cl_field c)"
  have "as_array buf flds c = Some cells"
    using False assms n mem len
    by (simp add: as_array_def with_cell_Some Let_def array_ndim_def cells_def)
  moreover have "cl_data e = NullPtr \<and> cl_is_null e \<and> cl_length e = 0 \<or>
      (\<exists>q. cl_data e = InBuf q \<and> cell_off c + 20 \<le> q \<and> q + cl_length e \<le> cell_off c + cl_length c)"
    if "e \<in> set cells" for e
    using array_elements_within [OF that [unfolded cells_def]] n by fastforce
  ultimately show ?thesis by blast
qed

text \<open>
  The elements of a detached array correspond to those of the original: they lie in the cell's own
  storage, with the same bytes.
\<close>

definition same_element :: "bytes \<Rightarrow> bytes \<Rightarrow> pg_cell \<Rightarrow> pg_cell \<Rightarrow> bool" where
  "same_element mem' mem e' e \<longleftrightarrow> cl_is_null e' = cl_is_null e \<and> cl_length e' = cl_length e \<and>
     cl_field e' = cl_field e \<and> cell_bytes mem' e' = cell_bytes mem e"

lemma same_element_conversions:
  assumes "same_element mem' mem e' e"
  shows "as_string mem' e' = as_string mem e" and "as_bigint mem' flds e' = as_bigint mem flds e"
proof -
  have "with_cell mem' flds e' f = with_cell mem flds e f" for f :: "bool \<Rightarrow> bytes \<Rightarrow> (i64 \<times> int option) option"
    using assms by (simp add: same_element_def with_cell_def cell_binary_def cong: option.case_cong)
  then show "as_string mem' e' = as_string mem e" "as_bigint mem' flds e' = as_bigint mem flds e"
    using assms by (simp_all add: same_element_def as_string_def as_bigint_def cong: if_cong)
qed

lemma map_option_list_same:
  assumes "list_all2 R ys xs" and "\<And>y x. R y x \<Longrightarrow> g y = f x"
  shows "map_option_list g ys = map_option_list f xs"
  using assms(1) by induction (simp_all add: assms(2) cong: option.case_cong)

lemma read_int32_take: "4 \<le> n \<Longrightarrow> read_int32 (take n d) = read_int32 d"
  by (simp add: read_int32_def read_uint32_def min_absorb1)

lemma array_elements_detach:
  assumes "off + e \<le> length mem"
  shows "list_all2 (same_element (take e (drop off mem)) mem)
    (array_elements n (take e (drop off mem)) p e field) (array_elements n mem (off + p) (off + e) field)"
proof (induction n arbitrary: p)
  case (Suc n)
  let ?d = "take e (drop off mem)"
  have word: "read_int32 (drop p ?d) = read_int32 (drop (off + p) mem)" if "p + 4 \<le> e"
    using that read_int32_take [of "e - p" "drop (off + p) mem"] by (simp add: drop_take add.commute)
  have null: "same_element ?d mem (mk_cell NullPtr 0 True field) (mk_cell NullPtr 0 True field)"
    by (simp add: same_element_def mk_cell_def cell_bytes_def)
  have cell: "same_element ?d mem (mk_cell (InBuf (p + 4)) l False field) (mk_cell (InBuf (off + p + 4)) l False field)"
    if "p + 4 + l \<le> e" for l
    using that assms
    by (auto simp: same_element_def mk_cell_def cell_bytes_def cell_off_def cell_mem_def drop_take min_def add_ac)
  show ?case
    using Suc [of "p + 4"] Suc [of "p + 4 + nat (sint (read_int32 (drop (off + p) mem)))"] null
      cell [of "nat (sint (read_int32 (drop (off + p) mem)))"] word
    by (simp add: Let_def add.assoc)
qed simp

text \<open>
  An array of at least one dimension has 20 bytes, so that its words are read in the cell. A count
  of -1 in a shorter cell makes the code read behind the cell, where a detached cell has nothing.
\<close>

lemma detach_arrays:
  assumes "wf_cell c" and "detach buf c = Some c'" and "array_ndim buf c = -1 \<Longrightarrow> 20 \<le> cl_length c"
  shows "rel_option (list_all2 (same_element (cell_mem buf' c') (cell_mem buf c)))
      (as_array buf' flds c') (as_array buf flds c)"
    and "as_string_array buf' flds c' = as_string_array buf flds c"
    and "as_bigint_array buf' flds c' = as_bigint_array buf flds c"
proof -
  show rel: "rel_option (list_all2 (same_element (cell_mem buf' c') (cell_mem buf c)))
      (as_array buf' flds c') (as_array buf flds c)"
  proof (cases "cl_is_null c \<or> cl_length c < 12")
    case True
    with detach_frame [OF assms(2)] show ?thesis by (auto simp: as_array_def)
  next
    case False
    show ?thesis
    proof (cases "cl_data c = InStorage")
      case True
      then have "c' = c" using False assms(1,2) by (auto simp: wf_cell_def detach_def split: if_splits)
      moreover from True have mem: "cell_mem buf' c = cell_mem buf c" by (simp add: cell_mem_def)
      moreover have "cell_bytes buf' c = cell_bytes buf c" by (simp add: cell_bytes_def mem)
      then have "as_array buf' flds c = as_array buf flds c" by (simp only: as_array_def with_cell_def mem)
      ultimately show ?thesis
        by (simp add: option.rel_refl list_all2_refl same_element_def)
    next
      case heap: False
      with False assms(1,2) obtain d where d: "cell_bytes buf c = Some d"
        and c': "c' = c\<lparr>cl_storage := d, cl_data := InStorage\<rparr>"
        by (auto simp: wf_cell_def detach_def split: if_splits)
      from d heap False have len: "cell_off c + cl_length c \<le> length (cell_mem buf c)"
        and d_eq: "d = take (cl_length c) (drop (cell_off c) (cell_mem buf c))"
        by (auto simp: cell_bytes_def split: if_splits)
      have bytes: "cell_bytes buf' c' = Some d" using detach_bytes [OF assms(1,2)] d False by simp
      have same: "cell_mem buf' c' = d" "cell_off c' = 0" "cl_length c' = cl_length c" "cl_field c' = cl_field c"
          "cell_binary flds c' = cell_binary flds c" "cl_is_null c' = cl_is_null c" "length d = cl_length c"
        using len by (simp_all add: c' cell_mem_def cell_off_def cell_binary_def d_eq)
      define mem off n where "mem = cell_mem buf c" and "off = cell_off c" and "n = sint (read_int32 d)"
      have ndim: "n = -1 \<Longrightarrow> 20 \<le> cl_length c" using assms(3) d by (simp add: array_ndim_def n_def)
      have words: "20 \<le> cl_length c" if "n \<noteq> 0" "0 \<le> 12 + 8 * n" "nat (12 + 8 * n) \<le> cl_length c"
        using that ndim by linarith
      have size: "read_int32 (drop 12 d) = read_int32 (drop (off + 12) mem)" if "20 \<le> cl_length c"
        using that read_int32_take [of "cl_length c - 12" "drop (off + 12) mem"]
        by (simp add: d_eq mem_def off_def drop_take add.commute)
      have elems: "list_all2 (same_element d mem) (array_elements k d p (cl_length c) (cl_field c))
          (array_elements k mem (off + p) (off + cl_length c) (cl_field c))" for k p
        using array_elements_detach [OF len] by (simp add: d_eq mem_def off_def)
      show ?thesis
      proof (cases "cell_binary flds c")
        case None
        with False show ?thesis by (simp add: as_array_def with_cell_def same)
      next
        case (Some binary)
        then have "cell_binary flds c' = Some binary" using same by simp
        note run = with_cell_Some [OF this bytes] with_cell_Some [OF Some d]
        show ?thesis
          using False words size elems len
          by (auto simp: as_array_def run same Let_def simp flip: mem_def off_def n_def)
      qed
    qed
  qed
  have "map_option_list (as_string (cell_mem buf' c')) ys = map_option_list (as_string (cell_mem buf c)) xs"
      "map_option_list (\<lambda>e. map_option fst (as_bigint (cell_mem buf' c') flds e)) ys =
       map_option_list (\<lambda>e. map_option fst (as_bigint (cell_mem buf c) flds e)) xs"
    if "list_all2 (same_element (cell_mem buf' c') (cell_mem buf c)) ys xs" for ys xs
    by (rule map_option_list_same [OF that], simp add: same_element_conversions)+
  with rel show "as_string_array buf' flds c' = as_string_array buf flds c"
    "as_bigint_array buf' flds c' = as_bigint_array buf flds c"
    by (auto simp: as_string_array_def as_bigint_array_def split: option.splits)
qed

text \<open>A one-dimensional array as the server sends it.\<close>

definition enc_array :: "nat \<Rightarrow> u32 \<Rightarrow> bytes option list \<Rightarrow> bytes" where
  "enc_array has_null elem_oid elems =
     be_bytes 4 1 @ be_bytes 4 has_null @ be_bytes 4 (unat elem_oid) @
     be_bytes 4 (length elems) @ be_bytes 4 1 @ concat (map enc_value elems)"

fun element_cells :: "nat \<Rightarrow> nat option \<Rightarrow> bytes option list \<Rightarrow> pg_cell list" where
  "element_cells p field [] = []"
| "element_cells p field (None # vals) =
     mk_cell NullPtr 0 True field # element_cells (p + 4) field vals"
| "element_cells p field (Some v # vals) =
     mk_cell (InBuf (p + 4)) (length v) False field # element_cells (p + 4 + length v) field vals"

lemma array_elements_enc:
  assumes "\<forall>v \<in> set vals. length (case v of None \<Rightarrow> [] | Some b \<Rightarrow> b) < 2 ^ 31"
  shows "array_elements (length vals) (pre @ concat (map enc_value vals) @ rest) (length pre)
      (length pre + length (concat (map enc_value vals))) field = element_cells (length pre) field vals"
  using assms
proof (induction vals arbitrary: pre)
  case (Cons v vals)
  let ?mem = "pre @ enc_value v @ concat (map enc_value vals) @ rest"
  have small: "\<forall>v \<in> set vals. length (case v of None \<Rightarrow> [] | Some b \<Rightarrow> b) < 2 ^ 31"
    using Cons.prems by simp
  note IH = Cons.IH [OF small, of "pre @ enc_value v"]
  show ?case
  proof (cases v)
    case None
    have "sint (read_int32 (drop (length pre) ?mem)) = -1"
      by (simp add: None read_int32_def wire_simps)
    with None IH show ?thesis by (simp add: Let_def add.assoc)
  next
    case (Some b)
    with Cons.prems have "sint (read_int32 (drop (length pre) ?mem)) = int (length b)"
      by (simp add: read_int32_def wire_simps sint32_of_nat)
    with Some IH show ?thesis by (simp add: Let_def add.assoc)
  qed
qed simp

lemma element_cells_strings:
  "map_option_list (as_string (pre @ concat (map enc_value vals) @ rest))
     (element_cells (length pre) field vals) = Some (map (\<lambda>v. case v of None \<Rightarrow> [] | Some b \<Rightarrow> b) vals)"
proof (induction vals arbitrary: pre)
  case (Cons v vals)
  from Cons.IH [of "pre @ enc_value v"] show ?case
    by (cases v)
      (auto simp: as_string_def mk_cell_def cell_bytes_def cell_off_def cell_mem_def add.assoc)
qed simp

lemma as_string_array_enc:
  assumes "\<forall>v \<in> set vals. length (case v of None \<Rightarrow> [] | Some b \<Rightarrow> b) < 2 ^ 31"
    and "length vals < 2 ^ 31"
    and "cell_binary flds c = Some True" and "\<not> cl_is_null c"
    and "cl_data c = InBuf (length pre)" and "buf = pre @ enc_array h oid vals @ rest"
    and "cl_length c = length (enc_array h oid vals)"
  shows "as_string_array buf flds c = Some (map (\<lambda>v. case v of None \<Rightarrow> [] | Some b \<Rightarrow> b) vals)"
proof -
  let ?pre = "pre @ be_bytes 4 1 @ be_bytes 4 h @ be_bytes 4 (unat oid) @ be_bytes 4 (length vals) @ be_bytes 4 1"
  let ?vals = "concat (map enc_value vals)"
  have buf: "buf = ?pre @ ?vals @ rest" using assms(6) by (simp add: enc_array_def)
  have len: "cl_length c = 20 + length ?vals" using assms(7) by (simp add: enc_array_def)
  have bytes: "cell_bytes buf c = Some (enc_array h oid vals)"
    using assms(5-7) by (simp add: cell_bytes_def cell_off_def cell_mem_def)
  have pos: "length ?pre = length pre + 20" by simp
  have ndim: "sint (read_int32 (enc_array h oid vals)) = 1"
    by (simp add: enc_array_def read_int32_def wire_simps)
  have size: "sint (read_int32 (drop (length pre + 12) buf)) = int (length vals)"
    using assms(2) by (simp add: assms(6) enc_array_def read_int32_def wire_simps sint32_of_nat)
  have mem: "cell_mem buf c = buf" "cell_off c = length pre"
    using assms(5) by (simp_all add: cell_mem_def cell_off_def)
  have "length pre + 20 \<le> length buf" by (simp add: buf)
  then have "as_array buf flds c = Some (array_elements (length vals) buf (length pre + 20)
      (length pre + cl_length c) (cl_field c))"
    using assms(4) len by (simp add: as_array_def with_cell_Some [OF assms(3) bytes] ndim Let_def mem size)
  also have "array_elements (length vals) buf (length pre + 20) (length pre + cl_length c) (cl_field c) =
      element_cells (length ?pre) (cl_field c) vals"
    using array_elements_enc [OF assms(1), of ?pre rest "cl_field c", folded buf, unfolded pos]
    by (simp only: pos len add.assoc)
  finally show ?thesis
    using element_cells_strings [of ?pre vals rest "cl_field c", folded buf]
    by (simp add: as_string_array_def mem)
qed

text \<open>
  A dimension count of -1 passes the guard (\<open>12 - 8\<close> bytes are needed), and when the cell ends the
  buffer the two words of the dimension are read past its end.
\<close>

lemma as_array_negative_ndim:
  assumes "cell_bytes buf c = Some d" and "cell_binary flds c = Some True" and "\<not> cl_is_null c"
    and "cl_length c = 12" and "sint (read_int32 d) = -1" and "length (cell_mem buf c) = cell_off c + 12"
  shows "as_array buf flds c = None"
  using assms by (simp add: as_array_def with_cell_def Let_def)

end
