(* ===== verification/Cursor.thy ===== *)
theory Cursor
  imports Cell Response
begin

section \<open>The result cursor: src/protocol/PostgresResult.cc\<close>

text \<open>
  \<open>PostgresResultCursor\<close> walks over the result sets in the buffer of a response. \<open>cu_buf\<close> is
  the range \<open>[head_, end_)\<close> and \<open>cu_cursor\<close> the offset of \<open>cursor_\<close> in it; a moved-from
  cursor has the empty range. The loops over frames are \<open>partial_function\<close>s (\<open>None\<close>: the
  call does not return or reads outside the buffer) and interpretations of \<open>frame_loop\<close>; the
  stream's cursor is the code's local variable \<open>offset\<close>, and \<open>cursor_\<close> only follows it where
  the code assigns it.
\<close>

record pg_cursor =
  cu_buf :: bytes
  cu_cursor :: nat
  cu_fields :: "pg_field list"
  cu_command_tag :: bytes
  cu_done :: bool
  cu_owns_resp :: bool
  cu_owned_resp :: pg_response

subsection \<open>Metadata\<close>

definition metadata_body :: "bytes \<Rightarrow> pg_frame \<Rightarrow> nat \<Rightarrow> pg_cursor \<Rightarrow> (pg_cursor, pg_cursor) loop_step" where
  "metadata_body buf fr offset cu =
     (case fr_payload fr of
        None \<Rightarrow> Break (cu\<lparr>cu_cursor := offset\<rparr>)
      | Some _ \<Rightarrow>
          let ev = parse_backend_event fr in
          if ev_type ev = PG_EVENT_ROW_DESCRIPTION then with_data buf ev (\<lambda>d.
            Break (cu\<lparr>cu_fields := snd (parse_row_description d (cu_fields cu)), cu_cursor := offset\<rparr>))
          else if ev_type ev = PG_EVENT_COMMAND_COMPLETE then with_data buf ev (\<lambda>d.
            Break (cu\<lparr>cu_command_tag := parse_command_complete d (cu_command_tag cu),
                      cu_done := True, cu_cursor := offset\<rparr>))
          else if ev_type ev = PG_EVENT_DATA_ROW \<or> ev_type ev = PG_EVENT_COPY_DATA then
            Break (cu\<lparr>cu_cursor := offset - fr_frame_size fr\<rparr>)
          else Continue cu)"

partial_function (option) metadata_loop :: "bytes \<Rightarrow> nat \<Rightarrow> pg_cursor \<Rightarrow> pg_cursor option" where
  "metadata_loop buf c cu =
     (case next_frame False buf c of
        None \<Rightarrow> Some (cu\<lparr>cu_cursor := c\<rparr>)
      | Some (fr, c') \<Rightarrow>
          (case metadata_body buf fr c' cu of
             Continue cu' \<Rightarrow> metadata_loop buf c' cu'
           | Break x \<Rightarrow> Some x
           | Undefined \<Rightarrow> None))"

definition parse_metadata :: "pg_cursor \<Rightarrow> pg_cursor option" where
  "parse_metadata cu =
     metadata_loop (cu_buf cu) (cu_cursor cu) (cu\<lparr>cu_fields := [], cu_command_tag := [], cu_done := False\<rparr>)"

subsection \<open>Construction and moves\<close>

definition cursor_new :: "pg_response \<Rightarrow> pg_cursor option" where
  "cursor_new resp =
     parse_metadata \<lparr>cu_buf = rs_buf resp, cu_cursor = 0, cu_fields = [], cu_command_tag = [],
       cu_done = False, cu_owns_resp = False, cu_owned_resp = new_response\<rparr>"

text \<open>The owning constructor takes the response over; the second component is what it leaves.\<close>

definition cursor_new_owned :: "pg_response \<Rightarrow> pg_cursor option \<times> pg_response" where
  "cursor_new_owned resp =
     (let (owned, moved) = move_response resp in
      (parse_metadata \<lparr>cu_buf = rs_buf owned, cu_cursor = 0, cu_fields = [], cu_command_tag = [],
         cu_done = False, cu_owns_resp = True, cu_owned_resp = owned\<rparr>, moved))"

definition cursor_move :: "pg_cursor \<Rightarrow> pg_cursor \<times> pg_cursor" where
  "cursor_move other =
     (let (owned, moved) = move_response (cu_owned_resp other) in
      (other\<lparr>cu_buf := (if cu_owns_resp other then rs_buf owned else cu_buf other),
             cu_owned_resp := owned\<rparr>,
       other\<lparr>cu_buf := [], cu_cursor := 0, cu_fields := [], cu_command_tag := [],
             cu_owns_resp := False, cu_owned_resp := moved\<rparr>))"

subsection \<open>Rows\<close>

type_synonym fetch_state = "pg_cell list \<times> pg_cursor"
type_synonym fetch_result = "bool \<times> pg_cell list \<times> pg_cursor"

definition fetch_body :: "bytes \<Rightarrow> pg_frame \<Rightarrow> nat \<Rightarrow> fetch_state \<Rightarrow> (fetch_state, fetch_result) loop_step" where
  "fetch_body buf fr offset s =
     (let (row, cu) = s in
      case fr_payload fr of
        None \<Rightarrow> Break (False, row, cu)
      | Some off \<Rightarrow>
          let ev = parse_backend_event fr in
          if ev_type ev = PG_EVENT_DATA_ROW then with_data buf ev (\<lambda>d.
            let (ret, row') = parse_data_row off d [] (cu_fields cu) in
            if ret = 0 then Break (True, row', cu\<lparr>cu_cursor := offset\<rparr>) else Break (False, row', cu))
          else if ev_type ev = PG_EVENT_COPY_DATA then
            Break (True, [mk_cell (InBuf off) (ev_payload_size ev) False None], cu\<lparr>cu_cursor := offset\<rparr>)
          else if ev_type ev = PG_EVENT_COMMAND_COMPLETE then with_data buf ev (\<lambda>d.
            Break (False, row, cu\<lparr>cu_command_tag := parse_command_complete d (cu_command_tag cu),
                                  cu_done := True, cu_cursor := offset\<rparr>))
          else if ev_type ev = PG_EVENT_READY then
            Break (False, row, cu\<lparr>cu_done := True, cu_cursor := offset\<rparr>)
          else Continue s)"

definition fetch_finish :: "nat \<Rightarrow> fetch_state \<Rightarrow> fetch_result" where
  "fetch_finish c s = (case s of (row, cu) \<Rightarrow> (False, row, cu\<lparr>cu_cursor := c\<rparr>))"

partial_function (option) fetch_loop :: "bytes \<Rightarrow> nat \<Rightarrow> fetch_state \<Rightarrow> fetch_result option" where
  "fetch_loop buf c s =
     (case next_frame False buf c of
        None \<Rightarrow> Some (fetch_finish c s)
      | Some (fr, c') \<Rightarrow>
          (case fetch_body buf fr c' s of
             Continue s' \<Rightarrow> fetch_loop buf c' s'
           | Break x \<Rightarrow> Some x
           | Undefined \<Rightarrow> None))"

definition fetch_row :: "pg_cursor \<Rightarrow> pg_cell list \<Rightarrow> fetch_result option" where
  "fetch_row cu row =
     (if cu_done cu \<or> cu_cursor cu \<ge> length (cu_buf cu) then Some (False, row, cu)
      else fetch_loop (cu_buf cu) (cu_cursor cu) (row, cu))"

partial_function (option) fetch_all_loop ::
  "pg_cursor \<Rightarrow> pg_cell list \<Rightarrow> pg_cell list list \<Rightarrow> (pg_cell list list \<times> pg_cursor) option" where
  "fetch_all_loop cu row rows =
     (case fetch_row cu row of
        None \<Rightarrow> None
      | Some (ok, row', cu') \<Rightarrow>
          if ok then fetch_all_loop cu' row' (rows @ [map copy_cell row']) else Some (rows, cu'))"

definition fetch_all :: "pg_cursor \<Rightarrow> (bool \<times> pg_cell list list \<times> pg_cursor) option" where
  "fetch_all cu = map_option (\<lambda>(rows, cu'). (rows \<noteq> [], rows, cu')) (fetch_all_loop cu [] [])"

subsection \<open>Rows as maps, and owned copies\<close>

fun insert_row :: "pg_field list \<Rightarrow> pg_cell list \<Rightarrow> pg_cell str_map \<Rightarrow> pg_cell str_map" where
  "insert_row flds [] m = m"
| "insert_row [] (c # cs) m = m"
| "insert_row (f # flds) (c # cs) m = insert_row flds cs (map_insert (fd_name f) (copy_cell c) m)"

definition fetch_row_map :: "pg_cursor \<Rightarrow> pg_cell str_map \<Rightarrow> (bool \<times> pg_cell str_map \<times> pg_cursor) option" where
  "fetch_row_map cu row_map =
     (case fetch_row cu [] of
        None \<Rightarrow> None
      | Some (ok, row_arr, cu') \<Rightarrow>
          if \<not> ok then Some (False, row_map, cu')
          else if length row_arr > length (cu_fields cu') then Some (False, row_map, cu')
          else Some (True, insert_row (cu_fields cu') row_arr [], cu'))"

text \<open>A \<open>std::unordered_map\<close>: only its lookups are observable, so a partial function.\<close>

fun insert_row_hash :: "pg_field list \<Rightarrow> pg_cell list \<Rightarrow> (bytes \<rightharpoonup> pg_cell) \<Rightarrow> (bytes \<rightharpoonup> pg_cell)" where
  "insert_row_hash flds [] m = m"
| "insert_row_hash [] (c # cs) m = m"
| "insert_row_hash (f # flds) (c # cs) m =
     insert_row_hash flds cs (if m (fd_name f) = None then m(fd_name f \<mapsto> copy_cell c) else m)"

definition fetch_row_hash ::
  "pg_cursor \<Rightarrow> (bytes \<rightharpoonup> pg_cell) \<Rightarrow> (bool \<times> (bytes \<rightharpoonup> pg_cell) \<times> pg_cursor) option" where
  "fetch_row_hash cu row_map =
     (case fetch_row cu [] of
        None \<Rightarrow> None
      | Some (ok, row_arr, cu') \<Rightarrow>
          if \<not> ok then Some (False, row_map, cu')
          else if length row_arr > length (cu_fields cu') then Some (False, row_map, cu')
          else Some (True, insert_row_hash (cu_fields cu') row_arr Map.empty, cu'))"

definition detach_row :: "bytes \<Rightarrow> pg_cell list \<Rightarrow> pg_cell list option" where
  "detach_row buf row = map_option_list (detach buf) row"

definition fetch_row_copy :: "pg_cursor \<Rightarrow> pg_cell list \<Rightarrow> fetch_result option" where
  "fetch_row_copy cu row =
     (case fetch_row cu row of
        None \<Rightarrow> None
      | Some (ok, row', cu') \<Rightarrow>
          if \<not> ok then Some (False, row', cu')
          else map_option (\<lambda>r. (True, r, cu')) (detach_row (cu_buf cu') row'))"

definition fetch_row_map_copy ::
  "pg_cursor \<Rightarrow> pg_cell str_map \<Rightarrow> (bool \<times> pg_cell str_map \<times> pg_cursor) option" where
  "fetch_row_map_copy cu row_map =
     (case fetch_row_map cu row_map of
        None \<Rightarrow> None
      | Some (ok, m, cu') \<Rightarrow>
          if \<not> ok then Some (False, m, cu')
          else map_option (\<lambda>cs. (True, zip (map fst m) cs, cu'))
                 (detach_row (cu_buf cu') (map snd m)))"

text \<open>The keys of the map are names of columns, so these are all the cells to detach.\<close>

definition fetch_row_hash_copy ::
  "pg_cursor \<Rightarrow> (bytes \<rightharpoonup> pg_cell) \<Rightarrow> (bool \<times> (bytes \<rightharpoonup> pg_cell) \<times> pg_cursor) option" where
  "fetch_row_hash_copy cu row_map =
     (case fetch_row_hash cu row_map of
        None \<Rightarrow> None
      | Some (ok, h, cu') \<Rightarrow>
          if \<not> ok then Some (False, h, cu')
          else let copy = (\<lambda>k. case h k of None \<Rightarrow> None | Some c \<Rightarrow> detach (cu_buf cu') c) in
            if \<forall>f \<in> set (cu_fields cu'). h (fd_name f) \<noteq> None \<longrightarrow> copy (fd_name f) \<noteq> None
            then Some (True, copy, cu') else None)"

definition fetch_all_copy :: "pg_cursor \<Rightarrow> (bool \<times> pg_cell list list \<times> pg_cursor) option" where
  "fetch_all_copy cu =
     (case fetch_all cu of
        None \<Rightarrow> None
      | Some (ok, rows, cu') \<Rightarrow>
          if \<not> ok then Some (False, rows, cu')
          else map_option (\<lambda>rs. (True, rs, cu')) (map_option_list (detach_row (cu_buf cu')) rows))"

subsection \<open>The next result set\<close>

text \<open>
  The first loop runs to the end of the current result set. Its result is \<open>Inl\<close> when the call
  returns false there, and \<open>Inr\<close> with the stream position where the second loop goes on.
\<close>

definition finish_set_body :: "bytes \<Rightarrow> pg_frame \<Rightarrow> nat \<Rightarrow> pg_cursor \<Rightarrow>
    (pg_cursor, pg_cursor + pg_cursor \<times> nat) loop_step" where
  "finish_set_body buf fr offset cu =
     (case fr_payload fr of
        None \<Rightarrow> Break (Inl cu)
      | Some _ \<Rightarrow>
          let ev = parse_backend_event fr in
          if ev_type ev = PG_EVENT_COMMAND_COMPLETE then with_data buf ev (\<lambda>d.
            Break (Inr (cu\<lparr>cu_command_tag := parse_command_complete d (cu_command_tag cu),
                           cu_done := True\<rparr>, offset)))
          else if ev_type ev = PG_EVENT_READY then
            Break (Inl (cu\<lparr>cu_done := True, cu_cursor := offset\<rparr>))
          else Continue cu)"

partial_function (option) finish_set_loop ::
  "bytes \<Rightarrow> nat \<Rightarrow> pg_cursor \<Rightarrow> (pg_cursor + pg_cursor \<times> nat) option" where
  "finish_set_loop buf c cu =
     (case next_frame False buf c of
        None \<Rightarrow> Some (Inr (cu, c))
      | Some (fr, c') \<Rightarrow>
          (case finish_set_body buf fr c' cu of
             Continue cu' \<Rightarrow> finish_set_loop buf c' cu'
           | Break x \<Rightarrow> Some x
           | Undefined \<Rightarrow> None))"

definition seek_set_body :: "bytes \<Rightarrow> pg_frame \<Rightarrow> nat \<Rightarrow> pg_cursor \<Rightarrow>
    (pg_cursor, bool \<times> pg_cursor) loop_step" where
  "seek_set_body buf fr offset cu =
     (case fr_payload fr of
        None \<Rightarrow> Break (False, cu)
      | Some _ \<Rightarrow>
          let ev = parse_backend_event fr in
          if ev_type ev = PG_EVENT_READY then Break (False, cu\<lparr>cu_cursor := offset\<rparr>)
          else if ev_type ev = PG_EVENT_ROW_DESCRIPTION \<or> ev_type ev = PG_EVENT_DATA_ROW
                  \<or> ev_type ev = PG_EVENT_COMMAND_COMPLETE then
            (case parse_metadata (cu\<lparr>cu_cursor := offset - fr_frame_size fr\<rparr>) of
               None \<Rightarrow> Undefined
             | Some cu' \<Rightarrow> Break (True, cu'))
          else Continue cu)"

partial_function (option) seek_set_loop :: "bytes \<Rightarrow> nat \<Rightarrow> pg_cursor \<Rightarrow> (bool \<times> pg_cursor) option" where
  "seek_set_loop buf c cu =
     (case next_frame False buf c of
        None \<Rightarrow> Some (False, cu\<lparr>cu_cursor := c\<rparr>)
      | Some (fr, c') \<Rightarrow>
          (case seek_set_body buf fr c' cu of
             Continue cu' \<Rightarrow> seek_set_loop buf c' cu'
           | Break x \<Rightarrow> Some x
           | Undefined \<Rightarrow> None))"

definition next_result_set :: "pg_cursor \<Rightarrow> (bool \<times> pg_cursor) option" where
  "next_result_set cu =
     (case (if cu_done cu then Some (Inr (cu, cu_cursor cu))
            else finish_set_loop (cu_buf cu) (cu_cursor cu) cu) of
        None \<Rightarrow> None
      | Some (Inl cu') \<Rightarrow> Some (False, cu')
      | Some (Inr (cu', c)) \<Rightarrow> seek_set_loop (cu_buf cu) c cu')"

definition get_field_count :: "pg_cursor \<Rightarrow> nat" where
  "get_field_count cu = length (cu_fields cu)"

subsection \<open>The command tag\<close>

function tag_tokens :: "bytes \<Rightarrow> bytes list" where
  "tag_tokens s =
     (let t = dropWhile (\<lambda>c. c = CHR '' '') s in
      if t = [] then []
      else takeWhile (\<lambda>c. c \<noteq> CHR '' '') t # tag_tokens (dropWhile (\<lambda>c. c \<noteq> CHR '' '') t))"
  by pat_completeness auto
termination
proof (relation "measure length")
  fix s t :: bytes
  assume t: "t = dropWhile (\<lambda>c. c = CHR '' '') s" "t \<noteq> []"
  then have "hd t \<noteq> CHR '' ''" using hd_dropWhile [of "\<lambda>c. c = CHR '' ''" s] by auto
  with t(2) have "length (dropWhile (\<lambda>c. c \<noteq> CHR '' '') t) < length t"
    by (cases t) (simp_all add: length_dropWhile_le less_Suc_eq_le)
  also have "\<dots> \<le> length s" by (simp add: t(1) length_dropWhile_le)
  finally show "(dropWhile (\<lambda>c. c \<noteq> CHR '' '') t, s) \<in> measure length" by simp
qed simp

declare tag_tokens.simps [simp del]

text \<open>A token that is purely numeric and in the range of \<open>strtoull\<close>; otherwise 0.\<close>

definition token_number :: "bytes \<Rightarrow> nat" where
  "token_number tok =
     (if tok \<noteq> [] \<and> (\<forall>c \<in> set tok. isdigit c)
      then (case strtoull (c_str tok) of (val, end, err) \<Rightarrow> if err = None \<and> end = [] then val else 0)
      else 0)"

text \<open>The command word, the OID of an INSERT and the number of rows.\<close>

definition parse_command_tag_parts :: "bytes \<Rightarrow> bytes \<times> nat \<times> nat" where
  "parse_command_tag_parts tag =
     (let tokens = tag_tokens tag in
      if tokens = [] then ([], 0, 0)
      else (hd tokens,
            if length tokens \<ge> 3 \<and> hd tokens = ''INSERT'' then token_number (tokens ! 1) else 0,
            token_number (last tokens)))"

definition get_command :: "pg_cursor \<Rightarrow> bytes" where
  "get_command cu = fst (parse_command_tag_parts (cu_command_tag cu))"

definition get_insert_oid :: "pg_cursor \<Rightarrow> nat" where
  "get_insert_oid cu = fst (snd (parse_command_tag_parts (cu_command_tag cu)))"

definition get_affected_rows :: "pg_cursor \<Rightarrow> nat" where
  "get_affected_rows cu = snd (snd (parse_command_tag_parts (cu_command_tag cu)))"

text \<open>The loop equations are the code equations, so the definitions can be run.\<close>

declare metadata_loop.simps [code] fetch_loop.simps [code] fetch_all_loop.simps [code]
declare finish_set_loop.simps [code] seek_set_loop.simps [code]

subsection \<open>The loops are frame loops\<close>

interpretation metadata_fl: frame_loop metadata_body "\<lambda>c cu. cu\<lparr>cu_cursor := c\<rparr>" metadata_loop
  by unfold_locales (subst metadata_loop.simps, rule refl)

interpretation fetch_fl: frame_loop fetch_body fetch_finish fetch_loop
  by unfold_locales (subst fetch_loop.simps, rule refl)

interpretation finish_set_fl: frame_loop finish_set_body "\<lambda>c cu. Inr (cu, c)" finish_set_loop
  by unfold_locales (subst finish_set_loop.simps, rule refl)

interpretation seek_set_fl: frame_loop seek_set_body "\<lambda>c cu. (False, cu\<lparr>cu_cursor := c\<rparr>)" seek_set_loop
  by unfold_locales (subst seek_set_loop.simps, rule refl)


subsection \<open>One message at the cursor\<close>

text \<open>
  \<open>at_msg cu pre t p rest\<close>: the cursor stands at the encoded message \<open>(t, p)\<close>. The lemmas
  below say what each operation does there.
\<close>

definition at_msg :: "pg_cursor \<Rightarrow> bytes \<Rightarrow> char \<Rightarrow> bytes \<Rightarrow> bytes \<Rightarrow> bool" where
  "at_msg cu pre t p rest \<longleftrightarrow>
     cu_buf cu = pre @ encode_frame t p @ rest \<and> cu_cursor cu = length pre \<and> 4 + length p < 2 ^ 32 - 1"

definition after_msg :: "bytes \<Rightarrow> bytes \<Rightarrow> nat" where
  "after_msg pre p = length pre + 5 + length p"

lemma event_type_results:
  "event_type (CHR ''T'') = PG_EVENT_ROW_DESCRIPTION"
  "event_type (CHR ''D'') = PG_EVENT_DATA_ROW"
  "event_type (CHR ''d'') = PG_EVENT_COPY_DATA"
  "event_type (CHR ''C'') = PG_EVENT_COMMAND_COMPLETE"
  "event_type (CHR ''Z'') = PG_EVENT_READY"
  "event_type (CHR ''H'') = PG_EVENT_COPY_OUT"
  "event_type (CHR ''c'') = PG_EVENT_COPY_DONE"
  "event_type (CHR ''E'') = PG_EVENT_ERROR"
  by (simp_all add: event_type_def)

lemma at_msg_frame:
  assumes "at_msg cu pre t p rest"
  shows "next_frame False (cu_buf cu) (cu_cursor cu) =
    Some (\<lparr>fr_type = t, fr_payload = Some (length pre + 5), fr_payload_size = length p,
           fr_frame_size = 5 + length p\<rparr>, after_msg pre p)"
  using assms next_frame_encode [of p pre t rest] by (simp add: at_msg_def after_msg_def)

lemma at_msg_data:
  assumes "at_msg cu pre t p rest"
  shows "with_data (cu_buf cu) (parse_backend_event \<lparr>fr_type = t, fr_payload = Some (length pre + 5),
      fr_payload_size = length p, fr_frame_size = 5 + length p\<rparr>) f = f p"
  using assms placed_event_data [of pre t p rest] by (simp add: at_msg_def with_data_Some)

lemma metadata_row_description:
  assumes "at_msg cu pre (CHR ''T'') p rest"
  shows "parse_metadata cu = Some (cu\<lparr>cu_fields := snd (parse_row_description p []),
    cu_command_tag := [], cu_done := False, cu_cursor := after_msg pre p\<rparr>)"
  unfolding parse_metadata_def
  by (rule metadata_fl.loop_Break [OF at_msg_frame [OF assms]])
    (simp add: metadata_body_def event_type_results at_msg_data [OF assms])

lemma metadata_command_complete:
  assumes "at_msg cu pre (CHR ''C'') p rest"
  shows "parse_metadata cu = Some (cu\<lparr>cu_fields := [],
    cu_command_tag := parse_command_complete p [], cu_done := True, cu_cursor := after_msg pre p\<rparr>)"
  unfolding parse_metadata_def
  by (rule metadata_fl.loop_Break [OF at_msg_frame [OF assms]])
    (simp add: metadata_body_def event_type_results at_msg_data [OF assms])

lemma metadata_backtrack:
  assumes "at_msg cu pre t p rest" and "t = CHR ''D'' \<or> t = CHR ''d''"
  shows "parse_metadata cu = Some (cu\<lparr>cu_fields := [], cu_command_tag := [], cu_done := False\<rparr>)"
proof -
  have "cu_cursor cu = after_msg pre p - (5 + length p)"
    using assms(1) by (simp add: at_msg_def after_msg_def)
  then show ?thesis
    unfolding parse_metadata_def
    using assms(2)
    by (intro metadata_fl.loop_Break [OF at_msg_frame [OF assms(1)]], elim disjE)
      (simp_all add: metadata_body_def event_type_results)
qed

lemma at_msg_in_range: "at_msg cu pre t p rest \<Longrightarrow> cu_cursor cu < length (cu_buf cu)"
  by (simp add: at_msg_def)

lemma fetch_row_at:
  assumes "at_msg cu pre t p rest" and "\<not> cu_done cu"
    and "fetch_body (cu_buf cu) \<lparr>fr_type = t, fr_payload = Some (length pre + 5),
      fr_payload_size = length p, fr_frame_size = 5 + length p\<rparr> (after_msg pre p) (row, cu) = Break x"
  shows "fetch_row cu row = Some x"
  using fetch_fl.loop_Break [OF at_msg_frame [OF assms(1)] assms(3)] assms(2) at_msg_in_range [OF assms(1)]
  by (simp add: fetch_row_def)

lemma fetch_row_data_row:
  assumes "at_msg cu pre (CHR ''D'') p rest" and "\<not> cu_done cu"
    and "parse_data_row (length pre + 5) p [] (cu_fields cu) = (0, row')"
  shows "fetch_row cu row = Some (True, row', cu\<lparr>cu_cursor := after_msg pre p\<rparr>)"
  by (rule fetch_row_at [OF assms(1,2)])
    (simp add: fetch_body_def event_type_results at_msg_data [OF assms(1)] assms(3))

lemma fetch_row_command_complete:
  assumes "at_msg cu pre (CHR ''C'') p rest" and "\<not> cu_done cu"
  shows "fetch_row cu row = Some (False, row, cu\<lparr>
    cu_command_tag := parse_command_complete p (cu_command_tag cu), cu_done := True,
    cu_cursor := after_msg pre p\<rparr>)"
  by (rule fetch_row_at [OF assms])
    (simp add: fetch_body_def event_type_results at_msg_data [OF assms(1)])

lemma fetch_row_copy_data:
  assumes "at_msg cu pre (CHR ''d'') p rest" and "\<not> cu_done cu"
  shows "fetch_row cu row = Some (True, [mk_cell (InBuf (length pre + 5)) (length p) False None],
    cu\<lparr>cu_cursor := after_msg pre p\<rparr>)"
  by (rule fetch_row_at [OF assms]) (simp add: fetch_body_def event_type_results)

lemma fetch_row_done: "cu_done cu \<Longrightarrow> fetch_row cu row = Some (False, row, cu)"
  by (simp add: fetch_row_def)

lemma next_set_at:
  assumes "at_msg cu pre t p rest" and "cu_done cu" and "t \<in> {CHR ''T'', CHR ''D'', CHR ''C''}"
    and "parse_metadata cu = Some cu'"
  shows "next_result_set cu = Some (True, cu')"
proof -
  have "cu\<lparr>cu_cursor := after_msg pre p - (5 + length p)\<rparr> = cu"
    using assms(1) by (simp add: at_msg_def after_msg_def)
  then have "seek_set_loop (cu_buf cu) (cu_cursor cu) cu = Some (True, cu')"
    using assms(3)
    by (intro seek_set_fl.loop_Break [OF at_msg_frame [OF assms(1)]], elim insertE emptyE)
      (simp_all add: seek_set_body_def event_type_results assms(4))
  then show ?thesis using assms(2) by (simp add: next_result_set_def)
qed

lemma next_set_ready:
  assumes "at_msg cu pre (CHR ''Z'') p rest" and "cu_done cu"
  shows "next_result_set cu = Some (False, cu\<lparr>cu_cursor := after_msg pre p\<rparr>)"
proof -
  have "seek_set_loop (cu_buf cu) (cu_cursor cu) cu = Some (False, cu\<lparr>cu_cursor := after_msg pre p\<rparr>)"
    by (rule seek_set_fl.loop_Break [OF at_msg_frame [OF assms(1)]])
      (simp add: seek_set_body_def event_type_results)
  then show ?thesis using assms(2) by (simp add: next_result_set_def)
qed


subsection \<open>Result sets\<close>

text \<open>
  The result sets of a reply, as the server has them: a query with rows, or a command without.
  \<open>enc_result_set\<close> is the sequence of messages the server sends for one.
\<close>

datatype result_set = Rows "pg_field list" "bytes option list list" bytes | Command bytes

fun enc_result_set :: "result_set \<Rightarrow> message list" where
  "enc_result_set (Rows fs rows tag) =
     (CHR ''T'', enc_row_description fs) # map (\<lambda>r. (CHR ''D'', enc_data_row r)) rows @
     [(CHR ''C'', tag @ [NUL])]"
| "enc_result_set (Command tag) = [(CHR ''C'', tag @ [NUL])]"

definition wf_row :: "pg_field list \<Rightarrow> bytes option list \<Rightarrow> bool" where
  "wf_row fs r \<longleftrightarrow> length r = length fs \<and>
     (\<forall>v \<in> set r. length (case v of None \<Rightarrow> [] | Some b \<Rightarrow> b) < 2 ^ 31)"

fun wf_result_set :: "result_set \<Rightarrow> bool" where
  "wf_result_set (Rows fs rows tag) \<longleftrightarrow> NUL \<notin> set tag \<and> length fs < 2 ^ 15 \<and>
     (\<forall>f \<in> set fs. NUL \<notin> set (fd_name f)) \<and> (\<forall>r \<in> set rows. wf_row fs r)"
| "wf_result_set (Command tag) \<longleftrightarrow> NUL \<notin> set tag"

text \<open>The messages of result sets pass through \<open>append\<close> untouched.\<close>

lemma quiet_result_message: "m \<in> set (enc_result_set rs) \<Longrightarrow> quiet m"
  by (cases rs) (auto simp: quiet_def event_type_results)

lemma quiet_result_sets: "list_all quiet (concat (map enc_result_set rss))"
  by (auto simp: list_all_iff intro: quiet_result_message)

text \<open>The value a cell stands for: \<open>None\<close> is SQL's NULL.\<close>

definition cell_value :: "bytes \<Rightarrow> pg_cell \<Rightarrow> bytes option option" where
  "cell_value buf c = (if cl_is_null c then Some None else map_option Some (cell_bytes buf c))"

definition row_values :: "bytes \<Rightarrow> pg_cell list \<Rightarrow> bytes option list option" where
  "row_values buf row = map_option_list (cell_value buf) row"

definition rows_values :: "bytes \<Rightarrow> pg_cell list list \<Rightarrow> bytes option list list option" where
  "rows_values buf rows = map_option_list (row_values buf) rows"

lemma map_option_list_Some: "(\<forall>x \<in> set xs. f x = Some (g x)) \<Longrightarrow> map_option_list f xs = Some (map g xs)"
  by (induction xs) auto

lemma row_cells_values:
  "row_values (pre @ concat (map enc_value vals) @ rest) (row_cells i (length pre) vals) = Some vals"
proof (induction vals arbitrary: pre i)
  case (Cons v vals)
  from Cons.IH [of "pre @ enc_value v" "Suc i"] show ?case
    by (cases v)
      (auto simp: row_values_def cell_value_def mk_cell_def cell_bytes_def cell_off_def cell_mem_def add.assoc)
qed (simp add: row_values_def)

lemma row_cells_copy: "map copy_cell (row_cells i off vals) = row_cells i off vals"
  by (induction i off vals rule: row_cells.induct) (auto simp: copy_cell_def mk_cell_def)

fun rows_at :: "nat \<Rightarrow> bytes option list list \<Rightarrow> pg_cell list list" where
  "rows_at off [] = []"
| "rows_at off (r # rs) = row_cells 0 (off + 7) r # rows_at (off + 5 + length (enc_data_row r)) rs"

lemma rows_at_values:
  "rows_values (pre @ encode_msgs (map (\<lambda>r. (CHR ''D'', enc_data_row r)) rows) @ rest)
     (rows_at (length pre) rows) = Some rows"
proof (induction rows arbitrary: pre)
  case (Cons r rows)
  let ?tl = "encode_msgs (map (\<lambda>r. (CHR ''D'', enc_data_row r)) rows) @ rest"
  let ?hd = "pre @ CHR ''D'' # be_bytes 4 (4 + length (enc_data_row r)) @ be_bytes 2 (length r)"
  have "row_values (?hd @ concat (map enc_value r) @ ?tl) (row_cells 0 (length ?hd) r) = Some r"
    by (rule row_cells_values)
  then have "row_values (pre @ encode_frame (CHR ''D'') (enc_data_row r) @ ?tl)
      (row_cells 0 (length pre + 7) r) = Some r"
    by (simp add: encode_frame_def enc_data_row_def)
  with Cons.IH [of "pre @ encode_frame (CHR ''D'') (enc_data_row r)"] show ?case
    by (simp add: rows_values_def add.assoc)
qed (simp add: rows_values_def)

lemma fetch_all_rows:
  assumes "cu_buf cu = pre @ encode_msgs (map (\<lambda>r. (CHR ''D'', enc_data_row r)) rows @ [(CHR ''C'', tag @ [NUL])]) @ rest"
    and "cu_cursor cu = length pre" and "\<not> cu_done cu" and "\<forall>r \<in> set rows. wf_row (cu_fields cu) r"
    and "length (cu_fields cu) < 2 ^ 15" and "NUL \<notin> set tag"
    and "small_msgs (map (\<lambda>r. (CHR ''D'', enc_data_row r)) rows @ [(CHR ''C'', tag @ [NUL])])"
  shows "fetch_all_loop cu row acc = Some (acc @ rows_at (length pre) rows,
    cu\<lparr>cu_command_tag := tag, cu_done := True, cu_cursor := length (cu_buf cu) - length rest\<rparr>)"
  using assms
proof (induction rows arbitrary: cu pre row acc)
  case Nil
  then have at: "at_msg cu pre (CHR ''C'') (tag @ [NUL]) rest"
    by (simp add: at_msg_def small_msgs_def)
  have "parse_command_complete (tag @ [NUL]) (cu_command_tag cu) = tag"
    using Nil.prems(6) by (simp add: parse_command_complete_def wire_simps)
  moreover have "after_msg pre (tag @ [NUL]) = length (cu_buf cu) - length rest"
    using Nil.prems(1) by (simp add: after_msg_def)
  ultimately show ?case
    using fetch_row_command_complete [OF at Nil.prems(3), of row]
    by (subst fetch_all_loop.simps) simp
next
  case (Cons r rows)
  let ?p = "enc_data_row r" and ?ms = "map (\<lambda>r. (CHR ''D'', enc_data_row r)) rows @ [(CHR ''C'', tag @ [NUL])]"
  have at: "at_msg cu pre (CHR ''D'') ?p (encode_msgs ?ms @ rest)"
    using Cons.prems by (simp add: at_msg_def small_msgs_def)
  have "parse_data_row (length pre + 5) ?p [] (cu_fields cu) = (0, row_cells 0 (length pre + 5 + 2) r)"
    by (rule parse_data_row_enc) (use Cons.prems in \<open>auto simp: wf_row_def\<close>)
  moreover have "length pre + 5 + 2 = length pre + 7" by simp
  ultimately have "parse_data_row (length pre + 5) ?p [] (cu_fields cu) = (0, row_cells 0 (length pre + 7) r)"
    by (simp only:)
  then have fetch: "fetch_row cu row = Some (True, row_cells 0 (length pre + 7) r, cu\<lparr>cu_cursor := after_msg pre ?p\<rparr>)"
    by (rule fetch_row_data_row [OF at Cons.prems(3)])
  let ?cu = "cu\<lparr>cu_cursor := after_msg pre ?p\<rparr>" and ?pre = "pre @ encode_frame (CHR ''D'') ?p"
  have "fetch_all_loop ?cu (row_cells 0 (length pre + 7) r) (acc @ [row_cells 0 (length pre + 7) r]) =
      Some ((acc @ [row_cells 0 (length pre + 7) r]) @ rows_at (length ?pre) rows,
        ?cu\<lparr>cu_command_tag := tag, cu_done := True, cu_cursor := length (cu_buf ?cu) - length rest\<rparr>)"
    by (rule Cons.IH) (use Cons.prems in \<open>simp_all add: after_msg_def small_msgs_def\<close>)
  then show ?case
    using fetch by (subst fetch_all_loop.simps) (simp add: row_cells_copy add.assoc)
qed

subsection \<open>Reading a whole reply\<close>

text \<open>
  A client that reads everything: the rows of the current result set with its fields and
  command tag, then the next result set while there is one. \<open>n\<close> bounds the number of result
  sets read.
\<close>

type_synonym set_view = "pg_field list \<times> bytes option list list \<times> bytes"

definition read_set :: "pg_cursor \<Rightarrow> (set_view \<times> pg_cursor) option" where
  "read_set cu =
     (case fetch_all cu of
        None \<Rightarrow> None
      | Some (_, rows, cu') \<Rightarrow>
          map_option (\<lambda>vals. ((cu_fields cu', vals, cu_command_tag cu'), cu')) (rows_values (cu_buf cu') rows))"

primrec read_sets :: "nat \<Rightarrow> pg_cursor \<Rightarrow> set_view list option" where
  "read_sets 0 cu = Some []"
| "read_sets (Suc n) cu =
     (case read_set cu of
        None \<Rightarrow> None
      | Some (v, cu') \<Rightarrow>
          (case next_result_set cu' of
             None \<Rightarrow> None
           | Some (ok, cu'') \<Rightarrow>
               if ok then map_option ((#) v) (read_sets n cu'') else Some [v]))"

fun set_view :: "result_set \<Rightarrow> set_view" where
  "set_view (Rows fs rows tag) = (fs, rows, tag)"
| "set_view (Command tag) = ([], [], tag)"

text \<open>The cursor once the metadata of a result set at \<open>pre\<close> is read.\<close>

fun open_set :: "bytes \<Rightarrow> result_set \<Rightarrow> pg_cursor \<Rightarrow> pg_cursor" where
  "open_set pre (Rows fs rows tag) cu =
     cu\<lparr>cu_fields := fs, cu_command_tag := [], cu_done := False,
        cu_cursor := after_msg pre (enc_row_description fs)\<rparr>"
| "open_set pre (Command tag) cu =
     cu\<lparr>cu_fields := [], cu_command_tag := tag, cu_done := True,
        cu_cursor := after_msg pre (tag @ [NUL])\<rparr>"

definition at_set :: "pg_cursor \<Rightarrow> bytes \<Rightarrow> result_set \<Rightarrow> bytes \<Rightarrow> bool" where
  "at_set cu pre rs rest \<longleftrightarrow>
     cu_buf cu = pre @ encode_msgs (enc_result_set rs) @ rest \<and> cu_cursor cu = length pre \<and>
     small_msgs (enc_result_set rs) \<and> wf_result_set rs"

lemma at_set_first:
  assumes "at_set cu pre rs rest"
  shows "\<exists>t p rest'. at_msg cu pre t p rest' \<and> t \<in> {CHR ''T'', CHR ''C''}"
proof (cases rs)
  case (Rows fs rows tag)
  with assms have "at_msg cu pre (CHR ''T'') (enc_row_description fs)
      (encode_msgs (map (\<lambda>r. (CHR ''D'', enc_data_row r)) rows @ [(CHR ''C'', tag @ [NUL])]) @ rest)"
    by (simp add: at_set_def at_msg_def small_msgs_def)
  then show ?thesis by blast
next
  case (Command tag)
  with assms have "at_msg cu pre (CHR ''C'') (tag @ [NUL]) rest"
    by (simp add: at_set_def at_msg_def small_msgs_def)
  then show ?thesis by blast
qed

lemma metadata_set:
  assumes "at_set cu pre rs rest"
  shows "parse_metadata cu = Some (open_set pre rs cu)"
proof (cases rs)
  case (Rows fs rows tag)
  then have at: "at_msg cu pre (CHR ''T'') (enc_row_description fs)
      (encode_msgs (map (\<lambda>r. (CHR ''D'', enc_data_row r)) rows @ [(CHR ''C'', tag @ [NUL])]) @ rest)"
    using assms by (simp add: at_set_def at_msg_def small_msgs_def)
  have "parse_row_description (enc_row_description fs) [] = (0, fs)"
    by (rule parse_row_description_enc) (use assms Rows in \<open>simp_all add: at_set_def\<close>)
  with metadata_row_description [OF at] Rows show ?thesis by simp
next
  case (Command tag)
  then have at: "at_msg cu pre (CHR ''C'') (tag @ [NUL]) rest"
    using assms by (simp add: at_set_def at_msg_def small_msgs_def)
  have "parse_command_complete (tag @ [NUL]) [] = tag"
    using assms Command by (simp add: at_set_def parse_command_complete_def wire_simps)
  with metadata_command_complete [OF at] Command show ?thesis by simp
qed

lemma read_set_open:
  assumes "at_set cu pre rs rest"
  shows "\<exists>cu'. read_set (open_set pre rs cu) = Some (set_view rs, cu') \<and> cu_done cu' \<and>
    cu_buf cu' = cu_buf cu \<and> cu_cursor cu' = length (pre @ encode_msgs (enc_result_set rs))"
proof (cases rs)
  case (Rows fs rows tag)
  let ?cu = "open_set pre rs cu" and ?hd = "pre @ encode_frame (CHR ''T'') (enc_row_description fs)"
  let ?rows = "map (\<lambda>r. (CHR ''D'', enc_data_row r)) rows"
  let ?fin = "?cu\<lparr>cu_command_tag := tag, cu_done := True, cu_cursor := length (cu_buf ?cu) - length rest\<rparr>"
  have buf: "cu_buf ?cu = ?hd @ encode_msgs (?rows @ [(CHR ''C'', tag @ [NUL])]) @ rest"
    using assms Rows by (simp add: at_set_def)
  have loop: "fetch_all_loop ?cu [] [] = Some ([] @ rows_at (length ?hd) rows, ?fin)"
    by (rule fetch_all_rows [OF buf])
      (use assms Rows in \<open>simp_all add: at_set_def after_msg_def small_msgs_def\<close>)
  have "rows_values (cu_buf cu) (rows_at (length ?hd) rows) = Some rows"
    using rows_at_values [of ?hd rows "encode_frame (CHR ''C'') (tag @ [NUL]) @ rest"] buf Rows by simp
  then have "read_set ?cu = Some ((fs, rows, tag), ?fin)"
    using loop Rows by (simp add: read_set_def fetch_all_def)
  then show ?thesis using assms Rows by (auto simp: at_set_def)
next
  case (Command tag)
  then have "fetch_all_loop (open_set pre rs cu) [] [] = Some ([], open_set pre rs cu)"
    by (subst fetch_all_loop.simps) (simp add: fetch_row_done)
  then have "read_set (open_set pre rs cu) = Some (set_view rs, open_set pre rs cu)"
    using Command by (simp add: read_set_def fetch_all_def rows_values_def)
  with Command assms show ?thesis by (simp add: after_msg_def at_set_def)
qed

text \<open>
  Error messages between the last result set and ReadyForQuery: the cursor reads past them, when it
  looks for the next result set and when there is none.
\<close>

abbreviation only_errors :: "message list \<Rightarrow> bool" where
  "only_errors es \<equiv> list_all (\<lambda>(t, p). t = CHR ''E'') es \<and> small_msgs es"

lemma seek_past_errors:
  assumes "only_errors es"
  shows "\<exists>c. seek_set_loop (pre @ encode_msgs (es @ [(CHR ''Z'', [st])]) @ rest) (length pre) cu =
    Some (False, cu\<lparr>cu_cursor := c\<rparr>)"
  using assms
proof (induction es arbitrary: pre)
  case Nil
  have "4 + length [st] < 2 ^ 32 - 1" by simp
  from seek_set_fl.loop_Break [OF next_frame_encode [OF this, of pre "CHR ''Z''" rest], of cu] show ?case
    by (simp add: seek_set_body_def event_type_results) blast
next
  case (Cons m es)
  then obtain p where m: "m = (CHR ''E'', p)" "4 + length p < 2 ^ 32 - 1"
    by (cases m) (simp add: small_msgs_def)
  let ?rest = "encode_msgs (es @ [(CHR ''Z'', [st])]) @ rest"
  have "\<exists>c. seek_set_loop ((pre @ encode_frame (CHR ''E'') p) @ ?rest) (length (pre @ encode_frame (CHR ''E'') p)) cu =
    Some (False, cu\<lparr>cu_cursor := c\<rparr>)"
    by (rule Cons.IH) (use Cons.prems in \<open>simp add: small_msgs_def\<close>)
  moreover have "seek_set_loop (pre @ encode_frame (CHR ''E'') p @ ?rest) (length pre) cu =
      seek_set_loop (pre @ encode_frame (CHR ''E'') p @ ?rest) (length pre + 5 + length p) cu"
    using seek_set_fl.loop_Continue [OF next_frame_encode [OF m(2), of pre "CHR ''E''" ?rest], of cu cu]
    by (simp add: seek_set_body_def event_type_results)
  ultimately show ?case using m(1) by (simp add: add.assoc)
qed

lemma metadata_past_errors:
  assumes "only_errors es"
  shows "\<exists>c. metadata_loop (pre @ encode_msgs (es @ [(CHR ''Z'', [st])])) (length pre) cu = Some (cu\<lparr>cu_cursor := c\<rparr>)"
  using assms
proof (induction es arbitrary: pre)
  case Nil
  let ?buf = "pre @ encode_frame (CHR ''Z'') [st]"
  have small: "4 + length [st] < 2 ^ 32 - 1" by simp
  have "next_frame False ?buf (length ?buf) = None" by (simp add: next_frame_def)
  from metadata_fl.loop_None [OF this] metadata_fl.loop_Continue [OF next_frame_encode [OF small, of pre "CHR ''Z''" "[]"], of cu cu]
  show ?case by (simp add: metadata_body_def event_type_results add.commute) blast
next
  case (Cons m es)
  then obtain p where m: "m = (CHR ''E'', p)" "4 + length p < 2 ^ 32 - 1"
    by (cases m) (simp add: small_msgs_def)
  let ?rest = "encode_msgs (es @ [(CHR ''Z'', [st])])"
  have "\<exists>c. metadata_loop ((pre @ encode_frame (CHR ''E'') p) @ ?rest) (length (pre @ encode_frame (CHR ''E'') p)) cu =
    Some (cu\<lparr>cu_cursor := c\<rparr>)"
    by (rule Cons.IH) (use Cons.prems in \<open>simp add: small_msgs_def\<close>)
  moreover have "metadata_loop (pre @ encode_frame (CHR ''E'') p @ ?rest) (length pre) cu =
      metadata_loop (pre @ encode_frame (CHR ''E'') p @ ?rest) (length pre + 5 + length p) cu"
    using metadata_fl.loop_Continue [OF next_frame_encode [OF m(2), of pre "CHR ''E''" ?rest], of cu cu]
    by (simp add: metadata_body_def event_type_results)
  ultimately show ?case using m(1) by (simp add: add.assoc)
qed

lemma next_set_none:
  assumes "cu_buf cu = pre @ encode_msgs (es @ [(CHR ''Z'', [st])]) @ rest" and "cu_cursor cu = length pre"
    and "cu_done cu" and "only_errors es"
  shows "\<exists>cu'. next_result_set cu = Some (False, cu')"
  using seek_past_errors [OF assms(4), of pre st rest cu] assms(1-3) by (auto simp: next_result_set_def)

lemma read_sets_reply:
  assumes "at_set cu pre rs (encode_msgs (concat (map enc_result_set rss) @ es @ [(CHR ''Z'', [st])]) @ rest)"
    and "only_errors es" and "small_msgs (concat (map enc_result_set rss))" and "\<forall>r \<in> set rss. wf_result_set r"
    and "length rss < n"
  shows "read_sets n (open_set pre rs cu) = Some (map set_view (rs # rss))"
  using assms
proof (induction rss arbitrary: rs cu pre n)
  case Nil
  then obtain m where n: "n = Suc m" by (cases n) auto
  obtain cu' where rd: "read_set (open_set pre rs cu) = Some (set_view rs, cu')"
    and cu': "cu_done cu'" "cu_buf cu' = cu_buf cu"
      "cu_cursor cu' = length (pre @ encode_msgs (enc_result_set rs))"
    using read_set_open [OF Nil.prems(1)] by blast
  have "cu_buf cu' = (pre @ encode_msgs (enc_result_set rs)) @ encode_msgs (es @ [(CHR ''Z'', [st])]) @ rest"
    using Nil.prems(1) cu' by (simp add: at_set_def)
  from next_set_none [OF this cu'(3,1) Nil.prems(2)] rd show ?case by (auto simp: n)
next
  case (Cons r rss)
  then obtain m where n: "n = Suc m" by (cases n) auto
  obtain cu' where rd: "read_set (open_set pre rs cu) = Some (set_view rs, cu')"
    and cu': "cu_done cu'" "cu_buf cu' = cu_buf cu"
      "cu_cursor cu' = length (pre @ encode_msgs (enc_result_set rs))"
    using read_set_open [OF Cons.prems(1)] by blast
  let ?pre = "pre @ encode_msgs (enc_result_set rs)"
  have at: "at_set cu' ?pre r (encode_msgs (concat (map enc_result_set rss) @ es @ [(CHR ''Z'', [st])]) @ rest)"
    using Cons.prems cu' by (simp add: at_set_def)
  obtain t p rest' where first: "at_msg cu' ?pre t p rest'" "t \<in> {CHR ''T'', CHR ''C''}"
    using at_set_first [OF at] by blast
  have "next_result_set cu' = Some (True, open_set ?pre r cu')"
    by (rule next_set_at [OF first(1) cu'(1) _ metadata_set [OF at]]) (use first(2) in auto)
  moreover have "read_sets m (open_set ?pre r cu') = Some (map set_view (r # rss))"
    by (rule Cons.IH [OF at]) (use Cons.prems n in simp_all)
  ultimately show ?case using rd by (simp add: n)
qed

lemma cursor_reads_sets:
  assumes "rs_buf resp = encode_msgs (concat (map enc_result_set rss) @ es @ [(CHR ''Z'', [st])]) @ rest"
    and "rss \<noteq> [] \<or> rest = []" and "only_errors es"
    and "small_msgs (concat (map enc_result_set rss))" and "\<forall>r \<in> set rss. wf_result_set r"
  shows "\<exists>cu. cursor_new resp = Some cu \<and> read_sets (length rss) cu = Some (map set_view rss) \<and>
    (rss \<noteq> [] \<longrightarrow> read_sets (Suc (length rss)) cu = Some (map set_view rss))"
proof -
  define cu where "cu = \<lparr>cu_buf = rs_buf resp, cu_cursor = 0, cu_fields = [], cu_command_tag = [],
       cu_done = False, cu_owns_resp = False, cu_owned_resp = new_response\<rparr>"
  show ?thesis
  proof (cases rss)
    case Nil
    with metadata_past_errors [OF assms(3), of "[]" st cu] assms(1,2) show ?thesis
      by (auto simp: cursor_new_def parse_metadata_def cu_def)
  next
    case (Cons r rs)
    have at: "at_set cu [] r (encode_msgs (concat (map enc_result_set rs) @ es @ [(CHR ''Z'', [st])]) @ rest)"
      using assms by (simp add: cu_def at_set_def Cons)
    have "cursor_new resp = Some (open_set [] r cu)"
      using metadata_set [OF at] by (simp add: cursor_new_def cu_def)
    moreover have all_read: "read_sets n (open_set [] r cu) = Some (map set_view (r # rs))" if "length rs < n" for n
      by (rule read_sets_reply [OF at]) (use assms that in \<open>simp_all add: Cons\<close>)
    have "length rs < length (r # rs)" "length rs < Suc (length (r # rs))" by simp_all
    note all_read [OF this(1)] all_read [OF this(2)]
    ultimately show ?thesis unfolding Cons by blast
  qed
qed

lemma cursor_reads_reply:
  assumes "rs_buf resp = encode_msgs (concat (map enc_result_set rss) @ [(CHR ''Z'', [st])]) @ rest"
    and "rss \<noteq> []" and "small_msgs (concat (map enc_result_set rss))" and "\<forall>r \<in> set rss. wf_result_set r"
  shows "\<exists>cu. cursor_new resp = Some cu \<and> read_sets (length rss) cu = Some (map set_view rss)"
  using cursor_reads_sets [of resp rss "[]" st rest] assms by (auto simp: small_msgs_def)


subsection \<open>Safety on arbitrary input\<close>

text \<open>
  The buffer may hold anything the server sent. As long as no frame has the wrapping length,
  every operation of the cursor returns, stays in the buffer, and hands out only cells whose
  bytes lie in it.
\<close>

definition cell_in_buf :: "pg_cursor \<Rightarrow> pg_cell \<Rightarrow> bool" where
  "cell_in_buf cu c \<longleftrightarrow> cl_storage c = [] \<and>
     (case cl_data c of
        NullPtr \<Rightarrow> cl_is_null c \<and> cl_length c = 0
      | InBuf off \<Rightarrow> off + cl_length c \<le> length (cu_buf cu)
      | InStorage \<Rightarrow> False) \<and>
     (case cl_field c of None \<Rightarrow> True | Some i \<Rightarrow> i < length (cu_fields cu))"

definition cursor_ok :: "pg_cursor \<Rightarrow> bool" where
  "cursor_ok cu \<longleftrightarrow> cu_cursor cu \<le> length (cu_buf cu) \<and> no_wrap (cu_buf cu) (cu_cursor cu)"

definition fetch_post :: "bytes \<Rightarrow> nat \<Rightarrow> pg_cursor \<Rightarrow> fetch_result \<Rightarrow> bool" where
  "fetch_post buf c cu x \<longleftrightarrow>
     (case x of (ok, row', cu') \<Rightarrow>
        cu_buf cu' = cu_buf cu \<and> cu_fields cu' = cu_fields cu \<and>
        (cu_cursor cu' = cu_cursor cu \<or>
         c \<le> cu_cursor cu' \<and> cu_cursor cu' \<le> length buf \<and> no_wrap buf (cu_cursor cu')) \<and>
        (ok \<longrightarrow> c < cu_cursor cu' \<and> list_all (cell_in_buf cu') row'))"

lemma frame_payload_range:
  assumes "next_frame False buf c = Some (fr, c')" and "fr_frame_size fr \<noteq> 0"
    and "fr_payload fr = Some off"
  shows "off + fr_payload_size fr \<le> length buf"
    and "event_data buf (parse_backend_event fr) = Some (take (fr_payload_size fr) (drop off buf))"
proof -
  show le: "off + fr_payload_size fr \<le> length buf"
    using assms by (auto elim!: next_frame_cases)
  then show "event_data buf (parse_backend_event fr) = Some (take (fr_payload_size fr) (drop off buf))"
    using assms(3) by (simp add: event_data_def)
qed

lemma cell_within_in_buf:
  "cell_within lo hi (length (cu_fields cu)) c \<Longrightarrow> hi \<le> length (cu_buf cu) \<Longrightarrow> cell_in_buf cu c"
  by (auto simp: cell_within_def cell_in_buf_def split: cell_ptr.splits option.splits)

lemma fetch_body_post:
  assumes "next_frame False buf c = Some (fr, c')" and "fr_frame_size fr \<noteq> 0" and "no_wrap buf c'"
    and "cu_buf cu = buf"
  shows "fetch_body buf fr c' (row, cu) = Continue (row, cu) \<or>
    (\<exists>x. fetch_body buf fr c' (row, cu) = Break x \<and> fetch_post buf c cu x)"
proof (cases "fr_payload fr")
  case None
  then show ?thesis by (simp add: fetch_body_def fetch_post_def)
next
  case (Some off)
  note data = frame_payload_range [OF assms(1,2) Some]
  have c': "c < c'" "c' \<le> length buf" using next_frame_progress [OF assms(1)] assms(2) by simp_all
  let ?d = "take (fr_payload_size fr) (drop off buf)"
  have "\<forall>cell \<in> set (snd (parse_data_row off ?d [] (cu_fields cu))).
      cell_within off (off + length ?d) (length (cu_fields cu)) cell"
    by (rule parse_data_row_within)
  moreover have "off + length ?d \<le> length buf" using data(1) by simp
  ultimately have cells: "list_all (cell_in_buf (cu\<lparr>cu_cursor := c'\<rparr>))
      (snd (parse_data_row off ?d [] (cu_fields cu)))"
    using cell_within_in_buf [of off "off + length ?d" "cu\<lparr>cu_cursor := c'\<rparr>"] assms(4)
    by (simp add: list_all_iff)
  consider "event_type (fr_type fr) = PG_EVENT_DATA_ROW" | "event_type (fr_type fr) = PG_EVENT_COPY_DATA"
    | "event_type (fr_type fr) \<noteq> PG_EVENT_DATA_ROW" "event_type (fr_type fr) \<noteq> PG_EVENT_COPY_DATA"
    by blast
  then show ?thesis
  proof cases
    case 1
    then show ?thesis
      using Some cells c' assms(3,4)
      by (auto simp: fetch_body_def with_data_Some [OF data(2)] case_prod_unfold Let_def fetch_post_def)
  next
    case 2
    then show ?thesis
      using Some data(1) c' assms(3,4)
      by (auto simp: fetch_body_def fetch_post_def cell_in_buf_def mk_cell_def)
  next
    case 3
    then show ?thesis
      using Some c' assms(3,4)
      by (auto simp: fetch_body_def with_data_Some [OF data(2)] Let_def fetch_post_def)
  qed
qed

lemma fetch_loop_safe:
  assumes "no_wrap buf c" and "c \<le> length buf" and "cu_buf cu = buf"
  shows "\<exists>x. fetch_loop buf c (row, cu) = Some x \<and> fetch_post buf c cu x"
  using assms
proof (induction rule: no_wrap_induct)
  case (None c)
  then have "no_wrap buf c" by (simp add: no_wrap_def frames_from_None)
  with None show ?case by (auto simp: fetch_fl.loop_None fetch_finish_def fetch_post_def)
next
  case (Some c fr c')
  have c': "c < c'" "c' \<le> length buf" using next_frame_progress [OF Some(1)] Some(2) by simp_all
  from fetch_body_post [OF Some(1-3) \<open>cu_buf cu = buf\<close>, of row] show ?case
  proof
    assume "fetch_body buf fr c' (row, cu) = Continue (row, cu)"
    with Some c' obtain x where "fetch_loop buf c (row, cu) = Some x" "fetch_post buf c' cu x"
      using fetch_fl.loop_Continue [OF Some(1)] by auto
    with c' show ?thesis by (auto simp: fetch_post_def)
  next
    assume "\<exists>x. fetch_body buf fr c' (row, cu) = Break x \<and> fetch_post buf c cu x"
    then show ?thesis using fetch_fl.loop_Break [OF Some(1)] by blast
  qed
qed

lemma fetch_row_safe:
  assumes "cursor_ok cu"
  shows "\<exists>ok row' cu'. fetch_row cu row = Some (ok, row', cu') \<and> cursor_ok cu' \<and>
    cu_buf cu' = cu_buf cu \<and> cu_fields cu' = cu_fields cu \<and> cu_cursor cu \<le> cu_cursor cu' \<and>
    (ok \<longrightarrow> cu_cursor cu < cu_cursor cu' \<and> list_all (cell_in_buf cu') row')"
proof (cases "cu_done cu \<or> cu_cursor cu \<ge> length (cu_buf cu)")
  case True
  with assms show ?thesis
    by (intro exI [of _ False] exI [of _ row] exI [of _ cu]) (simp add: fetch_row_def)
next
  case False
  obtain ok row' cu' where "fetch_loop (cu_buf cu) (cu_cursor cu) (row, cu) = Some (ok, row', cu')"
    "fetch_post (cu_buf cu) (cu_cursor cu) cu (ok, row', cu')"
    using fetch_loop_safe [of "cu_buf cu" "cu_cursor cu" cu row] assms by (auto simp: cursor_ok_def)
  with False assms show ?thesis by (auto simp: fetch_row_def fetch_post_def cursor_ok_def)
qed

lemma copy_cell_in_buf: "cell_in_buf cu c \<Longrightarrow> cl_storage c = [] \<Longrightarrow> copy_cell c = c"
  by (simp add: copy_cell_def)

text \<open>Fetching all rows ends, since every row moves the cursor forward.\<close>

lemma fetch_all_loop_returns:
  assumes "cursor_ok cu"
  shows "\<exists>rows' cu'. fetch_all_loop cu row rows = Some (rows', cu') \<and> cursor_ok cu' \<and>
    cu_buf cu' = cu_buf cu \<and> cu_fields cu' = cu_fields cu \<and> length rows \<le> length rows' \<and>
    cu_cursor cu + length rows' \<le> cu_cursor cu' + length rows"
  using assms
proof (induction "length (cu_buf cu) - cu_cursor cu" arbitrary: cu row rows rule: less_induct)
  case less
  obtain ok row' cu' where fetch: "fetch_row cu row = Some (ok, row', cu')" and cu': "cursor_ok cu'"
      "cu_buf cu' = cu_buf cu" "cu_fields cu' = cu_fields cu" "cu_cursor cu \<le> cu_cursor cu'"
      "ok \<longrightarrow> cu_cursor cu < cu_cursor cu'"
    using fetch_row_safe [OF less.prems, of row] by blast
  show ?case
  proof (cases ok)
    case True
    then have "length (cu_buf cu') - cu_cursor cu' < length (cu_buf cu) - cu_cursor cu"
      using cu' by (auto simp: cursor_ok_def intro: diff_less_mono2)
    from less.hyps [OF this cu'(1), of row' "rows @ [map copy_cell row']"]
    obtain rows' cu2 where "fetch_all_loop cu' row' (rows @ [map copy_cell row']) = Some (rows', cu2)"
      and "cursor_ok cu2" "cu_buf cu2 = cu_buf cu'" "cu_fields cu2 = cu_fields cu'"
        "length (rows @ [map copy_cell row']) \<le> length rows'"
        "cu_cursor cu' + length rows' \<le> cu_cursor cu2 + length (rows @ [map copy_cell row'])"
      by blast
    with True fetch cu' show ?thesis by (subst fetch_all_loop.simps) simp
  next
    case False
    with fetch cu' show ?thesis by (subst fetch_all_loop.simps) simp
  qed
qed

lemma no_wrap_back:
  assumes "next_frame False buf c = Some (fr, c')" and "fr_frame_size fr \<noteq> 0" and "no_wrap buf c'"
  shows "no_wrap buf c"
  using assms by (simp add: no_wrap_def frames_from_Some)

lemma metadata_body_post:
  assumes "next_frame False buf c = Some (fr, c')" and "fr_frame_size fr \<noteq> 0" and "no_wrap buf c'"
    and "cu_buf cu = buf"
  shows "metadata_body buf fr c' cu = Continue cu \<or>
    (\<exists>x. metadata_body buf fr c' cu = Break x \<and> cursor_ok x \<and> cu_buf x = buf \<and> c \<le> cu_cursor x)"
proof -
  have c': "c < c'" "c' \<le> length buf" using next_frame_progress [OF assms(1)] assms(2) by simp_all
  have prev: "c' - fr_frame_size fr = c" using next_frame_progress(1) [OF assms(1)] by simp
  have here: "cursor_ok (cu'\<lparr>cu_cursor := c'\<rparr>)" if "cu_buf cu' = buf" for cu' :: pg_cursor
    using c'(2) assms(3) that by (simp add: cursor_ok_def)
  have there: "cursor_ok (cu\<lparr>cu_cursor := c\<rparr>)"
    using c' no_wrap_back [OF assms(1-3)] assms(4) by (simp add: cursor_ok_def)
  show ?thesis
  proof (cases "fr_payload fr")
    case None
    with c' here [OF assms(4)] assms(4) show ?thesis by (simp add: metadata_body_def)
  next
    case (Some off)
    note data = with_data_Some [OF frame_payload_range(2) [OF assms(1,2) Some]]
    consider "event_type (fr_type fr) = PG_EVENT_ROW_DESCRIPTION"
      | "event_type (fr_type fr) = PG_EVENT_COMMAND_COMPLETE"
      | "event_type (fr_type fr) = PG_EVENT_DATA_ROW \<or> event_type (fr_type fr) = PG_EVENT_COPY_DATA"
      | "event_type (fr_type fr) \<notin> {PG_EVENT_ROW_DESCRIPTION, PG_EVENT_COMMAND_COMPLETE,
          PG_EVENT_DATA_ROW, PG_EVENT_COPY_DATA}"
      by blast
    then show ?thesis
    proof cases
      case 1
      then show ?thesis using Some c' assms(4) by (simp add: metadata_body_def data here)
    next
      case 2
      then show ?thesis using Some c' assms(4) by (simp add: metadata_body_def data here)
    next
      case 3
      then have "metadata_body buf fr c' cu = Break (cu\<lparr>cu_cursor := c\<rparr>)"
        using Some by (elim disjE) (simp_all add: metadata_body_def prev)
      then show ?thesis using there assms(4) by simp
    next
      case 4
      then show ?thesis using Some by (simp add: metadata_body_def)
    qed
  qed
qed

lemma metadata_loop_safe:
  assumes "no_wrap buf c" and "c \<le> length buf" and "cu_buf cu = buf"
  shows "\<exists>cu'. metadata_loop buf c cu = Some cu' \<and> cursor_ok cu' \<and> cu_buf cu' = buf \<and> c \<le> cu_cursor cu'"
  using assms
proof (induction rule: no_wrap_induct)
  case (None c)
  then have "no_wrap buf c" by (simp add: no_wrap_def frames_from_None)
  with None show ?case by (auto simp: metadata_fl.loop_None cursor_ok_def)
next
  case (Some c fr c')
  have c': "c < c'" "c' \<le> length buf" using next_frame_progress [OF Some(1)] Some(2) by simp_all
  from metadata_body_post [OF Some(1-3) \<open>cu_buf cu = buf\<close>] show ?case
  proof
    assume "metadata_body buf fr c' cu = Continue cu"
    then have eq: "metadata_loop buf c cu = metadata_loop buf c' cu"
      by (rule metadata_fl.loop_Continue [OF Some(1)])
    from Some.IH [OF c'(2) \<open>cu_buf cu = buf\<close>] c'(1) show ?thesis unfolding eq by fastforce
  next
    assume "\<exists>x. metadata_body buf fr c' cu = Break x \<and> cursor_ok x \<and> cu_buf x = buf \<and> c \<le> cu_cursor x"
    then show ?thesis using metadata_fl.loop_Break [OF Some(1)] by blast
  qed
qed

lemma parse_metadata_safe:
  assumes "cursor_ok cu"
  shows "\<exists>cu'. parse_metadata cu = Some cu' \<and> cursor_ok cu' \<and> cu_buf cu' = cu_buf cu \<and>
    cu_cursor cu \<le> cu_cursor cu'"
  using metadata_loop_safe [of "cu_buf cu" "cu_cursor cu"] assms
  by (simp add: parse_metadata_def cursor_ok_def)

lemma finish_set_safe:
  assumes "no_wrap buf c" and "c \<le> length buf" and "cu_buf cu = buf" and "cursor_ok cu"
  shows "\<exists>x. finish_set_loop buf c cu = Some x \<and>
    (case x of Inl cu' \<Rightarrow> cursor_ok cu' \<and> cu_buf cu' = buf
     | Inr (cu', c'') \<Rightarrow> cursor_ok cu' \<and> cu_buf cu' = buf \<and> no_wrap buf c'' \<and> c'' \<le> length buf)"
  using assms
proof (induction rule: no_wrap_induct)
  case (None c)
  then have "no_wrap buf c" by (simp add: no_wrap_def frames_from_None)
  with None show ?case by (simp add: finish_set_fl.loop_None)
next
  case (Some c fr c')
  have c': "c' \<le> length buf" using next_frame_progress [OF Some(1)] by simp
  note [simp] = \<open>cu_buf cu = buf\<close> \<open>cursor_ok cu\<close>
  have here: "cursor_ok (cu'\<lparr>cu_cursor := c'\<rparr>)" if "cu_buf cu' = buf" for cu' :: pg_cursor
    using c' Some(3) that by (simp add: cursor_ok_def)
  have tagged: "cursor_ok (cu\<lparr>cu_command_tag := tag, cu_done := True\<rparr>)" for tag
    using \<open>cursor_ok cu\<close> by (simp add: cursor_ok_def)
  show ?case
  proof (cases "fr_payload fr")
    case None
    then have "finish_set_body buf fr c' cu = Break (Inl cu)" by (simp add: finish_set_body_def)
    from finish_set_fl.loop_Break [OF Some(1) this] show ?thesis by simp
  next
    case off: (Some off)
    note data = with_data_Some [OF frame_payload_range(2) [OF Some(1,2) off]]
    let ?d = "take (fr_payload_size fr) (drop off buf)"
    consider "event_type (fr_type fr) = PG_EVENT_COMMAND_COMPLETE" | "event_type (fr_type fr) = PG_EVENT_READY"
      | "event_type (fr_type fr) \<notin> {PG_EVENT_COMMAND_COMPLETE, PG_EVENT_READY}"
      by blast
    then show ?thesis
    proof cases
      case 1
      then have "finish_set_body buf fr c' cu =
          Break (Inr (cu\<lparr>cu_command_tag := parse_command_complete ?d (cu_command_tag cu), cu_done := True\<rparr>, c'))"
        using off by (simp add: finish_set_body_def data)
      from finish_set_fl.loop_Break [OF Some(1) this] show ?thesis using c' Some(3) tagged by simp
    next
      case 2
      then have "finish_set_body buf fr c' cu = Break (Inl (cu\<lparr>cu_done := True, cu_cursor := c'\<rparr>))"
        using off by (simp add: finish_set_body_def)
      from finish_set_fl.loop_Break [OF Some(1) this] show ?thesis using here by simp
    next
      case 3
      then have "finish_set_body buf fr c' cu = Continue cu" using off by (simp add: finish_set_body_def)
      from finish_set_fl.loop_Continue [OF Some(1) this] show ?thesis using Some.IH c' by simp
    qed
  qed
qed

lemma seek_set_safe:
  assumes "no_wrap buf c" and "c \<le> length buf" and "cu_buf cu = buf" and "cursor_ok cu"
  shows "\<exists>ok cu'. seek_set_loop buf c cu = Some (ok, cu') \<and> cursor_ok cu' \<and> cu_buf cu' = buf"
  using assms
proof (induction rule: no_wrap_induct)
  case (None c)
  then have "no_wrap buf c" by (simp add: no_wrap_def frames_from_None)
  with None show ?case by (auto simp: seek_set_fl.loop_None cursor_ok_def)
next
  case (Some c fr c')
  have c': "c < c'" "c' \<le> length buf" using next_frame_progress [OF Some(1)] Some(2) by simp_all
  have prev: "c' - fr_frame_size fr = c" using next_frame_progress(1) [OF Some(1)] by simp
  note buf = \<open>cu_buf cu = buf\<close>
  consider "fr_payload fr = None" | "fr_payload fr \<noteq> None" "event_type (fr_type fr) = PG_EVENT_READY"
    | "fr_payload fr \<noteq> None" "event_type (fr_type fr) \<in> {PG_EVENT_ROW_DESCRIPTION, PG_EVENT_DATA_ROW, PG_EVENT_COMMAND_COMPLETE}"
    | "fr_payload fr \<noteq> None" "event_type (fr_type fr) \<notin> {PG_EVENT_READY, PG_EVENT_ROW_DESCRIPTION, PG_EVENT_DATA_ROW, PG_EVENT_COMMAND_COMPLETE}"
    by blast
  then show ?case
  proof cases
    case 1
    then have "seek_set_body buf fr c' cu = Break (False, cu)" by (simp add: seek_set_body_def)
    from seek_set_fl.loop_Break [OF Some(1) this] show ?thesis using Some(6) buf \<open>cursor_ok cu\<close> by auto
  next
    case 2
    then have "seek_set_body buf fr c' cu = Break (False, cu\<lparr>cu_cursor := c'\<rparr>)"
      by (auto simp: seek_set_body_def)
    from seek_set_fl.loop_Break [OF Some(1) this] show ?thesis
      using c' Some(3) buf by (auto simp: cursor_ok_def)
  next
    case 3
    have "cursor_ok (cu\<lparr>cu_cursor := c\<rparr>)"
      using c' no_wrap_back [OF Some(1-3)] buf by (simp add: cursor_ok_def)
    from parse_metadata_safe [OF this] obtain cu' where
      md: "parse_metadata (cu\<lparr>cu_cursor := c\<rparr>) = Some cu'" and cu': "cursor_ok cu'" "cu_buf cu' = buf"
      using buf by auto
    have "seek_set_body buf fr c' cu = Break (True, cu')"
      using 3 md prev by (elim insertE emptyE) (auto simp: seek_set_body_def)
    from seek_set_fl.loop_Break [OF Some(1) this] show ?thesis using cu' by auto
  next
    case 4
    then have "seek_set_body buf fr c' cu = Continue cu" by (auto simp: seek_set_body_def)
    from seek_set_fl.loop_Continue [OF Some(1) this] show ?thesis
      using Some.IH c' buf \<open>cursor_ok cu\<close> by simp
  qed
qed

lemma next_result_set_safe:
  assumes "cursor_ok cu"
  shows "\<exists>ok cu'. next_result_set cu = Some (ok, cu') \<and> cursor_ok cu' \<and> cu_buf cu' = cu_buf cu"
proof -
  let ?first = "if cu_done cu then Some (Inr (cu, cu_cursor cu))
    else finish_set_loop (cu_buf cu) (cu_cursor cu) cu"
  obtain x where first: "?first = Some x" and x: "case x of Inl cu' \<Rightarrow> cursor_ok cu' \<and> cu_buf cu' = cu_buf cu
      | Inr (cu', c) \<Rightarrow> cursor_ok cu' \<and> cu_buf cu' = cu_buf cu \<and> no_wrap (cu_buf cu) c \<and> c \<le> length (cu_buf cu)"
    using finish_set_safe [of "cu_buf cu" "cu_cursor cu" cu] assms
    by (cases "cu_done cu") (auto simp: cursor_ok_def)
  show ?thesis
  proof (cases x)
    case (Inl cu')
    with first x show ?thesis by (auto simp: next_result_set_def)
  next
    case (Inr y)
    obtain cu' c where y: "y = (cu', c)" by force
    with Inr x have "\<exists>ok cu''. seek_set_loop (cu_buf cu) c cu' = Some (ok, cu'') \<and> cursor_ok cu'' \<and> cu_buf cu'' = cu_buf cu"
      by (intro seek_set_safe) simp_all
    with first Inr y show ?thesis by (auto simp: next_result_set_def)
  qed
qed


subsection \<open>Rows as maps\<close>

text \<open>A column name that occurs twice keeps its first cell.\<close>

lemma insert_row_fold:
  "insert_row flds row m = fold (\<lambda>(k, v). map_insert k v) (zip (map fd_name flds) (map copy_cell row)) m"
  by (induction flds row m rule: insert_row.induct) auto

lemma insert_row_find:
  assumes "map_sorted m"
  shows "map_find (insert_row flds row m) k =
    (case map_find m k of Some v \<Rightarrow> Some v | None \<Rightarrow> map_of (zip (map fd_name flds) (map copy_cell row)) k)"
  using smap.find_fold_emplace [OF assms, of "zip (map fd_name flds) (map copy_cell row)" k]
  by (simp add: insert_row_fold split: option.split)

lemma insert_row_hash_find:
  "insert_row_hash flds row m k =
    (case m k of Some v \<Rightarrow> Some v | None \<Rightarrow> map_of (zip (map fd_name flds) (map copy_cell row)) k)"
  by (induction flds row m rule: insert_row_hash.induct) (auto split: option.split)

lemma insert_row_empty:
  "map_of (insert_row flds row []) k = map_of (zip (map fd_name flds) (map copy_cell row)) k"
  using insert_row_find [OF smap.wf_empty, of flds row k] by (simp add: map_find_def)

lemma insert_row_sorted: "map_sorted m \<Longrightarrow> map_sorted (insert_row flds row m)"
  by (simp add: insert_row_fold smap.find_fold_emplace)

lemma fetch_row_map_hash:
  assumes "fetch_row_map cu m = Some (ok, m', cu')" and "fetch_row_hash cu h = Some (ok', h', cu'')"
  shows "ok' = ok \<and> cu'' = cu' \<and> (ok \<longrightarrow> (\<forall>k. h' k = map_find m' k))"
  using assms
  by (auto simp: fetch_row_map_def fetch_row_hash_def insert_row_empty
      insert_row_hash_find map_find_def split: option.splits if_splits)

text \<open>Both show the cell of the first column of a name, and the map is sorted.\<close>

lemma fetch_row_maps_agree:
  assumes "fetch_row cu [] = Some (True, row, cu')" and "length row \<le> length (cu_fields cu')"
  shows "\<exists>m' h'. fetch_row_map cu m = Some (True, m', cu') \<and> fetch_row_hash cu h = Some (True, h', cu') \<and>
    map_sorted m' \<and> (\<forall>k. h' k = map_find m' k \<and>
      h' k = map_of (zip (map fd_name (cu_fields cu')) (map copy_cell row)) k)"
  using assms insert_row_sorted [of "[]"]
  by (simp add: fetch_row_map_def fetch_row_hash_def insert_row_empty insert_row_hash_find map_find_def
      map_sorted_def)

subsection \<open>Owned copies\<close>

lemma cell_in_buf_wf: "cell_in_buf cu c \<Longrightarrow> wf_cell c"
  by (auto simp: cell_in_buf_def wf_cell_def split: cell_ptr.splits)

lemma detach_in_buf:
  assumes "cell_in_buf cu c"
  shows "\<exists>c'. detach (cu_buf cu) c = Some c' \<and> (\<forall>buf. cell_value buf c' = cell_value (cu_buf cu) c)"
proof -
  have wf: "wf_cell c" by (rule cell_in_buf_wf [OF assms])
  have "\<exists>c'. detach (cu_buf cu) c = Some c'"
    using assms
    by (cases "cl_data c")
      (auto simp: detach_def cell_bytes_def cell_in_buf_def cell_off_def cell_mem_def)
  then obtain c' where c': "detach (cu_buf cu) c = Some c'" by blast
  then show ?thesis
    using detach_bytes [OF wf c'] detach_frame(1) [OF c'] by (auto simp: cell_value_def)
qed

lemma detach_row_values:
  assumes "list_all (cell_in_buf cu) row"
  shows "\<exists>row'. detach_row (cu_buf cu) row = Some row' \<and>
    (\<forall>buf. row_values buf row' = row_values (cu_buf cu) row)"
  using assms
proof (induction row)
  case (Cons c row)
  then obtain row' where row': "detach_row (cu_buf cu) row = Some row'"
    "\<And>buf. row_values buf row' = row_values (cu_buf cu) row"
    by auto
  obtain c' where "detach (cu_buf cu) c = Some c'" "\<And>buf. cell_value buf c' = cell_value (cu_buf cu) c"
    using detach_in_buf [of cu c] Cons.prems by auto
  with row' show ?case by (simp add: detach_row_def row_values_def split: option.split)
qed (simp add: detach_row_def row_values_def)

text \<open>The rows \<open>fetch_row_copy\<close> hands out mean the same whatever becomes of the buffer.\<close>

lemma fetch_row_copy_values:
  assumes "cursor_ok cu" and "fetch_row cu row = Some (True, row1, cu')"
  shows "\<exists>row2. fetch_row_copy cu row = Some (True, row2, cu') \<and>
    (\<forall>buf. row_values buf row2 = row_values (cu_buf cu) row1)"
proof -
  have "list_all (cell_in_buf cu') row1" and "cu_buf cu' = cu_buf cu"
    using fetch_row_safe [OF assms(1), of row] assms(2) by auto
  with detach_row_values [of cu' row1] assms(2) show ?thesis
    by (auto simp: fetch_row_copy_def)
qed

subsection \<open>Command tags\<close>

lemma tag_tokens_word:
  assumes "w \<noteq> []" and "CHR '' '' \<notin> set w"
  shows "tag_tokens w = [w]" and "tag_tokens (w @ CHR '' '' # rest) = w # tag_tokens rest"
proof -
  obtain c cs where w: "w = c # cs" using assms(1) by (cases w) auto
  have no: "\<forall>x \<in> set w. x \<noteq> CHR '' ''" using assms(2) by auto
  have tw: "takeWhile (\<lambda>c. c \<noteq> CHR '' '') w = w" "dropWhile (\<lambda>c. c \<noteq> CHR '' '') w = []"
    using no by (simp_all add: takeWhile_eq_all_conv)
  have start: "dropWhile (\<lambda>c. c = CHR '' '') (w @ t) = w @ t" for t
    using no by (simp add: w)
  have "tag_tokens [] = []" by (subst tag_tokens.simps) simp
  then show "tag_tokens w = [w]"
    using start [of "[]"] tw assms(1) by (subst tag_tokens.simps) (simp only: append_Nil2 Let_def if_False)
  have skip: "tag_tokens (CHR '' '' # rest) = tag_tokens rest"
    by (subst (1 2) tag_tokens.simps) simp
  have "takeWhile (\<lambda>c. c \<noteq> CHR '' '') (w @ CHR '' '' # rest) = w"
    and "dropWhile (\<lambda>c. c \<noteq> CHR '' '') (w @ CHR '' '' # rest) = CHR '' '' # rest"
    using takeWhile_append_stop [OF no] dropWhile_append_stop [OF no] by simp_all
  then show "tag_tokens (w @ CHR '' '' # rest) = w # tag_tokens rest"
    using start [of "CHR '' '' # rest"] skip assms(1) by (subst tag_tokens.simps) (simp add: Let_def)
qed

lemma show_nat_word: "show_nat n \<noteq> []" "CHR '' '' \<notin> set (show_nat n)"
  by (simp_all add: show_nat_not_Nil not_in_show_nat isdigit_def)

lemma token_number_show_nat:
  assumes "n < 2 ^ 64"
  shows "token_number (show_nat n) = n"
proof -
  have "c_str (show_nat n) = show_nat n"
    by (rule c_str_id) (simp add: not_in_show_nat isdigit_def)
  with strtoull_show_nat [OF assms] show_nat_digits show ?thesis
    by (simp add: token_number_def show_nat_not_Nil)
qed

lemma insert_tag_parts:
  assumes "oid < 2 ^ 64" and "n < 2 ^ 64"
  shows "parse_command_tag_parts (''INSERT '' @ show_nat oid @ '' '' @ show_nat n) = (''INSERT'', oid, n)"
proof -
  have "tag_tokens (''INSERT'' @ CHR '' '' # show_nat oid @ CHR '' '' # show_nat n) =
      [''INSERT'', show_nat oid, show_nat n]"
    by (subst tag_tokens_word(2), simp, simp) (simp add: tag_tokens_word show_nat_word)
  then show ?thesis 
    by (simp add: parse_command_tag_parts_def token_number_show_nat [OF assms(1)]
        token_number_show_nat [OF assms(2)])
qed

lemma count_tag_parts:
  assumes "cmd \<noteq> []" and "CHR '' '' \<notin> set cmd" and "n < 2 ^ 64"
  shows "parse_command_tag_parts (cmd @ '' '' @ show_nat n) = (cmd, 0, n)"
  using tag_tokens_word(2) [OF assms(1,2), of "show_nat n"]
  by (simp add: parse_command_tag_parts_def token_number_show_nat [OF assms(3)] tag_tokens_word show_nat_word)

end
