(* ===== verification/Client.thy ===== *)
theory Client
  imports Session Cursor
begin

section \<open>Factories, connections and status: src/factory/PostgresTaskImpl.cc, src/client/WFPostgresConnection.cc\<close>

text \<open>
  How a task gets its settings (\<open>init_success\<close>), the factory functions, the
  \<open>WFPostgresConnection\<close> that binds its tasks to one physical connection, and the
  \<open>PostgresStatus\<close> of a finished task (include/PostgresStatus.h). The framework's
  \<open>init\<close> is taken to call \<open>init_success\<close> on a parsed URL.
\<close>

subsection \<open>Task settings\<close>

definition scheme_valid :: "parsed_uri \<Rightarrow> bool" where
  "scheme_valid uri \<longleftrightarrow>
     (case uri_scheme uri of
        None \<Rightarrow> False
      | Some s \<Rightarrow> strcasecmp_eq s ''postgres'' \<or> strcasecmp_eq s ''postgresql'' \<or>
                  strcasecmp_eq s ''postgresqls'')"

definition init_success :: "workflow \<Rightarrow> ssl_env \<Rightarrow> pg_task \<Rightarrow> bool \<times> pg_task" where
  "init_success wkf env tk =
     (let uri = tk_uri tk in
      if \<not> scheme_valid uri then
        (False, tk\<lparr>tk_state := WFT_STATE_TASK_ERROR, tk_error := wf_err_uri_scheme_invalid wkf\<rparr>)
      else
        let query_map = parse_query wkf (uri_query uri) [];
            is_ssl = is_ssl_required uri query_map;
            verify_full = (tk_verify_full tk \<or>
              map_find query_map ''sslmode'' = Some ''verify-full'' \<and> uri_host uri \<noteq> None);
            (user, pass, db) = extract_auth_info wkf uri (tk_user tk, tk_pass tk, tk_db tk);
            tk = tk\<lparr>tk_is_ssl := is_ssl, tk_verify_full := verify_full, tk_user := user,
                    tk_pass := pass, tk_db := db,
                    tk_startup_params := extract_startup_params query_map (tk_startup_params tk)\<rparr>;
            (ok, (ctx, owns), err) =
              (if is_ssl \<and> tk_ssl_ctx tk = None
               then setup_ssl_ctx env uri query_map False (tk_ssl_ctx tk, tk_owns_ssl_ctx tk)
               else (True, (tk_ssl_ctx tk, tk_owns_ssl_ctx tk), None));
            tk = tk\<lparr>tk_ssl_ctx := ctx, tk_owns_ssl_ctx := owns\<rparr>
        in if \<not> ok then (False, set_failure err tk)
           else
             let tk = tk\<lparr>tk_info := connection_info is_ssl user pass db uri query_map\<rparr>
             in (True, if map_find query_map ''transaction'' = None then tk
                       else tk\<lparr>tk_fixed_addr := True, tk_fixed_conn := True\<rparr>))"

definition set_my_ssl_ctx :: "ssl_ctx option \<Rightarrow> pg_task \<Rightarrow> pg_task" where
  "set_my_ssl_ctx ctx tk =
     (if tk_ssl_ctx tk = ctx then tk else tk\<lparr>tk_ssl_ctx := ctx, tk_owns_ssl_ctx := False\<rparr>)"

text \<open>The credentials to cancel a query with: from its connection, or from its response.\<close>

definition get_backend_credentials :: "pg_conn option \<Rightarrow> pg_response \<Rightarrow> (i32 \<times> bytes) option" where
  "get_backend_credentials conn resp =
     (case conn of
        Some c \<Rightarrow>
          if cn_backend_pid c \<noteq> 0 then Some (cn_backend_pid c, cn_backend_secret_data c)
          else if rs_backend_pid resp \<noteq> 0 then Some (rs_backend_pid resp, rs_backend_secret_data resp)
          else None
      | None \<Rightarrow>
          if rs_backend_pid resp \<noteq> 0 then Some (rs_backend_pid resp, rs_backend_secret_data resp)
          else None)"

subsection \<open>Factories\<close>

definition create_postgres_task :: "workflow \<Rightarrow> ssl_env \<Rightarrow> parsed_uri \<Rightarrow> pg_task" where
  "create_postgres_task wkf env uri =
     (let (ok, tk) = init_success wkf env (new_task uri)
      in tk\<lparr>tk_keep_alive_timeo := (if tk_fixed_conn tk then POSTGRES_KEEPALIVE_TRANSACTION
                                  else POSTGRES_KEEPALIVE_DEFAULT)\<rparr>)"

text \<open>
  The factory that takes a URL. \<open>fail\<close> is what the framework's \<open>init\<close> does with a task whose URL
  it cannot parse.
\<close>

definition empty_uri :: parsed_uri where
  "empty_uri = \<lparr>uri_scheme = None, uri_userinfo = None, uri_host = None, uri_port = None,
     uri_path = None, uri_query = None\<rparr>"

definition create_postgres_task_url :: "workflow \<Rightarrow> ssl_env \<Rightarrow> (pg_task \<Rightarrow> pg_task) \<Rightarrow> bytes \<Rightarrow> pg_task" where
  "create_postgres_task_url wkf env fail url =
     (let tk = (case wf_uri_parse wkf url of
                  UriOk uri \<Rightarrow> snd (init_success wkf env (new_task uri))
                | _ \<Rightarrow> fail (new_task empty_uri))
      in tk\<lparr>tk_keep_alive_timeo := (if tk_fixed_conn tk then POSTGRES_KEEPALIVE_TRANSACTION
                                  else POSTGRES_KEEPALIVE_DEFAULT)\<rparr>)"

lemma create_postgres_task_url_ok:
  "wf_uri_parse wkf url = UriOk uri \<Longrightarrow> create_postgres_task_url wkf env fail url = create_postgres_task wkf env uri"
  by (simp add: create_postgres_task_url_def create_postgres_task_def split: prod.split)

definition create_cancel_task :: "workflow \<Rightarrow> ssl_env \<Rightarrow> parsed_uri \<Rightarrow> i32 \<Rightarrow> bytes \<Rightarrow> pg_task" where
  "create_cancel_task wkf env uri pid secret_data =
     (let query = (case uri_query uri of None \<Rightarrow> ''cancel=1'' | Some q \<Rightarrow> q @ ''&cancel=1'');
          tk = create_postgres_task wkf env (uri\<lparr>uri_query := Some query\<rparr>)
      in tk\<lparr>tk_req := set_cancel pid secret_data (tk_req tk), tk_keep_alive_timeo := 0\<rparr>)"

definition cancel_task_of :: "workflow \<Rightarrow> ssl_env \<Rightarrow> pg_task \<Rightarrow> pg_conn option \<Rightarrow> pg_task" where
  "cancel_task_of wkf env query_task conn =
     (let (pid, secret) = (case get_backend_credentials conn (tk_resp query_task) of
                             None \<Rightarrow> (0, []) | Some cr \<Rightarrow> cr)
      in create_cancel_task wkf env (tk_uri query_task) pid secret)"

definition create_disconnect_task :: "workflow \<Rightarrow> ssl_env \<Rightarrow> parsed_uri \<Rightarrow> pg_task" where
  "create_disconnect_task wkf env uri =
     (let tk = create_postgres_task wkf env uri
      in tk\<lparr>tk_req := set_is_disconnect True (tk_req tk), tk_keep_alive_timeo := 0\<rparr>)"

subsection \<open>WFPostgresConnection\<close>

record pg_connection =
  cx_uri :: "parsed_uri option"
  cx_ssl_ctx :: "ssl_ctx option"
  cx_owns_ssl_ctx :: bool
  cx_id :: int
  cx_handle :: conn_handle

definition new_connection :: "int \<Rightarrow> pg_connection" where
  "new_connection n =
     \<lparr>cx_uri = None, cx_ssl_ctx = None, cx_owns_ssl_ctx = False, cx_id = n,
      cx_handle = \<lparr>hd_last_tx_state = CHR ''I'', hd_backend_pid = 0, hd_backend_secret_data = []\<rparr>\<rparr>"

definition in_transaction :: "pg_connection \<Rightarrow> bool" where
  "in_transaction cx \<longleftrightarrow> hd_last_tx_state (cx_handle cx) = CHR ''T''"

definition is_transaction_failed :: "pg_connection \<Rightarrow> bool" where
  "is_transaction_failed cx \<longleftrightarrow> hd_last_tx_state (cx_handle cx) = CHR ''E''"

text \<open>The return value, \<open>errno\<close> when it is set, and the connection.\<close>

definition connection_init ::
  "workflow \<Rightarrow> ssl_env \<Rightarrow> bytes \<Rightarrow> ssl_ctx option \<Rightarrow> pg_connection \<Rightarrow> int \<times> int option \<times> pg_connection" where
  "connection_init wkf env url user_ctx cx =
     (case wf_uri_parse wkf url of
        UriOk uri \<Rightarrow>
          let query = (case uri_query uri of None \<Rightarrow> [] | Some q \<Rightarrow> q @ ''&'');
              query_map = parse_query wkf (uri_query uri) [];
              (ok, ctx, owns) =
                (case user_ctx of
                   Some c \<Rightarrow> (True, Some c, False)
                 | None \<Rightarrow>
                     if is_ssl_required uri query_map
                     then (let (ok, (ctx, owns), err) =
                             setup_ssl_ctx env uri query_map True (cx_ssl_ctx cx, cx_owns_ssl_ctx cx)
                           in (ok, ctx, owns))
                     else (True, cx_ssl_ctx cx, cx_owns_ssl_ctx cx));
              cx = cx\<lparr>cx_ssl_ctx := ctx, cx_owns_ssl_ctx := owns\<rparr>
          in if \<not> ok then (-1, Some EINVAL, cx)
             else (0, None, cx\<lparr>cx_uri := Some (uri\<lparr>uri_query :=
                     Some (query @ ''transaction=INTERNAL_CONN_ID_'' @ to_string (cx_id cx))\<rparr>)\<rparr>)
      | UriInvalid \<Rightarrow> (-1, Some EINVAL, cx)
      | UriError \<Rightarrow> (-1, None, cx))"

definition connection_deinit :: "pg_connection \<Rightarrow> pg_connection" where
  "connection_deinit cx =
     (if cx_owns_ssl_ctx cx \<and> cx_ssl_ctx cx \<noteq> None
      then cx\<lparr>cx_ssl_ctx := None, cx_owns_ssl_ctx := False\<rparr> else cx)"

text \<open>The tasks of a connection, with the URL of a connection that is initialised.\<close>

definition connection_query_task ::
  "workflow \<Rightarrow> ssl_env \<Rightarrow> pg_connection \<Rightarrow> parsed_uri \<Rightarrow> bytes \<Rightarrow> pg_task" where
  "connection_query_task wkf env cx uri query =
     (let tk = set_my_ssl_ctx (cx_ssl_ctx cx) (create_postgres_task wkf env uri)
      in tk\<lparr>tk_req := set_query query (tk_req tk)\<rparr>)"

definition connection_params_task ::
  "workflow \<Rightarrow> ssl_env \<Rightarrow> pg_connection \<Rightarrow> parsed_uri \<Rightarrow> bytes \<Rightarrow> pg_parameter list \<Rightarrow> pg_task" where
  "connection_params_task wkf env cx uri query params =
     (let tk = set_my_ssl_ctx (cx_ssl_ctx cx) (create_postgres_task wkf env uri)
      in tk\<lparr>tk_req := set_query_params query params (tk_req tk)\<rparr>)"

definition connection_disconnect_task ::
  "workflow \<Rightarrow> ssl_env \<Rightarrow> pg_connection \<Rightarrow> parsed_uri \<Rightarrow> pg_task" where
  "connection_disconnect_task wkf env cx uri =
     set_my_ssl_ctx (cx_ssl_ctx cx) (create_disconnect_task wkf env uri)"

definition connection_cancel_task ::
  "workflow \<Rightarrow> ssl_env \<Rightarrow> pg_connection \<Rightarrow> parsed_uri \<Rightarrow> pg_task" where
  "connection_cancel_task wkf env cx uri =
     set_my_ssl_ctx (cx_ssl_ctx cx)
       (create_cancel_task wkf env uri (hd_backend_pid (cx_handle cx)) (hd_backend_secret_data (cx_handle cx)))"

subsection \<open>PostgresStatus\<close>

datatype status_kind = STATUS_SUCCESS | STATUS_TRANSPORT_ERROR | STATUS_SERVER_ERROR | STATUS_EMPTY_RESPONSE

record pg_status =
  stt_kind :: status_kind
  stt_transport_state :: wft_state
  stt_transport_error :: int
  stt_sqlstate :: bytes
  stt_error_message :: bytes
  stt_server_error :: pg_error

definition status_success :: pg_status where
  "status_success = \<lparr>stt_kind = STATUS_SUCCESS, stt_transport_state = WFT_STATE_SUCCESS,
     stt_transport_error = 0, stt_sqlstate = [], stt_error_message = [], stt_server_error = empty_error\<rparr>"

text \<open>\<open>num\<close> gives the number of a task state.\<close>

definition from_transport_error :: "(wft_state \<Rightarrow> int) \<Rightarrow> wft_state \<Rightarrow> int \<Rightarrow> pg_status" where
  "from_transport_error num state error =
     status_success\<lparr>stt_kind := STATUS_TRANSPORT_ERROR, stt_transport_state := state,
       stt_transport_error := error,
       stt_error_message := ''Transport error (state='' @ to_string (num state) @ '', error='' @
         to_string error @ '')''\<rparr>"

definition from_server_error :: "pg_error \<Rightarrow> pg_status" where
  "from_server_error err =
     status_success\<lparr>stt_kind := STATUS_SERVER_ERROR, stt_server_error := err,
       stt_sqlstate := err_sql_state err, stt_error_message := err_message err\<rparr>"

definition status_from_task :: "(wft_state \<Rightarrow> int) \<Rightarrow> pg_task option \<Rightarrow> pg_status" where
  "status_from_task num task =
     (case task of
        None \<Rightarrow> status_success\<lparr>stt_kind := STATUS_EMPTY_RESPONSE, stt_error_message := ''Task is null''\<rparr>
      | Some tk \<Rightarrow>
          if tk_state tk \<noteq> WFT_STATE_SUCCESS then from_transport_error num (tk_state tk) (tk_error tk)
          else if rs_is_error (tk_resp tk) then from_server_error (rs_error (tk_resp tk))
          else status_success)"

definition status_ok :: "pg_status \<Rightarrow> bool" where
  "status_ok s \<longleftrightarrow> stt_kind s = STATUS_SUCCESS"

definition status_to_string :: "(wft_state \<Rightarrow> int) \<Rightarrow> pg_status \<Rightarrow> bytes" where
  "status_to_string num s =
     (if status_ok s then ''OK''
      else if stt_kind s = STATUS_SERVER_ERROR then
        ''[Server Error]'' @
        (if stt_sqlstate s \<noteq> [] then '' SQLSTATE: '' @ stt_sqlstate s else []) @
        (if stt_error_message s \<noteq> [] then '' '' @ stt_error_message s else [])
      else if stt_kind s = STATUS_TRANSPORT_ERROR then
        ''[Transport Error] state='' @ to_string (num (stt_transport_state s)) @ '' error='' @
        to_string (stt_transport_error s) @ '' ('' @ stt_error_message s @ '')''
      else ''[Empty/Invalid Response] '' @ stt_error_message s)"

lemmas client_defs [step_defs] =
  init_success_def create_postgres_task_def create_cancel_task_def create_disconnect_task_def
  connection_init_def connection_query_task_def connection_params_task_def
  connection_disconnect_task_def connection_cancel_task_def status_from_task_def


subsection \<open>The startup message of a task\<close>

lemma init_success_params:
  assumes "init_success wkf env (new_task uri) = (True, tk)"
  shows "tk_startup_params tk = extract_startup_params (parse_query wkf (uri_query uri) []) []"
    and "tk_target_protocol_version tk = 196610" and "tk_startup_req tk = None"
    and "tk_is_ssl tk = is_ssl_required uri (parse_query wkf (uri_query uri) [])"
    and "scheme_valid uri"
    and "(tk_user tk, tk_pass tk, tk_db tk) = extract_auth_info wkf uri ([], [], [])"
    and "tk_fixed_conn tk = (map_find (parse_query wkf (uri_query uri) []) ''transaction'' \<noteq> None)"
    and "tk_info tk = connection_info (tk_is_ssl tk) (tk_user tk) (tk_pass tk) (tk_db tk) uri
           (parse_query wkf (uri_query uri) [])"
  using assms
  by (auto simp: init_success_def new_task_def Let_def split: if_splits prod.splits)

text \<open>What \<open>sslmode=verify-full\<close> configures.\<close>

lemma init_success_verify_full:
  assumes "init_success wkf env (new_task uri) = (True, tk)"
    and "map_find (parse_query wkf (uri_query uri) []) ''sslmode'' = Some ''verify-full''"
    and "uri_host uri = Some h"
  obtains ctx where "tk_is_ssl tk" "tk_verify_full tk" "tk_uri tk = uri" "tk_ssl_ctx tk = Some ctx"
    "ctx_verify_peer ctx" "ctx_ca_file ctx = map_find (parse_query wkf (uri_query uri) []) ''sslrootcert''"
proof -
  let ?qm = "parse_query wkf (uri_query uri) []"
  obtain ok ctx owns err where cfg: "setup_ssl_ctx env uri ?qm False (None, False) = (ok, (ctx, owns), err)"
    by (metis prod.collapse)
  have ssl: "is_ssl_required uri ?qm" using assms(2) by (simp add: is_ssl_required_def)
  have "ok" "tk_is_ssl tk" "tk_verify_full tk" "tk_uri tk = uri" "tk_ssl_ctx tk = ctx"
    using assms cfg ssl
    by (auto simp: init_success_def new_task_def Let_def split: if_splits prod.splits)
  with setup_ssl_ctx_verifies [OF _ cfg] assms(2) that show thesis
    by (auto simp: verify_mode_def)
qed

lemma make_startup_req_simps:
  "rq_user (make_startup_req tk) = tk_user tk" "rq_db (make_startup_req tk) = tk_db tk"
  "rq_startup_params (make_startup_req tk) = tk_startup_params tk"
  "rq_protocol_version (make_startup_req tk) = tk_target_protocol_version tk"
  "request_encode (make_startup_req tk) = encode_startup (make_startup_req tk)"
  by (simp_all add: make_startup_req_def request_setters set_request_auth_def new_request_def request_encode_def)

lemma startup_message_decoded:
  assumes ok: "init_success wkf env (new_task uri) = (True, tk)"
    and "NUL \<notin> set (tk_user tk)" and "NUL \<notin> set (tk_db tk)"
    and "\<forall>(k, v) \<in> set (tk_startup_params tk). NUL \<notin> set k \<and> NUL \<notin> set v"
    and "length (request_sent (request_encode (make_startup_req tk))) < 2 ^ 32"
  shows "srv_startup (request_sent (request_encode (make_startup_req tk))) =
    Some (196610, (''user'', tk_user tk) # (if tk_db tk = [] then [] else [(''database'', tk_db tk)]) @
      filter (\<lambda>(k, v). k \<noteq> ''user'' \<and> k \<noteq> ''database'') (tk_startup_params tk))"
proof -
  have keys: "k \<noteq> []" if "(k, v) \<in> set (tk_startup_params tk)" for k v
    using that extract_startup_params_keys [of k "parse_query wkf (uri_query uri) []"]
      init_success_params(1) [OF ok] by force
  have "srv_startup (request_sent (encode_startup (make_startup_req tk))) =
      Some (rq_protocol_version (make_startup_req tk), startup_pairs (make_startup_req tk))"
    by (rule srv_startup_encode) (use assms keys in \<open>auto simp: make_startup_req_simps\<close>)
  then show ?thesis
    by (simp add: make_startup_req_simps init_success_params(2) [OF ok] startup_pairs_def)
qed

text \<open>In terms of the URL: its user, database and password, and what its query asks for.\<close>

lemma startup_message_of_url:
  assumes ok: "init_success wkf env (new_task uri) = (True, tk)"
    and "uri_userinfo uri = Some (u @ (case p of None \<Rightarrow> [] | Some x \<Rightarrow> CHR '':'' # x)) \<or>
      uri_userinfo uri = None \<and> u = [] \<and> p = None"
    and "CHR '':'' \<notin> set u"
    and "uri_path uri = Some (CHR ''/'' # d) \<or> uri_path uri = None \<and> d = []"
    and no_NUL: "NUL \<notin> set (wf_url_decode wkf u)" "NUL \<notin> set (wf_url_decode wkf d)"
    and "\<forall>(k, v) \<in> set (tk_startup_params tk). NUL \<notin> set k \<and> NUL \<notin> set v"
    and "length (request_sent (request_encode (make_startup_req tk))) < 2 ^ 32"
  shows "tk_pass tk = wf_url_decode wkf (case p of None \<Rightarrow> [] | Some x \<Rightarrow> x) \<and>
    (\<exists>params. srv_startup (request_sent (request_encode (make_startup_req tk))) =
        Some (196610, (''user'', wf_url_decode wkf u) #
          (if wf_url_decode wkf d = [] then [] else [(''database'', wf_url_decode wkf d)]) @ params) \<and>
      distinct (map fst params) \<and>
      (\<forall>k. map_of params k = wanted_param (parse_query wkf (uri_query uri) []) k))"
proof -
  have auth: "tk_user tk = wf_url_decode wkf u" "tk_pass tk = wf_url_decode wkf (case p of None \<Rightarrow> [] | Some x \<Rightarrow> x)"
      "tk_db tk = wf_url_decode wkf d"
    using init_success_params(6) [OF ok] extract_auth_info_parts [OF assms(2-4), of wkf] by simp_all
  have "map_sorted (parse_query wkf (uri_query uri) [])" by (rule parse_query_sorted) (simp add: map_sorted_def)
  note sent = sent_params_wanted [OF this, folded init_success_params(1) [OF ok]]
  from startup_message_decoded [OF ok _ _ assms(7,8)] no_NUL auth sent show ?thesis by auto
qed

subsection \<open>Tasks of a connection are bound to it\<close>

text \<open>
  The documented behaviour of \<open>split_query\<close> the connection relies on: a last parameter
  \<open>transaction=\<dots>\<close> makes the key present.
\<close>

definition finds_transaction :: "workflow \<Rightarrow> bool" where
  "finds_transaction wkf \<longleftrightarrow>
     (\<forall>q v. (q = [] \<or> last q = CHR ''&'') \<and> CHR ''&'' \<notin> set v \<longrightarrow>
        map_of (wf_split_query wkf (q @ ''transaction='' @ v)) ''transaction'' \<noteq> None)"

lemma parse_query_keeps_key:
  assumes "map_of (wf_split_query wkf q) k \<noteq> None" and "map tolower k = k"
  shows "map_find (parse_query wkf (Some q) []) k \<noteq> None"
proof -
  have keep: "k \<in> set (map fst (fold (\<lambda>(k, v) m. map_assign (f k) (g v) m) kvs m))"
    if "k \<in> f ` set (map fst kvs) \<or> k \<in> set (map fst m)"
    for f :: "bytes \<Rightarrow> bytes" and g :: "bytes \<Rightarrow> bytes" and kvs m
    using that
  proof (induction kvs arbitrary: m)
    case (Cons kv kvs)
    then show ?case
      by (cases kv) (auto simp: fst_set_map_assign simp del: set_map)
  qed simp
  have "k \<in> set (map fst (wf_split_query wkf q))"
    using assms(1) by (simp add: map_of_eq_None_iff)
  then have "k \<in> map tolower ` set (map fst (wf_split_query wkf q))"
    using assms(2) by (metis image_eqI)
  from keep [of "map tolower" "wf_split_query wkf q" "[]" "wf_url_decode wkf"] this show ?thesis
    by (simp add: map_find_def map_of_eq_None_iff parse_query_def)
qed

lemma connection_init_query:
  assumes "connection_init wkf env url user_ctx cx = (0, e, cx')"
  shows "\<exists>uri q. cx_uri cx' = Some uri \<and> (q = [] \<or> last q = CHR ''&'') \<and>
    uri_query uri = Some (q @ ''transaction=INTERNAL_CONN_ID_'' @ to_string (cx_id cx))"
proof -
  obtain uri where uri: "wf_uri_parse wkf url = UriOk uri"
    using assms by (auto simp: connection_init_def split: uri_parse_result.splits)
  let ?q = "case uri_query uri of None \<Rightarrow> [] | Some q \<Rightarrow> q @ ''&''"
  have "cx_uri cx' = Some (uri\<lparr>uri_query := Some (?q @ ''transaction=INTERNAL_CONN_ID_'' @ to_string (cx_id cx))\<rparr>)"
    using assms uri by (auto simp: connection_init_def Let_def split: prod.splits if_splits)
  moreover have "?q = [] \<or> last ?q = CHR ''&''" by (simp split: option.split)
  ultimately show ?thesis by force
qed

lemma to_string_no_amp: "CHR ''&'' \<notin> set (to_string v)"
  by (auto simp: to_string_def not_in_show_nat isdigit_def)

lemma fixed_conn_of_key:
  assumes "init_success wkf env (new_task uri) = (True, tk)"
    and "map_find (parse_query wkf (uri_query uri) []) ''transaction'' \<noteq> None"
  shows "tk_fixed_conn tk"
  using init_success_params(7) [OF assms(1)] assms(2) by simp

lemma connection_tasks_fixed:
  assumes fk: "finds_transaction wkf" and init: "connection_init wkf env url user_ctx cx = (0, e, cx')"
    and uri: "cx_uri cx' = Some uri" and ok: "init_success wkf env' (new_task uri) = (True, tk)"
  shows "tk_fixed_conn (connection_query_task wkf env' cx' uri query)"
    and "tk_fixed_conn (connection_params_task wkf env' cx' uri query params)"
    and "tk_fixed_conn (connection_disconnect_task wkf env' cx' uri)"
    and "tk_keep_alive_timeo (connection_query_task wkf env' cx' uri query) = POSTGRES_KEEPALIVE_TRANSACTION"
    and "tk_keep_alive_timeo (connection_params_task wkf env' cx' uri query params) = POSTGRES_KEEPALIVE_TRANSACTION"
proof -
  from connection_init_query [OF init] uri obtain q where q: "q = [] \<or> last q = CHR ''&''"
    "uri_query uri = Some (q @ ''transaction=INTERNAL_CONN_ID_'' @ to_string (cx_id cx))" by auto
  let ?v = "''INTERNAL_CONN_ID_'' @ to_string (cx_id cx)"
  have "CHR ''&'' \<notin> set ?v" using to_string_no_amp by simp
  then have "map_of (wf_split_query wkf (q @ ''transaction='' @ ?v)) ''transaction'' \<noteq> None"
    using fk q(1) unfolding finds_transaction_def by blast
  moreover have "map tolower ''transaction'' = ''transaction''" by code_simp
  ultimately have "map_find (parse_query wkf (Some (q @ ''transaction='' @ ?v)) []) ''transaction'' \<noteq> None"
    by (rule parse_query_keeps_key)
  then have "tk_fixed_conn tk"
    using fixed_conn_of_key [OF ok] q(2) by simp
  then show "tk_fixed_conn (connection_query_task wkf env' cx' uri query)"
    and "tk_fixed_conn (connection_params_task wkf env' cx' uri query params)"
    and "tk_fixed_conn (connection_disconnect_task wkf env' cx' uri)"
    and "tk_keep_alive_timeo (connection_query_task wkf env' cx' uri query) = POSTGRES_KEEPALIVE_TRANSACTION"
    and "tk_keep_alive_timeo (connection_params_task wkf env' cx' uri query params) = POSTGRES_KEEPALIVE_TRANSACTION"
    by (simp_all add: connection_query_task_def connection_params_task_def connection_disconnect_task_def
        create_disconnect_task_def create_postgres_task_def set_my_ssl_ctx_def ok Let_def)
qed

subsection \<open>The key of the connection pool\<close>

text \<open>A plain and a TLS connection never have the same key.\<close>

lemma connection_info_tls:
  "connection_info is_ssl user pass db uri qm = connection_info is_ssl' user' pass' db' uri' qm' \<Longrightarrow>
   is_ssl = is_ssl'"
  by (cases is_ssl; cases is_ssl') (simp_all add: connection_info_def)

text \<open>The credentials are not separated: two pairs can have one key.\<close>

lemma connection_info_collision:
  "connection_info is_ssl (u @ ''|pass:'' @ v) w db uri qm = connection_info is_ssl u (v @ ''|pass:'' @ w) db uri qm"
  by (simp add: connection_info_def)

lemma status_ok_iff:
  "status_ok (status_from_task num (Some tk)) \<longleftrightarrow>
     tk_state tk = WFT_STATE_SUCCESS \<and> \<not> rs_is_error (tk_resp tk)"
  by (simp add: status_ok_def status_from_task_def from_transport_error_def from_server_error_def
      status_success_def)

end
