(* ===== verification/Exchange.thy ===== *)
theory Exchange
  imports Session_Run Client
begin

section \<open>Several requests over one connection\<close>

text \<open>
  The tasks of a \<open>WFPostgresConnection\<close> one after the other on a connection whose startup is
  over, with the bytes the server sends as the only input. \<open>serve_request\<close> composes what the
  framework calls for one request: \<open>message_out\<close>, \<open>message_in\<close>, \<open>append\<close> on the response,
  \<open>handle\<close> and \<open>finish_once\<close>; it is \<open>None\<close> when one of them does not take the way of a request
  that is answered in full. \<open>run_exchanges\<close> serves a list of requests. Both are runs of the step
  relation (\<open>serve_request_steps\<close>). The abstract side is the server's: a request has result sets and
  ends in a transaction status, and the client knows exactly this after each of them.
\<close>

definition next_task :: "pg_task \<Rightarrow> world \<Rightarrow> world" where
  "next_task tk w = w\<lparr>w_task := tk, w_seq := Suc (w_seq w)\<rparr>"

definition serve_request :: "openssl \<Rightarrow> bytes \<Rightarrow> world \<Rightarrow> world option" where
  "serve_request ossl data w =
     (case message_out w of
        (Inl m, w1) \<Rightarrow>
          if m \<noteq> Plain Msg_UserReq then None
          else (case message_in w1 of (m', w2) \<Rightarrow>
            if m' \<noteq> Plain Msg_UserResp then None
            else (case response_append ossl (tk_resp (w_task w2)) data of
                    Some (ret, n, r) \<Rightarrow>
                      if ret \<noteq> 1 then None
                      else (case after_reply (put_resp r w2) of
                              Some (fin, w3) \<Rightarrow> if fin then Some w3 else None
                            | None \<Rightarrow> None)
                  | None \<Rightarrow> None))
      | (Inr e, w1) \<Rightarrow> None)"

text \<open>A task that follows another needs the connection kept alive.\<close>

fun run_exchanges :: "openssl \<Rightarrow> world \<Rightarrow> (pg_task \<times> bytes) list \<Rightarrow> (pg_task list \<times> world) option" where
  "run_exchanges ossl w [] = Some ([], w)"
| "run_exchanges ossl w ((tk, data) # xs) =
     (if keep_alive_timeout (w_task w) = 0 then None
      else case serve_request ossl data (next_task tk w) of
             None \<Rightarrow> None
           | Some w' \<Rightarrow> map_option (\<lambda>(tks, w''). (w_task w' # tks, w'')) (run_exchanges ossl w' xs))"

subsection \<open>Runs of the step relation\<close>

lemma serve_request_steps:
  assumes "serve_request ossl data w = Some w'"
  shows "task_step\<^sup>*\<^sup>* \<lparr>rn_world = w, rn_phase = Idle, rn_auth = a\<rparr>
    \<lparr>rn_world = w', rn_phase = Done, rn_auth = a\<rparr>"
proof -
  obtain w1 w2 r where out: "message_out w = (Inl (Plain Msg_UserReq), w1)"
    and recv: "message_in w1 = (Plain Msg_UserResp, w2)" and fin: "after_reply (put_resp r w2) = Some (True, w')"
    using assms by (auto simp: serve_request_def split: prod.splits sum.splits option.splits if_splits)
  have "task_step \<lparr>rn_world = w1, rn_phase = Waiting (Plain Msg_UserReq), rn_auth = a\<rparr>
      \<lparr>rn_world = w', rn_phase = Done, rn_auth = a\<rparr>"
    using task_step.Reply [OF recv deliver_put(3) fin [unfolded after_reply_def]]
    by (simp add: note_auth_def startup_done_def)
  with task_step.Send [OF out] show ?thesis by (meson converse_rtranclp_into_rtranclp r_into_rtranclp)
qed

subsection \<open>One query\<close>

text \<open>
  What the server answers: result sets, perhaps an error in the statement after them, and the
  transaction status.
\<close>

record answer =
  an_sets :: "result_set list"
  an_error :: "(char \<times> bytes) list option"
  an_status :: char

definition answer_body :: "answer \<Rightarrow> message list" where
  "answer_body a = concat (map enc_result_set (an_sets a)) @
     (case an_error a of None \<Rightarrow> [] | Some fs \<Rightarrow> [(CHR ''E'', enc_error fs)])"

definition answer_msgs :: "answer \<Rightarrow> message list" where
  "answer_msgs a = answer_body a @ [(CHR ''Z'', [an_status a])]"

definition wf_answer :: "answer \<Rightarrow> bool" where
  "wf_answer a \<longleftrightarrow> (\<forall>rs \<in> set (an_sets a). wf_result_set rs) \<and> small_msgs (answer_body a) \<and>
     an_status a \<in> {CHR ''I'', CHR ''T'', CHR ''E''} \<and>
     (case an_error a of None \<Rightarrow> an_sets a \<noteq> [] | Some fs \<Rightarrow> \<forall>(t, v) \<in> set fs. t \<noteq> NUL \<and> NUL \<notin> set v)"

definition answer_error :: "(char \<times> bytes) list \<Rightarrow> pg_error" where
  "answer_error fs = fold (\<lambda>(t, v). set_error_field t v) fs empty_error"

text \<open>
  What the finished task shows is exactly this answer: its \<open>PostgresStatus\<close> is the server's error or
  success, and in both cases a cursor reads the result sets, those before the error too, and no more.
\<close>

definition shows_answer :: "(wft_state \<Rightarrow> int) \<Rightarrow> answer \<Rightarrow> pg_task \<Rightarrow> bool" where
  "shows_answer num a tk \<longleftrightarrow> rs_transaction_state (tk_resp tk) = an_status a \<and>
     status_from_task num (Some tk) =
       (case an_error a of None \<Rightarrow> status_success | Some fs \<Rightarrow> from_server_error (answer_error fs)) \<and>
     (\<exists>cu. cursor_new (tk_resp tk) = Some cu \<and> read_sets (length (an_sets a)) cu = Some (map set_view (an_sets a)) \<and>
        (an_sets a \<noteq> [] \<longrightarrow> read_sets (Suc (length (an_sets a))) cu = Some (map set_view (an_sets a))))"

text \<open>
  A task of a connection object that wants an answer; a query is one, as it is created, that does
  not send COPY data.
\<close>

definition answered_task :: "pg_task \<Rightarrow> bool" where
  "answered_task tk \<longleftrightarrow> tk_fixed_conn tk \<and> \<not> tk_is_ssl tk \<and> tk_keep_alive_timeo tk \<noteq> 0 \<and>
     \<not> rq_is_disconnect (tk_req tk) \<and> \<not> rq_is_cancel (tk_req tk) \<and> \<not> rq_wait_notification (tk_req tk) \<and>
     \<not> rs_is_error (tk_resp tk) \<and> rs_transaction_state (tk_resp tk) = CHR ''I''"

definition query_task :: "pg_task \<Rightarrow> bool" where
  "query_task tk \<longleftrightarrow> fresh_task tk \<and> answered_task tk \<and> \<not> copy_request (tk_req tk)"

lemma query_task_answered: "query_task tk \<Longrightarrow> answered_task tk"
  by (simp add: query_task_def)

text \<open>A plain connection whose startup is over and that the route lets the next query use.\<close>

definition usable :: "world \<Rightarrow> bool" where
  "usable w \<longleftrightarrow> (\<exists>c t h. w_conn w = Some c \<and> w_target w = Some t \<and> w_handle w = Some h \<and>
     \<not> has_ssl c \<and> cn_protocol_state c = PG_PROTOCOL_READY \<and>
     (cn_state c = Stage_Used \<or> cn_state c = Stage_Ready \<and> (t = PG_CONTINUITY_NEW \<or> t = PG_CONTINUITY_IDLE)))"

text \<open>The route, the connection object and the connection know the status the server reported.\<close>

definition knows_status :: "char \<Rightarrow> world \<Rightarrow> bool" where
  "knows_status st w \<longleftrightarrow> w_target w = Some (char_code st) \<and>
     (\<exists>h. w_handle w = Some h \<and> hd_last_tx_state h = st) \<and>
     (\<exists>c. w_conn w = Some c \<and> cn_state c = Stage_Used \<and> \<not> has_ssl c \<and> cn_protocol_state c = PG_PROTOCOL_READY)"

lemma knows_status_usable: "knows_status st w \<Longrightarrow> usable w"
  by (auto simp: knows_status_def usable_def)

lemma usable_next_task [simp]: "usable (next_task tk w) = usable w"
  by (simp add: usable_def next_task_def)

text \<open>A query in flight: the connection is taken, and the route's state unknown until the answer.\<close>

definition in_flight :: "pg_task \<Rightarrow> world \<Rightarrow> world \<Rightarrow> bool" where
  "in_flight tk w w1 \<longleftrightarrow> w_task w1 = tk\<lparr>tk_is_user_request := True, tk_user_request_started := True\<rparr> \<and>
     w_target w1 = Some PG_CONTINUITY_UNKNOWN \<and> w_handle w1 = w_handle w \<and> w_seq w1 = Suc (w_seq w) \<and>
     (\<exists>c. w_conn w1 = Some c \<and> cn_state c = Stage_Used \<and> \<not> has_ssl c)"

lemma query_out:
  assumes "query_task tk" and "usable w"
  shows "\<exists>w1. message_out (next_task tk w) = (Inl (Plain Msg_UserReq), w1) \<and> in_flight tk w w1"
  using assms
  by (auto simp: query_task_def answered_task_def usable_def next_task_def message_out_def user_message_out_def
      check_reconnect_guard_def validate_request_def copy_request_def in_flight_def Let_def)

lemma query_in:
  assumes "answered_task tk" and "in_flight tk w w1"
  shows "\<exists>r. message_in w1 = (Plain Msg_UserResp, put_resp r w1) \<and>
    rs_buf r = [] \<and> rs_cursor r = 0 \<and> \<not> rs_is_error r \<and> \<not> rs_is_copy_in r \<and> \<not> rs_is_startup r \<and>
    rs_error r = empty_error \<and> rs_internal_error r = 0 \<and> \<not> rs_ready_for_query r \<and>
    rs_transaction_state r = CHR ''I''"
  using assms
  by (auto simp: answered_task_def in_flight_def message_in_def put_resp_def response_set_auth_def
      response_set_is_startup_def clear_buffer_def Let_def)

lemma query_answered:
  assumes "answered_task tk" and "in_flight tk w w1" and "w_handle w \<noteq> None"
    and "rs_internal_error r = 0" and "\<not> rs_is_copy_in r" and "rs_ready_for_query r"
    and "rs_transaction_state r \<in> {CHR ''I'', CHR ''T'', CHR ''E''}"
  shows "\<exists>w'. after_reply (put_resp r w1) = Some (True, w') \<and>
    rs_buf (tk_resp (w_task w')) = rs_buf r \<and> rs_is_error (tk_resp (w_task w')) = rs_is_error r \<and>
    rs_error (tk_resp (w_task w')) = rs_error r \<and> tk_state (w_task w') = WFT_STATE_SUCCESS \<and>
    rs_transaction_state (tk_resp (w_task w')) = rs_transaction_state r \<and>
    knows_status (rs_transaction_state r) w' \<and> \<not> tk_is_ssl (w_task w') \<and>
    (keep_alive_timeout (w_task w') = 0 \<longleftrightarrow> rs_transaction_state r = CHR ''E'')"
proof -
  obtain c h where w1: "w_task w1 = tk\<lparr>tk_is_user_request := True, tk_user_request_started := True\<rparr>"
      "w_target w1 = Some PG_CONTINUITY_UNKNOWN" "w_handle w1 = Some h" "w_seq w1 = Suc (w_seq w)"
      "w_conn w1 = Some c" "cn_state c = Stage_Used" "\<not> has_ssl c"
    using assms(2,3) by (auto simp: in_flight_def)
  have status: "rs_transaction_state r = CHR ''I'' \<or> rs_transaction_state r = CHR ''T'' \<or> rs_transaction_state r = CHR ''E''"
    using assms(7) by simp
  have tk: "tk_fixed_conn tk" "\<not> tk_is_ssl tk" "tk_keep_alive_timeo tk \<noteq> 0" "\<not> rq_is_disconnect (tk_req tk)"
      "\<not> rq_is_cancel (tk_req tk)" "\<not> rq_wait_notification (tk_req tk)"
    using assms(1) by (simp_all add: answered_task_def)
  obtain w2 where w2: "handle WFT_STATE_SUCCESS 0 (put_resp r w1) = (WFT_STATE_SUCCESS, 0, w2)"
      "rs_buf (tk_resp (w_task w2)) = rs_buf r" "rs_is_error (tk_resp (w_task w2)) = rs_is_error r"
      "rs_error (tk_resp (w_task w2)) = rs_error r"
      "rs_transaction_state (tk_resp (w_task w2)) = rs_transaction_state r"
      "w_target w2 = Some (char_code (rs_transaction_state r))" "\<exists>h. w_handle w2 = Some h \<and> hd_last_tx_state h = rs_transaction_state r"
      "w_conn w2 = Some (c\<lparr>cn_protocol_state := PG_PROTOCOL_READY\<rparr>)" "tk_fixed_conn (w_task w2)" "\<not> tk_is_ssl (w_task w2)"
      "tk_is_user_request (w_task w2)" "tk_req (w_task w2) = tk_req tk" "tk_keep_alive_timeo (w_task w2) = tk_keep_alive_timeo tk"
    using tk w1 assms(4-6) status
    by (simp add: handle_def put_resp_def update_after_response_def update_route_def Let_def)
  have "after_reply (put_resp r w1) = Some (True, store_result (WFT_STATE_SUCCESS, 0, w2))"
    using w2 w1 by (simp add: after_reply_def finish_once_def store_result_def)
  with w2 w1 tk show ?thesis
    by (simp add: store_result_def knows_status_def keep_alive_timeout_def)
qed

text \<open>The response after the answer.\<close>

definition answered :: "answer \<Rightarrow> pg_response \<Rightarrow> pg_response" where
  "answered a r = r\<lparr>rs_buf := encode_msgs (answer_msgs a), rs_cursor := length (encode_msgs (answer_msgs a)),
     rs_is_error := (an_error a \<noteq> None), rs_error := (case an_error a of None \<Rightarrow> rs_error r | Some fs \<Rightarrow> answer_error fs),
     rs_transaction_state := an_status a, rs_ready_for_query := True\<rparr>"

lemma receive_answer:
  assumes "wf_answer a" and "\<not> rs_is_error r" and "\<not> rs_is_startup r" and "rs_error r = empty_error"
  shows "receive_msgs ossl r (answer_msgs a) =
    (r\<lparr>rs_is_error := (an_error a \<noteq> None), rs_error := (case an_error a of None \<Rightarrow> rs_error r | Some fs \<Rightarrow> answer_error fs),
       rs_transaction_state := an_status a, rs_ready_for_query := True\<rparr>, True, length (encode_msgs (answer_msgs a)))"
proof (cases "an_error a")
  case None
  have "r\<lparr>rs_is_error := False\<rparr> = r" using assms(2) by simp
  with None receive_quiet [OF quiet_result_sets] receive_ready [of "an_status a"] assms(1) show ?thesis
    by (simp add: answer_msgs_def answer_body_def wf_answer_def)
next
  case (Some fs)
  have "\<forall>(t, v) \<in> set fs. t \<noteq> NUL \<and> NUL \<notin> set v" using assms(1) Some by (simp add: wf_answer_def)
  note rec = receive_error [OF this]
  from Some receive_quiet [OF quiet_result_sets] receive_ready [of "an_status a"] assms show ?thesis
    by (simp del: receive_msgs.simps add: answer_msgs_def answer_body_def wf_answer_def rec answer_error_def Let_def)
qed

lemma answer_appended:
  assumes "wf_answer a" and "rs_buf r = []" and "rs_cursor r = 0"
    and "\<not> rs_is_error r" and "\<not> rs_is_startup r" and "rs_error r = empty_error"
  shows "\<exists>n. response_append ossl r (encode_msgs (answer_msgs a)) = Some (1, n, answered a r)"
proof -
  have "small_msgs (answer_msgs a)" using assms(1) by (simp add: answer_msgs_def wf_answer_def small_msgs_def)
  from response_append_receive [OF this _ receive_answer [OF assms(1,4-6)], of "[]" ossl] assms(2,3) show ?thesis
    by (simp add: at_pos_def answered_def)
qed

lemma answer_shown:
  assumes "wf_answer a" and "tk_state tk = WFT_STATE_SUCCESS" and "rs_buf (tk_resp tk) = encode_msgs (answer_msgs a)"
    and "rs_is_error (tk_resp tk) = (an_error a \<noteq> None)" and "\<And>fs. an_error a = Some fs \<Longrightarrow> rs_error (tk_resp tk) = answer_error fs"
    and "rs_transaction_state (tk_resp tk) = an_status a"
  shows "shows_answer num a tk"
proof -
  define es where "es = (case an_error a of None \<Rightarrow> [] | Some fs \<Rightarrow> [(CHR ''E'', enc_error fs)])"
  have buf: "rs_buf (tk_resp tk) = encode_msgs (concat (map enc_result_set (an_sets a)) @ es @ [(CHR ''Z'', [an_status a])]) @ []"
    using assms(3) by (simp add: answer_msgs_def answer_body_def es_def)
  have body: "small_msgs (concat (map enc_result_set (an_sets a)) @ es)"
    using assms(1) by (simp add: wf_answer_def answer_body_def es_def)
  then have "only_errors es" "small_msgs (concat (map enc_result_set (an_sets a)))"
    by (auto simp: small_msgs_def es_def split: option.splits)
  with cursor_reads_sets [OF buf] assms(1) have
    "\<exists>cu. cursor_new (tk_resp tk) = Some cu \<and> read_sets (length (an_sets a)) cu = Some (map set_view (an_sets a)) \<and>
      (an_sets a \<noteq> [] \<longrightarrow> read_sets (Suc (length (an_sets a))) cu = Some (map set_view (an_sets a)))"
    by (simp add: wf_answer_def)
  moreover have "status_from_task num (Some tk) =
      (case an_error a of None \<Rightarrow> status_success | Some fs \<Rightarrow> from_server_error (answer_error fs))"
    using assms(2,4,5) by (simp add: status_from_task_def split: option.splits)
  ultimately show ?thesis using assms(6) by (simp add: shows_answer_def)
qed

lemma serve_in_flight:
  assumes "answered_task tk" and "message_out (next_task tk w) = (Inl (Plain Msg_UserReq), w1)" and "in_flight tk w w1"
    and "wf_answer a" and "w_handle w \<noteq> None"
  shows "\<exists>w'. serve_request ossl (encode_msgs (answer_msgs a)) (next_task tk w) = Some w' \<and>
    shows_answer num a (w_task w') \<and> knows_status (an_status a) w' \<and> \<not> tk_is_ssl (w_task w') \<and>
    (keep_alive_timeout (w_task w') = 0 \<longleftrightarrow> an_status a = CHR ''E'')"
proof -
  note out = assms(2,3)
  obtain r where recv: "message_in w1 = (Plain Msg_UserResp, put_resp r w1)"
    and r: "rs_buf r = []" "rs_cursor r = 0" "\<not> rs_is_error r" "\<not> rs_is_copy_in r" "\<not> rs_is_startup r"
      "rs_error r = empty_error" "rs_internal_error r = 0"
    using query_in [OF assms(1) out(2)] by blast
  obtain n where app: "response_append ossl r (encode_msgs (answer_msgs a)) = Some (1, n, answered a r)"
    using answer_appended [OF assms(4) r(1-3,5,6)] by blast
  have r': "rs_internal_error (answered a r) = 0" "\<not> rs_is_copy_in (answered a r)" "rs_ready_for_query (answered a r)"
      "rs_transaction_state (answered a r) = an_status a" "rs_buf (answered a r) = encode_msgs (answer_msgs a)"
      "rs_is_error (answered a r) = (an_error a \<noteq> None)" "an_error a = Some fs \<Longrightarrow> rs_error (answered a r) = answer_error fs" for fs
    using r by (simp_all add: answered_def)
  have "an_status a \<in> {CHR ''I'', CHR ''T'', CHR ''E''}" using assms(4) by (simp add: wf_answer_def)
  then obtain w' where w': "after_reply (put_resp (answered a r) w1) = Some (True, w')"
      "tk_state (w_task w') = WFT_STATE_SUCCESS" "rs_buf (tk_resp (w_task w')) = rs_buf (answered a r)"
      "rs_is_error (tk_resp (w_task w')) = rs_is_error (answered a r)" "rs_error (tk_resp (w_task w')) = rs_error (answered a r)"
      "rs_transaction_state (tk_resp (w_task w')) = an_status a" "knows_status (an_status a) w'" "\<not> tk_is_ssl (w_task w')"
      "keep_alive_timeout (w_task w') = 0 \<longleftrightarrow> an_status a = CHR ''E''"
    using query_answered [OF assms(1) out(2) assms(5) r'(1-3)] unfolding r'(4) by blast
  have "serve_request ossl (encode_msgs (answer_msgs a)) (next_task tk w) = Some w'"
    using w'(1) app by (simp add: serve_request_def out(1) recv put_resp_def)
  moreover have "shows_answer num a (w_task w')"
    by (rule answer_shown [OF assms(4) w'(2)]) (simp_all add: w' r')
  ultimately show ?thesis using w'(7-9) by blast
qed

lemma serve_query:
  assumes "query_task tk" and "usable w" and "wf_answer a"
  shows "\<exists>w'. serve_request ossl (encode_msgs (answer_msgs a)) (next_task tk w) = Some w' \<and>
    shows_answer num a (w_task w') \<and> knows_status (an_status a) w' \<and> \<not> tk_is_ssl (w_task w') \<and>
    (keep_alive_timeout (w_task w') = 0 \<longleftrightarrow> an_status a = CHR ''E'')"
proof -
  have "w_handle w \<noteq> None" using assms(2) by (auto simp: usable_def)
  with query_out [OF assms(1,2)] serve_in_flight [OF query_task_answered [OF assms(1)] _ _ assms(3)] show ?thesis
    by blast
qed

text \<open>
  The same for any response: what comes behind ReadyForQuery is left alone, and the credentials to
  cancel with reach the connection object, too.
\<close>

lemma reply_reaches_connection:
  assumes "list_all quiet ms" and "small_msgs ms" and "rs_cursor r = length (rs_buf r)"
    and "st \<in> {CHR ''I'', CHR ''T'', CHR ''E''}" and "\<not> rs_is_error r" and "\<not> rs_is_copy_in r"
    and "tk_is_user_request (w_task w)" and "tk_fixed_conn (w_task w)" and "tk_user_request_started (w_task w)"
    and "\<not> rq_is_disconnect (tk_req (w_task w))" and "w_conn w = Some c" and "w_target w = Some t0"
    and "w_handle w = Some (cx_handle cx)"
  shows "\<exists>r' w' h c'. response_append ossl r (encode_msgs (ms @ [(CHR ''Z'', [st])]) @ rest) =
      Some (1, of_nat (length (encode_msgs ms) + 6), r') \<and>
    handle WFT_STATE_SUCCESS 0 (w\<lparr>w_task := (w_task w)\<lparr>tk_resp := r'\<rparr>\<rparr>) = (WFT_STATE_SUCCESS, 0, w') \<and>
    w_target w' = Some (char_code st) \<and>
    w_conn w' = Some c' \<and> cn_protocol_state c' = PG_PROTOCOL_READY \<and>
    w_handle w' = Some h \<and> hd_backend_pid h = cn_backend_pid c \<and>
    (in_transaction (cx\<lparr>cx_handle := h\<rparr>) \<longleftrightarrow> st = CHR ''T'') \<and>
    (is_transaction_failed (cx\<lparr>cx_handle := h\<rparr>) \<longleftrightarrow> st = CHR ''E'')"
proof -
  let ?ms = "ms @ [(CHR ''Z'', [st])]"
  let ?r = "r\<lparr>rs_buf := rs_buf r @ encode_msgs ?ms, rs_cursor := length (rs_buf r @ encode_msgs ?ms),
    rs_transaction_state := st, rs_ready_for_query := True\<rparr>"
  have "response_append ossl r (encode_msgs ?ms @ rest) = Some (1, of_nat (length (encode_msgs ms) + 6), ?r)"
    using response_append_receive [OF _ assms(3) receive_reply [OF assms(1,4)], where ossl = ossl and rest = rest] assms(2)
    by (simp add: at_pos_def small_msgs_def)
  moreover have "\<exists>w' h c'. handle WFT_STATE_SUCCESS 0 (w\<lparr>w_task := (w_task w)\<lparr>tk_resp := ?r\<rparr>\<rparr>) = (WFT_STATE_SUCCESS, 0, w') \<and>
    w_target w' = Some (char_code st) \<and> w_conn w' = Some c' \<and> cn_protocol_state c' = PG_PROTOCOL_READY \<and>
    w_handle w' = Some h \<and> hd_backend_pid h = cn_backend_pid c \<and>
    (in_transaction (cx\<lparr>cx_handle := h\<rparr>) \<longleftrightarrow> st = CHR ''T'') \<and>
    (is_transaction_failed (cx\<lparr>cx_handle := h\<rparr>) \<longleftrightarrow> st = CHR ''E'')"
    using assms(4-13)
    by (auto simp: handle_def update_after_response_def update_route_def in_transaction_def
        is_transaction_failed_def response_setters Let_def)
  ultimately show ?thesis by blast
qed

subsection \<open>A session\<close>

text \<open>
  A list of queries with the server's answers. A failed transaction ends the session, because the
  client closes the connection after it.
\<close>

definition session_ok :: "(pg_task \<times> answer) list \<Rightarrow> bool" where
  "session_ok xs \<longleftrightarrow> (\<forall>(tk, a) \<in> set xs. query_task tk \<and> wf_answer a) \<and>
     (\<forall>(tk, a) \<in> set (butlast xs). an_status a \<noteq> CHR ''E'')"

definition on_wire :: "(pg_task \<times> answer) list \<Rightarrow> (pg_task \<times> bytes) list" where
  "on_wire xs = map (\<lambda>(tk, a). (tk, encode_msgs (answer_msgs a))) xs"

lemma session_ok_Cons:
  "session_ok ((tk, a) # xs) \<longleftrightarrow> query_task tk \<and> wf_answer a \<and> (xs = [] \<or> an_status a \<noteq> CHR ''E'') \<and> session_ok xs"
  by (cases xs) (auto simp: session_ok_def)

lemma session_answered:
  assumes "session_ok xs" and "usable w" and "keep_alive_timeout (w_task w) \<noteq> 0"
  shows "\<exists>tks w'. run_exchanges ossl w (on_wire xs) = Some (tks, w') \<and>
    list_all2 (\<lambda>(tk, a) t. shows_answer num a t) xs tks \<and> (xs = [] \<and> w' = w \<or> knows_status (an_status (snd (last xs))) w')"
  using assms
proof (induction xs arbitrary: w)
  case (Cons x xs)
  obtain tk a where x: "x = (tk, a)" by (cases x) auto
  have ok: "query_task tk" "wf_answer a" "xs = [] \<or> an_status a \<noteq> CHR ''E''" "session_ok xs"
    using Cons.prems(1) by (simp_all add: x session_ok_Cons)
  obtain w1 where w1: "serve_request ossl (encode_msgs (answer_msgs a)) (next_task tk w) = Some w1"
      "shows_answer num a (w_task w1)" "knows_status (an_status a) w1"
      "keep_alive_timeout (w_task w1) = 0 \<longleftrightarrow> an_status a = CHR ''E''"
    using serve_query [OF ok(1) Cons.prems(2) ok(2)] by blast
  show ?case
  proof (cases "xs = []")
    case True
    with w1 Cons.prems(3) show ?thesis by (simp add: x on_wire_def)
  next
    case False
    then obtain tks w' where "run_exchanges ossl w1 (on_wire xs) = Some (tks, w')"
        "list_all2 (\<lambda>(tk, a) t. shows_answer num a t) xs tks" "knows_status (an_status (snd (last xs))) w'"
      using Cons.IH [OF ok(4) knows_status_usable [OF w1(3)]] ok(3) w1(4) by auto
    with w1(1,2) Cons.prems(3) False show ?thesis by (simp add: x on_wire_def)
  qed
qed (simp add: on_wire_def)

lemma session_steps:
  assumes "session_ok xs" and "usable w" and "\<not> tk_is_ssl (w_task w)"
    and "run_exchanges ossl w (on_wire xs) = Some (tks, w')"
  shows "task_step\<^sup>*\<^sup>* \<lparr>rn_world = w, rn_phase = Done, rn_auth = a\<rparr> \<lparr>rn_world = w', rn_phase = Done, rn_auth = a\<rparr>"
  using assms
proof (induction xs arbitrary: w tks)
  case (Cons x xs)
  obtain tk b where x: "x = (tk, b)" by (cases x) auto
  have ok: "query_task tk" "wf_answer b" "session_ok xs" using Cons.prems(1) by (simp_all add: x session_ok_Cons)
  obtain w1 where w1: "serve_request ossl (encode_msgs (answer_msgs b)) (next_task tk w) = Some w1"
      "knows_status (an_status b) w1" "\<not> tk_is_ssl (w_task w1)"
    using serve_query [OF ok(1) Cons.prems(2) ok(2)] by blast
  obtain tks' where alive: "keep_alive_timeout (w_task w) \<noteq> 0" and rest: "run_exchanges ossl w1 (on_wire xs) = Some (tks', w')"
    using Cons.prems(4) w1(1) by (auto simp: x on_wire_def split: if_splits)
  have "tk_state (w_task w) = WFT_STATE_SUCCESS" using alive by (auto simp: keep_alive_timeout_def split: if_splits)
  moreover have "fresh_task tk" "tk_is_ssl tk = tk_is_ssl (w_task w)"
    using ok(1) Cons.prems(3) by (simp_all add: query_task_def answered_task_def)
  moreover have "w\<lparr>w_task := tk, w_seq := Suc (w_seq w), w_handle := w_handle w\<rparr> = next_task tk w"
    by (simp add: next_task_def)
  ultimately have "task_step \<lparr>rn_world = w, rn_phase = Done, rn_auth = a\<rparr>
      \<lparr>rn_world = next_task tk w, rn_phase = Idle, rn_auth = a\<rparr>"
    using task_step.Reuse [of w tk a "w_handle w"] alive by metis
  with serve_request_steps [OF w1(1)] Cons.IH [OF ok(3) knows_status_usable [OF w1(2)] w1(3) rest] show ?case
    by (meson converse_rtranclp_into_rtranclp rtranclp_trans)
qed (simp add: on_wire_def)

subsection \<open>The tasks of a connection object are such tasks\<close>

text \<open>A task that only says goodbye.\<close>

definition disconnect_task :: "pg_task \<Rightarrow> bool" where
  "disconnect_task tk \<longleftrightarrow> fresh_task tk \<and> tk_fixed_conn tk \<and> \<not> tk_is_ssl tk \<and> rq_is_disconnect (tk_req tk) \<and>
     \<not> rq_is_cancel (tk_req tk) \<and> \<not> rs_is_error (tk_resp tk) \<and> \<not> copy_request (tk_req tk) \<and>
     \<not> rq_wait_notification (tk_req tk)"

lemma init_success_keeps:
  assumes "init_success wkf env (new_task uri) = (ok, tk)"
  shows "tk_req tk = new_request" "tk_resp tk = new_response" "fresh_task tk"
  using assms by (auto simp: init_success_def new_task_def set_failure_def fresh_task_def Let_def split: if_splits prod.splits option.splits)

lemma connection_task_kinds:
  assumes "finds_transaction wkf" and "connection_init wkf env url user_ctx cx = (0, e, cx')"
    and "cx_uri cx' = Some uri" and "init_success wkf env' (new_task uri) = (True, tk)" and "\<not> tk_is_ssl tk"
  shows "query_task (connection_query_task wkf env' cx' uri query)"
    and "query_task (connection_params_task wkf env' cx' uri query params)"
    and "disconnect_task (connection_disconnect_task wkf env' cx' uri)"
proof -
  have fixed: "tk_fixed_conn tk"
    using connection_tasks_fixed(1) [OF assms(1-4), of "[]"] assms(4)
    by (simp add: connection_query_task_def answered_task_def create_postgres_task_def set_my_ssl_ctx_def Let_def split: if_splits)
  note defs = query_task_def answered_task_def disconnect_task_def connection_query_task_def answered_task_def connection_params_task_def
      connection_disconnect_task_def create_disconnect_task_def create_postgres_task_def set_my_ssl_ctx_def
      set_query_def set_query_params_def set_is_disconnect_def new_request_def new_response_def copy_request_def
      POSTGRES_KEEPALIVE_TRANSACTION_def
  show "query_task (connection_query_task wkf env' cx' uri query)"
    and "query_task (connection_params_task wkf env' cx' uri query params)"
    and "disconnect_task (connection_disconnect_task wkf env' cx' uri)"
    using init_success_keeps [OF assms(4)] assms(4,5) fixed by (simp_all add: defs fresh_task_def Let_def)
qed

subsection \<open>After a failed transaction\<close>

text \<open>
  A new physical connection for the next task on the same route: the startup message goes out, the
  server accepts it with \<open>resp\<close>, and the task goes on with its request.
\<close>

definition reconnect :: "pg_response \<Rightarrow> pg_task \<Rightarrow> world \<Rightarrow> world option" where
  "reconnect resp tk w =
     (case message_out (plain_start tk (w_target w) (w_handle w)) of
        (Inl m, w1) \<Rightarrow>
          if m \<noteq> Plain Msg_StartupReq then None
          else (case message_in w1 of (m', w2) \<Rightarrow>
            if m' \<noteq> Plain Msg_StartupResp then None
            else (case after_reply (put_startup resp w2) of
                    Some (fin, w3) \<Rightarrow> if fin then None else Some (w3\<lparr>w_seq := Suc (w_seq w3)\<rparr>)
                  | None \<Rightarrow> None))
      | (Inr e, w1) \<Rightarrow> None)"

text \<open>The task after the startup is the task before it, as far as the request is concerned.\<close>

definition reconnected :: "world \<Rightarrow> pg_task \<Rightarrow> world \<Rightarrow> bool" where
  "reconnected w tk w' \<longleftrightarrow>
     (\<exists>c s q st e. w_conn w' = Some c \<and> cn_state c = Stage_Ready \<and> \<not> has_ssl c \<and>
       cn_protocol_state c = PG_PROTOCOL_READY \<and>
       w_task w' = tk\<lparr>tk_is_user_request := True, tk_startup_req := q, tk_startup_resp := s, tk_state := st, tk_error := e\<rparr>) \<and>
     w_target w' = w_target w \<and> w_handle w' = w_handle w \<and> w_seq w' \<noteq> 0"

lemma reconnect_reconnected:
  assumes "fresh_task tk" and "\<not> tk_is_ssl tk" and "\<not> rq_is_cancel (tk_req tk)" and "\<not> rs_is_error (tk_resp tk)"
    and "accepted (Some resp)"
  shows "\<exists>w'. reconnect resp tk w = Some w' \<and> reconnected w tk w'"
proof -
  let ?t = "w_target w" and ?h = "w_handle w"
  let ?tk1 = "with_startup_req (tk\<lparr>tk_is_user_request := False\<rparr>)"
  have tk1: "?tk1 = tk\<lparr>tk_is_user_request := False, tk_startup_req := tk_startup_req ?tk1\<rparr>"
    using assms(1) by (simp add: with_startup_req_def fresh_task_def)
  have tk1': "\<not> tk_is_ssl ?tk1" "\<not> tk_is_user_request ?tk1" "tk_startup_resp ?tk1 = None" "\<not> rs_is_error (tk_resp ?tk1)"
    using assms by (simp_all add: with_startup_req_def fresh_task_def)
  from plain_first_in [OF tk1'(1-3)] obtain s where
    recv: "message_in (plain_start ?tk1 ?t ?h) = (Plain Msg_StartupResp, plain_start (?tk1\<lparr>tk_startup_resp := Some s\<rparr>) ?t ?h)"
    by blast
  let ?tk2 = "?tk1\<lparr>tk_startup_resp := Some resp\<rparr>"
  have put: "put_startup resp (plain_start (?tk1\<lparr>tk_startup_resp := Some s\<rparr>) ?t ?h) = plain_start ?tk2 ?t ?h"
    by (simp add: put_startup_def plain_start_def)
  obtain w3 c where w3: "after_reply (plain_start ?tk2 ?t ?h) = Some (False, w3)" "w_conn w3 = Some c"
      "cn_state c = Stage_Ready" "\<not> has_ssl c" "cn_protocol_state c = PG_PROTOCOL_READY"
      "w_target w3 = ?t" "w_handle w3 = ?h"
      "w_task w3 = ?tk2\<lparr>tk_is_user_request := True, tk_state := WFT_STATE_SUCCESS, tk_error := 0\<rparr>"
    using plain_first_reply [of ?tk2 resp ?t ?h] tk1' assms(5) by auto
  have "reconnect resp tk w = Some (w3\<lparr>w_seq := Suc (w_seq w3)\<rparr>)"
    using w3(1) by (simp add: reconnect_def plain_first_out [OF assms(2,3)] recv put)
  moreover have "w_task w3 = tk\<lparr>tk_is_user_request := True, tk_startup_req := tk_startup_req ?tk1,
      tk_startup_resp := Some resp, tk_state := WFT_STATE_SUCCESS, tk_error := 0\<rparr>"
    unfolding w3(8) by (subst tk1) simp
  then have "reconnected w tk (w3\<lparr>w_seq := Suc (w_seq w3)\<rparr>)"
    using w3 unfolding reconnected_def by (auto intro!: exI)
  ultimately show ?thesis by blast
qed

text \<open>A query is refused on a route that is neither new nor idle, and the refusal is final.\<close>

definition refuse :: "int \<Rightarrow> world \<Rightarrow> world" where
  "refuse err w = store_result (handle WFT_STATE_SYS_ERROR err w)"

lemma reconnected_query_refused:
  assumes "w_target w = Some t" and "t \<noteq> PG_CONTINUITY_NEW" and "t \<noteq> PG_CONTINUITY_IDLE"
    and "query_task tk" and "reconnected w tk w1"
  shows "\<exists>w2. message_out w1 = (Inr ECONNRESET, w2) \<and> w_target (refuse ECONNRESET w2) = Some PG_CONTINUITY_UNKNOWN \<and>
    w_handle (refuse ECONNRESET w2) = w_handle w \<and> tk_state (w_task (refuse ECONNRESET w2)) = WFT_STATE_SYS_ERROR \<and>
    tk_error (w_task (refuse ECONNRESET w2)) = ECONNRESET"
proof -
  obtain c where c: "w_conn w1 = Some c" "cn_state c = Stage_Ready" and w1: "w_target w1 = Some t" "w_handle w1 = w_handle w"
      "w_seq w1 \<noteq> 0" and tk: "tk_fixed_conn (w_task w1)" "\<not> tk_is_ssl (w_task w1)" "\<not> rq_is_disconnect (tk_req (w_task w1))"
      "\<not> rq_is_cancel (tk_req (w_task w1))" "\<not> tk_user_request_started (w_task w1)"
    using assms by (auto simp: reconnected_def query_task_def answered_task_def fresh_task_def)
  obtain w2 where w2: "message_out w1 = (Inr ECONNRESET, w2)" "w_target w2 = Some PG_CONTINUITY_UNKNOWN"
      "w_handle w2 = w_handle w" "w_conn w2 = Some c" "w_task w2 = (w_task w1)\<lparr>tk_is_user_request := True\<rparr>"
    using assms(2,3) c w1 tk by (simp add: message_out_def user_message_out_def check_reconnect_guard_def Let_def)
  have "w_target (refuse ECONNRESET w2) = Some PG_CONTINUITY_UNKNOWN" "w_handle (refuse ECONNRESET w2) = w_handle w"
    "tk_state (w_task (refuse ECONNRESET w2)) = WFT_STATE_SYS_ERROR" "tk_error (w_task (refuse ECONNRESET w2)) = ECONNRESET"
    using w2(2-5) tk by (simp_all add: refuse_def handle_def update_after_response_def update_route_def store_result_def Let_def)
  with w2(1) show ?thesis by blast
qed

text \<open>A query goes out on a new route.\<close>

lemma reconnected_query_sent:
  assumes "w_target w = Some PG_CONTINUITY_NEW" and "query_task tk" and "reconnected w tk w1"
  shows "\<exists>w2. message_out w1 = (Inl (Plain Msg_UserReq), w2)"
  using assms
  by (auto simp: reconnected_def query_task_def answered_task_def message_out_def user_message_out_def check_reconnect_guard_def
      validate_request_def copy_request_def Let_def)

text \<open>The goodbye is on its way, and the server closes the connection on it.\<close>

definition goodbye_sent :: "pg_task \<Rightarrow> world \<Rightarrow> world \<Rightarrow> bool" where
  "goodbye_sent tk w w2 \<longleftrightarrow> tk_is_user_request (w_task w2) \<and> tk_fixed_conn (w_task w2) \<and>
     tk_req (w_task w2) = tk_req tk \<and> tk_resp (w_task w2) = tk_resp tk \<and>
     w_target w2 = w_target w \<and> w_handle w2 = w_handle w \<and> (\<exists>c. w_conn w2 = Some c \<and> \<not> has_ssl c)"

lemma disconnect_out:
  assumes "disconnect_task tk" and "reconnected w tk w1"
  shows "\<exists>w2. message_out w1 = (Inl (Plain Msg_UserReq), w2) \<and> goodbye_sent tk w w2"
  using assms
  by (auto simp: reconnected_def disconnect_task_def message_out_def user_message_out_def validate_request_def
      copy_request_def goodbye_sent_def Let_def)

lemma disconnect_closed:
  assumes "disconnect_task tk" and "goodbye_sent tk w w2" and "w_target w \<noteq> None" and "w_handle w \<noteq> None"
  shows "\<exists>w3. handle WFT_STATE_SYS_ERROR ECONNRESET (snd (message_in w2)) = (WFT_STATE_SUCCESS, 0, w3) \<and>
    w_target w3 = Some PG_CONTINUITY_NEW \<and> w_handle w3 = Some (cx_handle (new_connection n)) \<and>
    tk_is_user_request (w_task w3) \<and> tk_req (w_task w3) = tk_req tk \<and> \<not> rs_is_error (tk_resp (w_task w3))"
proof -
  obtain h t c where ht: "w_handle w2 = Some h" "w_target w2 = Some t" "w_handle w = Some h" "w_target w = Some t" and c: "w_conn w2 = Some c" "\<not> has_ssl c"
    using assms by (auto simp: goodbye_sent_def)
  obtain r where recv: "message_in w2 = (Plain Msg_UserResp, put_resp r w2)" and r: "\<not> rs_is_error r"
    using assms c by (auto simp: disconnect_task_def goodbye_sent_def message_in_def put_resp_def response_set_auth_def
        response_set_is_startup_def clear_buffer_def Let_def)
  from assms(1,2) r ht c show ?thesis
    by (simp del: not_None_eq add: recv disconnect_task_def goodbye_sent_def put_resp_def handle_def
        update_after_response_def update_route_def new_connection_def Let_def)
qed

text \<open>
  The whole story of a failed transaction: its connection is given up, the next query is refused,
  and a disconnect makes the route a new one, over which queries go out again.
\<close>

lemma failed_transaction:
  assumes "query_task tk" and "usable w" and "wf_answer a" and "an_status a = CHR ''E''" and "accepted (Some resp)"
    and "query_task tk2" and "disconnect_task tk3" and "query_task tk4"
  shows "\<exists>w1 w2 w3 w4 w5 w6 w7.
    serve_request ossl (encode_msgs (answer_msgs a)) (next_task tk w) = Some w1 \<and>
    shows_answer num a (w_task w1) \<and> knows_status CHR ''E'' w1 \<and> keep_alive_timeout (w_task w1) = 0 \<and>
    reconnect resp tk2 w1 = Some w2 \<and> message_out w2 = (Inr ECONNRESET, w3) \<and>
    w_target (refuse ECONNRESET w3) = Some PG_CONTINUITY_UNKNOWN \<and>
    reconnect resp tk3 (refuse ECONNRESET w3) = Some w4 \<and> message_out w4 = (Inl (Plain Msg_UserReq), w5) \<and>
    handle WFT_STATE_SYS_ERROR ECONNRESET (snd (message_in w5)) = (WFT_STATE_SUCCESS, 0, w6) \<and>
    w_target w6 = Some PG_CONTINUITY_NEW \<and> w_handle w6 = Some (cx_handle (new_connection n)) \<and>
    reconnect resp tk4 w6 = Some w7 \<and> fst (message_out w7) = Inl (Plain Msg_UserReq)"
proof -
  have ready: "\<exists>w'. reconnect resp tk w = Some w' \<and> reconnected w tk w'"
    if "query_task tk \<or> disconnect_task tk" for tk w
    using that reconnect_reconnected [OF _ _ _ _ assms(5)] by (auto simp: query_task_def answered_task_def disconnect_task_def)
  obtain w1 where w1: "serve_request ossl (encode_msgs (answer_msgs a)) (next_task tk w) = Some w1"
      "shows_answer num a (w_task w1)" "knows_status (CHR ''E'') w1" "keep_alive_timeout (w_task w1) = 0"
    using serve_query [OF assms(1-3)] assms(4) by auto
  obtain w2 where w2: "reconnect resp tk2 w1 = Some w2" "reconnected w1 tk2 w2"
    using ready assms(6) by blast
  have "w_target w1 = Some (char_code (CHR ''E''))" "w_handle w1 \<noteq> None"
    using w1(3) by (auto simp: knows_status_def)
  then obtain w3 where w3: "message_out w2 = (Inr ECONNRESET, w3)"
      "w_target (refuse ECONNRESET w3) = Some PG_CONTINUITY_UNKNOWN" "w_handle (refuse ECONNRESET w3) \<noteq> None"
    using reconnected_query_refused [OF _ _ _ assms(6) w2(2)]
    by (force simp: char_code_def PG_CONTINUITY_NEW_def PG_CONTINUITY_IDLE_def)
  obtain w4 where w4: "reconnect resp tk3 (refuse ECONNRESET w3) = Some w4" "reconnected (refuse ECONNRESET w3) tk3 w4"
    using ready assms(7) by blast
  obtain w5 where w5: "message_out w4 = (Inl (Plain Msg_UserReq), w5)" "goodbye_sent tk3 (refuse ECONNRESET w3) w5"
    using disconnect_out [OF assms(7) w4(2)] by blast
  obtain w6 where w6: "handle WFT_STATE_SYS_ERROR ECONNRESET (snd (message_in w5)) = (WFT_STATE_SUCCESS, 0, w6)"
      "w_target w6 = Some PG_CONTINUITY_NEW" "w_handle w6 = Some (cx_handle (new_connection n))"
    using disconnect_closed [OF assms(7) w5(2), of n] w3(2,3) by auto
  obtain w7 where w7: "reconnect resp tk4 w6 = Some w7" "reconnected w6 tk4 w7"
    using ready assms(8) by blast
  from reconnected_query_sent [OF w6(2) assms(8) w7(2)] obtain w8 where "message_out w7 = (Inl (Plain Msg_UserReq), w8)"
    by blast
  with w1 w2(1) w3(1,2) w4(1) w5(1) w6 w7(1) show ?thesis by (metis fst_conv)
qed

end
