(* ===== verification/Copy_Session.thy ===== *)
theory Copy_Session
  imports Exchange
begin

section \<open>COPY FROM STDIN over a connection\<close>

text \<open>
  A COPY IN takes two tasks of the connection object: the query, which is over when the server asks for
  data (CopyInResponse), and a task that sends the data and CopyDone. Between the two the connection is
  in the protocol state COPY IN, the route is unknown, and only COPY data or a disconnect
  may go out.
\<close>

definition in_copy :: "world \<Rightarrow> bool" where
  "in_copy w \<longleftrightarrow> w_target w = Some PG_CONTINUITY_UNKNOWN \<and> w_handle w \<noteq> None \<and>
     (\<exists>c. w_conn w = Some c \<and> cn_state c = Stage_Used \<and> \<not> has_ssl c \<and> cn_protocol_state c = PG_PROTOCOL_COPY_IN)"

lemma copy_in_appended:
  assumes "small_msgs [(CHR ''G'', p)]" and "rs_buf r = []" and "rs_cursor r = 0"
  shows "response_append ossl r (encode_msgs [(CHR ''G'', p)]) =
    Some (1, of_nat (5 + length p), r\<lparr>rs_buf := encode_msgs [(CHR ''G'', p)],
      rs_cursor := length (encode_msgs [(CHR ''G'', p)]), rs_is_copy_in := True\<rparr>)"
proof -
  have "receive_msgs ossl r [(CHR ''G'', p)] = (r\<lparr>rs_is_copy_in := True\<rparr>, True, 5 + length p)"
    by (simp add: append_event_def event_type_def)
  from response_append_receive [OF assms(1) _ this, of "[]"] assms(2,3) show ?thesis
    by (simp add: at_pos_def)
qed

text \<open>The query: the server asks for the data.\<close>

lemma copy_started:
  assumes "query_task tk" and "usable w" and "small_msgs [(CHR ''G'', p)]"
  shows "\<exists>w'. serve_request ossl (encode_msgs [(CHR ''G'', p)]) (next_task tk w) = Some w' \<and> in_copy w' \<and>
    rs_is_copy_in (tk_resp (w_task w')) \<and> tk_state (w_task w') = WFT_STATE_SUCCESS \<and>
    keep_alive_timeout (w_task w') \<noteq> 0"
proof -
  note tk = query_task_answered [OF assms(1)]
  obtain w1 where out: "message_out (next_task tk w) = (Inl (Plain Msg_UserReq), w1)" "in_flight tk w w1"
    using query_out [OF assms(1,2)] by blast
  obtain r where recv: "message_in w1 = (Plain Msg_UserResp, put_resp r w1)"
    and r: "rs_buf r = []" "rs_cursor r = 0" "\<not> rs_is_error r" "rs_internal_error r = 0" "\<not> rs_ready_for_query r"
      "rs_transaction_state r = CHR ''I''"
    using query_in [OF tk out(2)] by blast
  let ?data = "encode_msgs [(CHR ''G'', p)]"
  let ?r = "r\<lparr>rs_buf := ?data, rs_cursor := length ?data, rs_is_copy_in := True\<rparr>"
  obtain c h where w1: "w_task w1 = tk\<lparr>tk_is_user_request := True, tk_user_request_started := True\<rparr>"
      "w_target w1 = Some PG_CONTINUITY_UNKNOWN" "w_handle w1 = Some h" "w_seq w1 = Suc (w_seq w)"
      "w_conn w1 = Some c" "cn_state c = Stage_Used" "\<not> has_ssl c"
    using out(2) assms(2) by (auto simp: in_flight_def usable_def)
  obtain w2 where w2: "handle WFT_STATE_SUCCESS 0 (put_resp ?r w1) = (WFT_STATE_SUCCESS, 0, w2)"
      "rs_is_copy_in (tk_resp (w_task w2))" "rs_transaction_state (tk_resp (w_task w2)) = CHR ''I''"
      "w_target w2 = Some PG_CONTINUITY_UNKNOWN" "w_handle w2 \<noteq> None"
      "w_conn w2 = Some (c\<lparr>cn_protocol_state := PG_PROTOCOL_COPY_IN\<rparr>)" "\<not> tk_is_ssl (w_task w2)"
      "tk_is_user_request (w_task w2)" "tk_req (w_task w2) = tk_req tk" "tk_fixed_conn (w_task w2)"
      "tk_keep_alive_timeo (w_task w2) = tk_keep_alive_timeo tk"
    using tk w1 r
    by (simp add: answered_task_def handle_def put_resp_def update_after_response_def update_route_def Let_def)
  have fin: "after_reply (put_resp ?r w1) = Some (True, store_result (WFT_STATE_SUCCESS, 0, w2))"
    using w2 w1 by (simp add: after_reply_def finish_once_def store_result_def)
  have "serve_request ossl ?data (next_task tk w) = Some (store_result (WFT_STATE_SUCCESS, 0, w2))"
    using fin copy_in_appended [OF assms(3) r(1,2)] by (simp add: serve_request_def out(1) recv put_resp_def)
  with w2 w1 tk show ?thesis
    by (simp add: store_result_def in_copy_def keep_alive_timeout_def answered_task_def)
qed

text \<open>Between the tasks: no query goes out.\<close>

lemma query_refused_in_copy:
  assumes "in_copy w" and "query_task tk"
  shows "\<exists>w1. message_out (next_task tk w) = (Inr EPROTO, w1)"
  using assms
  by (auto simp: in_copy_def query_task_def answered_task_def next_task_def message_out_def user_message_out_def
      check_reconnect_guard_def validate_request_def copy_request_def Let_def)

text \<open>The task with the data: a task of the connection object with \<open>set_copy_data\<close>.\<close>

definition copy_task :: "bytes \<Rightarrow> pg_task \<Rightarrow> pg_task" where
  "copy_task data tk = tk\<lparr>tk_req := set_copy_data data True (tk_req tk)\<rparr>"

lemma copy_out:
  assumes "query_task tk" and "in_copy w"
  shows "\<exists>w1. message_out (next_task (copy_task data tk) w) = (Inl (Plain Msg_UserReq), w1) \<and>
    in_flight (copy_task data tk) w w1"
  using assms
  by (auto simp: in_copy_def copy_task_def set_copy_data_def query_task_def answered_task_def next_task_def
      message_out_def user_message_out_def check_reconnect_guard_def validate_request_def in_flight_def Let_def)

lemma copy_task_sends:
  assumes "query_task tk"
  shows "request_sent (request_encode (tk_req (copy_task data tk))) =
    encode_msgs ((if data = [] then [] else [(CHR ''d'', data)]) @ [(CHR ''c'', [])])"
  using assms
  by (simp add: copy_task_def set_copy_data_def query_task_def answered_task_def copy_request_def request_encode_def
      encode_copy_msgs)

lemma copy_finished:
  assumes "query_task tk" and "in_copy w" and "wf_answer a"
  shows "\<exists>w'. serve_request ossl (encode_msgs (answer_msgs a)) (next_task (copy_task data tk) w) = Some w' \<and>
    shows_answer num a (w_task w') \<and> knows_status (an_status a) w'"
proof -
  have "answered_task (copy_task data tk)"
    using assms(1) by (simp add: query_task_def answered_task_def copy_task_def set_copy_data_def fresh_task_def)
  moreover have "w_handle w \<noteq> None" using assms(2) by (simp add: in_copy_def)
  ultimately show ?thesis
    using copy_out [OF assms(1,2)] serve_in_flight [OF _ _ _ assms(3)] by blast
qed

text \<open>The whole of it.\<close>

lemma copy_in_run:
  assumes "query_task tk" and "usable w" and "small_msgs [(CHR ''G'', p)]" and "query_task tk2" and "query_task tk3"
    and "wf_answer a"
  shows "\<exists>w1 w2 w3. serve_request ossl (encode_msgs [(CHR ''G'', p)]) (next_task tk w) = Some w1 \<and>
    tk_state (w_task w1) = WFT_STATE_SUCCESS \<and> keep_alive_timeout (w_task w1) \<noteq> 0 \<and>
    message_out (next_task tk2 w1) = (Inr EPROTO, w2) \<and>
    request_sent (request_encode (tk_req (copy_task data tk3))) =
      encode_msgs ((if data = [] then [] else [(CHR ''d'', data)]) @ [(CHR ''c'', [])]) \<and>
    serve_request ossl (encode_msgs (answer_msgs a)) (next_task (copy_task data tk3) w1) = Some w3 \<and>
    shows_answer num a (w_task w3) \<and> knows_status (an_status a) w3"
proof -
  obtain w1 where w1: "serve_request ossl (encode_msgs [(CHR ''G'', p)]) (next_task tk w) = Some w1" "in_copy w1"
      "tk_state (w_task w1) = WFT_STATE_SUCCESS" "keep_alive_timeout (w_task w1) \<noteq> 0"
    using copy_started [OF assms(1-3)] by blast
  with query_refused_in_copy [OF w1(2) assms(4)] copy_task_sends [OF assms(5)] copy_finished [OF assms(5) w1(2) assms(6)]
  show ?thesis by blast
qed

subsection \<open>COPY FROM STDIN in the pool\<close>

text \<open>
  A pooled task may do the query, too. \<open>keep_alive_timeout\<close> looks at the transaction status only, so
  the connection goes back to the pool in the middle of the COPY, and the next task that gets it is
  refused.
\<close>

lemma pooled_copy_poisons:
  assumes "tk_is_user_request (w_task w)" and "\<not> tk_fixed_conn (w_task w)" and "tk_keep_alive_timeo (w_task w) \<noteq> 0"
    and "\<not> rq_is_disconnect (tk_req (w_task w))" and "\<not> rq_is_cancel (tk_req (w_task w))"
    and "rs_is_copy_in (tk_resp (w_task w))" and "\<not> rs_is_error (tk_resp (w_task w))"
    and "rs_transaction_state (tk_resp (w_task w)) = CHR ''I''"
    and "w_conn w = Some c" and "cn_state c = Stage_Used" and "after_reply w = Some (True, w')"
    and "\<not> tk_is_ssl (w_task w)" and "\<not> tk_is_ssl tk" and "\<not> rq_is_disconnect (tk_req tk)" and "\<not> copy_request (tk_req tk)" 
  shows "keep_alive_timeout (w_task w') \<noteq> 0" and "\<exists>w2. message_out (next_task tk w') = (Inr EPROTO, w2)"
proof -
  obtain w1 where w1: "handle WFT_STATE_SUCCESS 0 w = (WFT_STATE_SUCCESS, 0, w1)"
      "w_conn w1 = Some (c\<lparr>cn_protocol_state := PG_PROTOCOL_COPY_IN\<rparr>)" "tk_is_user_request (w_task w1)"
      "tk_req (w_task w1) = tk_req (w_task w)" "rs_transaction_state (tk_resp (w_task w1)) = CHR ''I''"
      "tk_keep_alive_timeo (w_task w1) = tk_keep_alive_timeo (w_task w)" "\<not> tk_is_ssl (w_task w1)"
    using assms(1-10,12) by (simp add: handle_def update_after_response_def update_route_def Let_def)
  have fin: "finish_once True (store_result (WFT_STATE_SUCCESS, 0, w1)) = Some (True, w')"
    using assms(11) w1(1) by (simp add: after_reply_def)
  then have w': "w_task w' = (w_task w1)\<lparr>tk_state := WFT_STATE_SUCCESS, tk_error := 0\<rparr> \<and> w_conn w' = w_conn w1"
    using w1(2,3,7) by (auto simp: finish_once_def store_result_def)
  show "keep_alive_timeout (w_task w') \<noteq> 0"
    using w' w1 assms(3-5) by (simp add: keep_alive_timeout_def)
  show "\<exists>w2. message_out (next_task tk w') = (Inr EPROTO, w2)"
    using w' w1(2) assms(10,13-15)
    by (auto simp: next_task_def message_out_def user_message_out_def check_reconnect_guard_def validate_request_def
        copy_request_def Let_def)
qed

end
