(* ===== verification/Connection_Run.thy ===== *)
theory Connection_Run
  imports Exchange
begin

section \<open>Task after task of a connection object\<close>

text \<open>
  What a program sees that gives one task of its \<open>WFPostgresConnection\<close> after the other to the
  framework: a task goes over the connection of the last one when that is kept alive, and over a
  new one otherwise; it is refused, or answered, or its connection breaks. \<open>perform\<close> is one task,
  composed of the operations of the task; every case of it is a lemma here.
\<close>

datatype reply = Answers answer | Breaks int

definition perform :: "openssl \<Rightarrow> pg_response \<Rightarrow> reply \<Rightarrow> pg_task \<Rightarrow> world \<Rightarrow> world option" where
  "perform ossl resp reply tk w =
     Option.bind (if keep_alive_timeout (w_task w) \<noteq> 0 then Some (next_task tk w) else reconnect resp tk w) (\<lambda>w0.
       case message_out w0 of
         (Inr err, w1) \<Rightarrow> Some (refuse err w1)
       | (Inl m, w1) \<Rightarrow>
           (case reply of
              Answers a \<Rightarrow> serve_request ossl (encode_msgs (answer_msgs a)) w0
            | Breaks err \<Rightarrow> Some (refuse err (snd (message_in w1)))))"

definition wf_reply :: "reply \<Rightarrow> bool" where
  "wf_reply rep = (case rep of Answers a \<Rightarrow> wf_answer a | Breaks err \<Rightarrow> True)"

text \<open>Between two tasks.\<close>

definition between :: "world \<Rightarrow> bool" where
  "between w \<longleftrightarrow> w_handle w \<noteq> None \<and> w_target w \<noteq> None \<and> (keep_alive_timeout (w_task w) \<noteq> 0 \<longrightarrow> usable w)"

text \<open>The next query gets through: over the connection that is there, or a new one the route allows.\<close>

definition open_route :: "world \<Rightarrow> bool" where
  "open_route w \<longleftrightarrow> between w \<and>
     (keep_alive_timeout (w_task w) \<noteq> 0 \<or> w_target w = Some PG_CONTINUITY_NEW \<or> w_target w = Some PG_CONTINUITY_IDLE)"

lemma next_task_self: "w_seq w \<noteq> 0 \<Longrightarrow> next_task (w_task w) (w\<lparr>w_seq := w_seq w - 1\<rparr>) = w"
  by (simp add: next_task_def)

lemma reconnected_out:
  assumes "query_task tk" and "reconnected w tk w0"
    and "w_target w = Some PG_CONTINUITY_NEW \<or> w_target w = Some PG_CONTINUITY_IDLE"
  shows "\<exists>w1. message_out w0 = (Inl (Plain Msg_UserReq), w1) \<and> in_flight (w_task w0) (w0\<lparr>w_seq := w_seq w0 - 1\<rparr>) w1 \<and>
    answered_task (w_task w0)"
  using assms
  by (auto simp: reconnected_def query_task_def answered_task_def message_out_def user_message_out_def
      check_reconnect_guard_def validate_request_def copy_request_def in_flight_def continuity_defs Let_def)

text \<open>A task that goes out, over whichever connection.\<close>

lemma query_starts:
  assumes "query_task tk" and "open_route w" and "accepted (Some resp)"
  shows "\<exists>w0 w00 w1 tk'. (if keep_alive_timeout (w_task w) \<noteq> 0 then Some (next_task tk w) else reconnect resp tk w) = Some w0 \<and>
    w0 = next_task tk' w00 \<and> w_handle w00 = w_handle w \<and> message_out w0 = (Inl (Plain Msg_UserReq), w1) \<and>
    in_flight tk' w00 w1 \<and> answered_task tk'"
proof (cases "keep_alive_timeout (w_task w) = 0")
  case False
  then have "usable w" using assms(2) by (simp add: open_route_def between_def)
  then obtain w1 where "message_out (next_task tk w) = (Inl (Plain Msg_UserReq), w1)" "in_flight tk w w1"
    using query_out [OF assms(1)] by blast
  with query_task_answered [OF assms(1)] False show ?thesis
    by (intro exI [of _ "next_task tk w"] exI [of _ w] exI [of _ w1] exI [of _ tk]) simp
next
  case True
  have ok: "w_target w = Some PG_CONTINUITY_NEW \<or> w_target w = Some PG_CONTINUITY_IDLE"
    using assms(2) True by (auto simp: open_route_def)
  obtain w0 where w0: "reconnect resp tk w = Some w0" "reconnected w tk w0"
    using reconnect_reconnected [OF _ _ _ _ assms(3)] assms(1) by (auto simp: query_task_def answered_task_def)
  obtain w1 where w1: "message_out w0 = (Inl (Plain Msg_UserReq), w1)" "answered_task (w_task w0)"
      "in_flight (w_task w0) (w0\<lparr>w_seq := w_seq w0 - 1\<rparr>) w1"
    using reconnected_out [OF assms(1) w0(2) ok] by blast
  have "w_seq w0 \<noteq> 0" and handle: "w_handle (w0\<lparr>w_seq := w_seq w0 - 1\<rparr>) = w_handle w"
    using w0(2) by (simp_all add: reconnected_def)
  note next_task_self [OF this(1)] handle
  with True w0(1) w1 show ?thesis by (metis (no_types))
qed

lemma perform_answered:
  assumes "query_task tk" and "open_route w" and "accepted (Some resp)" and "wf_answer a"
  shows "\<exists>w'. perform ossl resp (Answers a) tk w = Some w' \<and> shows_answer num a (w_task w') \<and>
    knows_status (an_status a) w' \<and> (keep_alive_timeout (w_task w') = 0 \<longleftrightarrow> an_status a = CHR ''E'')"
proof -
  obtain w0 w00 w1 tk' where st: "(if keep_alive_timeout (w_task w) \<noteq> 0 then Some (next_task tk w) else reconnect resp tk w) = Some w0"
      "w0 = next_task tk' w00" "w_handle w00 = w_handle w" "message_out w0 = (Inl (Plain Msg_UserReq), w1)"
      "in_flight tk' w00 w1" "answered_task tk'"
    using query_starts [OF assms(1-3)] by blast
  have "w_handle w00 \<noteq> None" using st(3) assms(2) by (simp add: open_route_def between_def)
  from serve_in_flight [OF st(6) _ st(5) assms(4) this, folded st(2), OF st(4)] show ?thesis
    unfolding perform_def st(1) by (auto simp: st(4))
qed

lemma open_after_answer:
  assumes "knows_status st w" and "keep_alive_timeout (w_task w) \<noteq> 0"
  shows "open_route w"
  using assms knows_status_usable [OF assms(1)] by (auto simp: open_route_def between_def knows_status_def)

text \<open>A query on a route that is neither: refused, whatever the server would do.\<close>

lemma perform_refused:
  assumes "query_task tk" and "between w" and "\<not> open_route w" and "accepted (Some resp)"
  shows "\<exists>w'. perform ossl resp rep tk w = Some w' \<and> tk_state (w_task w') = WFT_STATE_SYS_ERROR \<and>
    tk_error (w_task w') = ECONNRESET \<and> w_target w' = Some PG_CONTINUITY_UNKNOWN \<and> w_handle w' = w_handle w"
proof -
  obtain t where t: "w_target w = Some t" "t \<noteq> PG_CONTINUITY_NEW" "t \<noteq> PG_CONTINUITY_IDLE"
    and closed: "keep_alive_timeout (w_task w) = 0"
    using assms(2,3) by (auto simp: open_route_def between_def)
  obtain w0 where w0: "reconnect resp tk w = Some w0" "reconnected w tk w0"
    using reconnect_reconnected [OF _ _ _ _ assms(4)] assms(1) by (auto simp: query_task_def answered_task_def)
  from reconnected_query_refused [OF t assms(1) w0(2)] show ?thesis
    by (auto simp: perform_def closed w0(1))
qed

text \<open>The connection breaks after the request is sent.\<close>

lemma perform_broken:
  assumes "query_task tk" and "open_route w" and "accepted (Some resp)"
  shows "\<exists>w' h. perform ossl resp (Breaks err) tk w = Some w' \<and> tk_state (w_task w') = WFT_STATE_SYS_ERROR \<and>
    tk_error (w_task w') = err \<and> w_target w' = Some PG_CONTINUITY_UNKNOWN \<and> w_handle w' = Some h \<and>
    hd_last_tx_state h = hd_last_tx_state (the (w_handle w))"
proof -
  obtain w0 w00 w1 tk' where st: "(if keep_alive_timeout (w_task w) \<noteq> 0 then Some (next_task tk w) else reconnect resp tk w) = Some w0"
      "w0 = next_task tk' w00" "w_handle w00 = w_handle w" "message_out w0 = (Inl (Plain Msg_UserReq), w1)"
      "in_flight tk' w00 w1" "answered_task tk'"
    using query_starts [OF assms(1-3)] by blast
  obtain r where recv: "message_in w1 = (Plain Msg_UserResp, put_resp r w1)" using query_in [OF st(6,5)] by blast
  obtain h c where w1: "w_task w1 = tk'\<lparr>tk_is_user_request := True, tk_user_request_started := True\<rparr>"
      "w_target w1 = Some PG_CONTINUITY_UNKNOWN" "w_handle w1 = Some h" "w_handle w = Some h" "w_conn w1 = Some c"
    using st(3,5) assms(2) by (auto simp: in_flight_def open_route_def between_def)
  have tk': "tk_fixed_conn tk'" "\<not> rq_is_disconnect (tk_req tk')" "\<not> rq_is_cancel (tk_req tk')"
    using st(6) by (simp_all add: answered_task_def)
  let ?w = "refuse err (put_resp r w1)"
  have "tk_state (w_task ?w) = WFT_STATE_SYS_ERROR" "tk_error (w_task ?w) = err" "w_target ?w = Some PG_CONTINUITY_UNKNOWN"
    "\<exists>h'. w_handle ?w = Some h' \<and> hd_last_tx_state h' = hd_last_tx_state h"
    using w1 tk'
    by (simp_all add: refuse_def handle_def put_resp_def update_after_response_def update_route_def store_result_def Let_def)
  then show ?thesis unfolding perform_def st(1) using recv w1(4) by (auto simp: st(4))
qed

text \<open>A disconnect, from anywhere: the server closes the connection, and everything is as new.\<close>

lemma disconnect_starts:
  assumes "disconnect_task tk" and "between w" and "accepted (Some resp)"
  shows "\<exists>w0 w1. (if keep_alive_timeout (w_task w) \<noteq> 0 then Some (next_task tk w) else reconnect resp tk w) = Some w0 \<and>
    message_out w0 = (Inl (Plain Msg_UserReq), w1) \<and> goodbye_sent tk w w1"
proof (cases "keep_alive_timeout (w_task w) = 0")
  case True
  obtain w0 where w0: "reconnect resp tk w = Some w0" "reconnected w tk w0"
    using reconnect_reconnected [OF _ _ _ _ assms(3)] assms(1) by (auto simp: disconnect_task_def)
  from disconnect_out [OF assms(1) w0(2)] True w0(1) show ?thesis by simp
next
  case False
  then obtain c where c: "w_conn w = Some c" "\<not> has_ssl c" "cn_protocol_state c = PG_PROTOCOL_READY"
    using assms(2) by (auto simp: between_def usable_def)
  have "\<exists>w1. message_out (next_task tk w) = (Inl (Plain Msg_UserReq), w1) \<and> goodbye_sent tk w w1"
    using assms(1) c
    by (simp add: disconnect_task_def next_task_def message_out_def user_message_out_def validate_request_def
        copy_request_def goodbye_sent_def Let_def)
  with False show ?thesis by simp
qed

lemma perform_disconnect:
  assumes "disconnect_task tk" and "between w" and "accepted (Some resp)"
  shows "\<exists>w'. perform ossl resp (Breaks ECONNRESET) tk w = Some w' \<and> status_from_task num (Some (w_task w')) = status_success \<and>
    w_target w' = Some PG_CONTINUITY_NEW \<and> w_handle w' = Some (cx_handle (new_connection n)) \<and>
    keep_alive_timeout (w_task w') = 0"
proof -
  obtain w0 w1 where st: "(if keep_alive_timeout (w_task w) \<noteq> 0 then Some (next_task tk w) else reconnect resp tk w) = Some w0"
      "message_out w0 = (Inl (Plain Msg_UserReq), w1)" "goodbye_sent tk w w1"
    using disconnect_starts [OF assms] by blast
  from assms(2) have "w_target w \<noteq> None" "w_handle w \<noteq> None" by (simp_all add: between_def)
  from disconnect_closed [OF assms(1) st(3) this, of n] obtain w3 where
    "handle WFT_STATE_SYS_ERROR ECONNRESET (snd (message_in w1)) = (WFT_STATE_SUCCESS, 0, w3)"
    "w_target w3 = Some PG_CONTINUITY_NEW" "w_handle w3 = Some (cx_handle (new_connection n))"
    "tk_is_user_request (w_task w3)" "tk_req (w_task w3) = tk_req tk" "\<not> rs_is_error (tk_resp (w_task w3))" by blast
  with assms(1) show ?thesis unfolding perform_def st(1)
    by (simp add: st(2) refuse_def store_result_def status_from_task_def keep_alive_timeout_def disconnect_task_def)
qed

subsection \<open>What a connection object promises\<close>

text \<open>
  The abstract connection: it is available, or lost until the user says goodbye, and shows the
  transaction status the server reported last. A lost one refuses every query; nothing of a
  lost session is continued on a new one.
\<close>

datatype session = Available char | Lost char

datatype user_op = Query pg_task reply | Goodbye pg_task

datatype outcome = Answered answer | Failed int | Closed

fun session_step :: "user_op \<Rightarrow> session \<Rightarrow> outcome \<times> session" where
  "session_step (Query tk (Answers a)) (Available st) =
     (Answered a, if an_status a = CHR ''E'' then Lost CHR ''E'' else Available (an_status a))"
| "session_step (Query tk (Breaks err)) (Available st) = (Failed err, Lost st)"
| "session_step (Query tk rep) (Lost st) = (Failed ECONNRESET, Lost st)"
| "session_step (Goodbye tk) s = (Closed, Available CHR ''I'')"

fun session_run :: "user_op list \<Rightarrow> session \<Rightarrow> outcome list \<times> session" where
  "session_run [] s = ([], s)"
| "session_run (op # ops) s =
     (case session_step op s of (out, s') \<Rightarrow> (case session_run ops s' of (outs, s'') \<Rightarrow> (out # outs, s'')))"

text \<open>The connection object, with the tasks as they are finished.\<close>

fun perform_op :: "openssl \<Rightarrow> pg_response \<Rightarrow> user_op \<Rightarrow> world \<Rightarrow> world option" where
  "perform_op ossl resp (Query tk rep) w = perform ossl resp rep tk w"
| "perform_op ossl resp (Goodbye tk) w = perform ossl resp (Breaks ECONNRESET) tk w"

fun perform_all :: "openssl \<Rightarrow> pg_response \<Rightarrow> user_op list \<Rightarrow> world \<Rightarrow> (pg_task list \<times> world) option" where
  "perform_all ossl resp [] w = Some ([], w)"
| "perform_all ossl resp (op # ops) w =
     (case perform_op ossl resp op w of
        None \<Rightarrow> None
      | Some w' \<Rightarrow> map_option (\<lambda>(tks, w''). (w_task w' # tks, w'')) (perform_all ossl resp ops w'))"

fun wf_op :: "user_op \<Rightarrow> bool" where
  "wf_op (Query tk rep) \<longleftrightarrow> query_task tk \<and> wf_reply rep"
| "wf_op (Goodbye tk) \<longleftrightarrow> disconnect_task tk"

fun shows_outcome :: "(wft_state \<Rightarrow> int) \<Rightarrow> outcome \<Rightarrow> pg_task \<Rightarrow> bool" where
  "shows_outcome num (Answered a) tk \<longleftrightarrow> shows_answer num a tk"
| "shows_outcome num (Failed err) tk \<longleftrightarrow>
     status_from_task num (Some tk) = from_transport_error num WFT_STATE_SYS_ERROR err"
| "shows_outcome num Closed tk \<longleftrightarrow> status_from_task num (Some tk) = status_success"

fun session_status :: "session \<Rightarrow> char" where
  "session_status (Available st) = st"
| "session_status (Lost st) = st"

text \<open>The simulation relation.\<close>

definition implements :: "world \<Rightarrow> session \<Rightarrow> bool" where
  "implements w s \<longleftrightarrow> between w \<and> (\<exists>h. w_handle w = Some h \<and> hd_last_tx_state h = session_status s) \<and>
     (case s of Available st \<Rightarrow> open_route w | Lost st \<Rightarrow> \<not> open_route w)"

lemma implements_lost:
  assumes "tk_state (w_task w) = WFT_STATE_SYS_ERROR" and "w_target w = Some PG_CONTINUITY_UNKNOWN"
    and "w_handle w = Some h" and "hd_last_tx_state h = st"
  shows "implements w (Lost st)"
  using assms by (simp add: implements_def between_def open_route_def keep_alive_timeout_def continuity_defs)

lemma implements_answered:
  assumes "knows_status st w" and "keep_alive_timeout (w_task w) = 0 \<longleftrightarrow> st = CHR ''E''"
  shows "implements w (if st = CHR ''E'' then Lost CHR ''E'' else Available st)"
proof (cases "st = CHR ''E''")
  case True
  have "char_code (CHR ''E'') = 69" by code_simp
  with True assms show ?thesis
    by (auto simp: implements_def between_def open_route_def knows_status_def continuity_defs)
next
  case False
  with open_after_answer [OF assms(1)] assms show ?thesis
    by (auto simp: implements_def open_route_def knows_status_def)
qed

lemma perform_simulates:
  assumes "implements w s" and "wf_op op" and "accepted (Some resp)" and "session_step op s = (out, s')"
  shows "\<exists>w'. perform_op ossl resp op w = Some w' \<and> shows_outcome num out (w_task w') \<and> implements w' s'"
proof (cases op)
  case (Goodbye tk)
  with assms(1,2) have "disconnect_task tk" "between w" by (simp_all add: implements_def)
  from perform_disconnect [OF this assms(3), of ossl num 0] Goodbye assms(4) show ?thesis
    by (auto simp: implements_def between_def open_route_def new_connection_def)
next
  case (Query tk rep)
  have tk: "query_task tk" and rep: "wf_reply rep" and b: "between w" using assms(1,2) Query by (simp_all add: implements_def)
  obtain h where h: "w_handle w = Some h" "hd_last_tx_state h = session_status s"
    using assms(1) by (auto simp: implements_def)
  show ?thesis
  proof (cases s)
    case (Lost st)
    then have "\<not> open_route w" using assms(1) by (simp add: implements_def)
    from perform_refused [OF tk b this assms(3), of ossl rep] obtain w' where
      w': "perform ossl resp rep tk w = Some w'" "tk_state (w_task w') = WFT_STATE_SYS_ERROR"
        "tk_error (w_task w') = ECONNRESET" "w_target w' = Some PG_CONTINUITY_UNKNOWN" "w_handle w' = w_handle w"
      by blast
    have "session_step op s = (Failed ECONNRESET, Lost st)" using Query Lost by (cases rep) simp_all
    with w' h Lost Query assms(4) implements_lost [OF w'(2,4)] show ?thesis
      by (auto simp: status_from_task_def)
  next
    case (Available st)
    then have open_w: "open_route w" using assms(1) by (simp add: implements_def)
    show ?thesis
    proof (cases rep)
      case (Answers a)
      with rep have "wf_answer a" by (simp add: wf_reply_def)
      from perform_answered [OF tk open_w assms(3) this, of ossl num] obtain w' where
        w': "perform ossl resp (Answers a) tk w = Some w'" "shows_answer num a (w_task w')"
          "knows_status (an_status a) w'" "keep_alive_timeout (w_task w') = 0 \<longleftrightarrow> an_status a = CHR ''E''"
        by blast
      from implements_answered [OF w'(3,4)] w'(1,2) Query Available Answers assms(4) show ?thesis by auto
    next
      case (Breaks err)
      from perform_broken [OF tk open_w assms(3), of ossl err] obtain w' h' where
        w': "perform ossl resp (Breaks err) tk w = Some w'" "tk_state (w_task w') = WFT_STATE_SYS_ERROR"
          "tk_error (w_task w') = err" "w_target w' = Some PG_CONTINUITY_UNKNOWN" "w_handle w' = Some h'"
          "hd_last_tx_state h' = hd_last_tx_state (the (w_handle w))"
        by blast
      with implements_lost [OF w'(2,4,5)] h Query Available Breaks assms(4) show ?thesis
        by (auto simp: status_from_task_def)
    qed
  qed
qed

lemma run_simulates:
  assumes "implements w s" and "\<forall>op \<in> set ops. wf_op op" and "accepted (Some resp)"
    and "session_run ops s = (outs, s')"
  shows "\<exists>tks w'. perform_all ossl resp ops w = Some (tks, w') \<and> list_all2 (shows_outcome num) outs tks \<and> implements w' s'"
  using assms(1,2,4)
proof (induction ops arbitrary: w s outs)
  case (Cons op ops)
  obtain out s1 outs' where st: "session_step op s = (out, s1)" "session_run ops s1 = (outs', s')" "outs = out # outs'"
    using Cons.prems(3) by (auto split: prod.splits)
  have "wf_op op" using Cons.prems(2) by simp
  from perform_simulates [OF Cons.prems(1) this assms(3) st(1), of ossl num] obtain w1
    where w1: "perform_op ossl resp op w = Some w1" "shows_outcome num out (w_task w1)" "implements w1 s1"
    by blast
  have "\<forall>op \<in> set ops. wf_op op" using Cons.prems(2) by simp
  from Cons.IH [OF w1(3) this st(2)] obtain tks w' where
    "perform_all ossl resp ops w1 = Some (tks, w')" "list_all2 (shows_outcome num) outs' tks" "implements w' s'"
    by blast
  with w1(1,2) st(3) show ?case by simp
qed simp

end
