(* ===== verification/Same_Connection.thy ===== *)
theory Same_Connection
  imports Session_Run
begin

section \<open>Which connection a request uses\<close>

text \<open>
  The tasks of one connection object, all with a fixed connection, as a run of \<open>task_step\<close> with two
  ghosts: the number of the physical connection in use, counted from 0, and the number of the
  connection that carried the last request of the user (a disconnect does not count). The connection
  object keeps neither; it knows a connection only by its stage. The invariant says that the stage
  is enough: a used connection is the one the last request went over.
\<close>

text \<open>A task is about to send the first message of a new connection.\<close>

definition opens :: "run \<Rightarrow> bool" where
  "opens r \<longleftrightarrow> rn_phase r = Idle \<and> w_seq (rn_world r) = 0"

text \<open>A request of the user leaves.\<close>

definition sends_request :: "run \<Rightarrow> run \<Rightarrow> bool" where
  "sends_request r r' \<longleftrightarrow> rn_phase r = Idle \<and> (\<exists>m. rn_phase r' = Waiting m) \<and>
     tk_is_user_request (w_task (rn_world r')) \<and> \<not> rq_is_disconnect (tk_req (w_task (rn_world r')))"

inductive object_run :: "run \<Rightarrow> nat \<Rightarrow> nat option \<Rightarrow> bool" where
  Start: "fresh_task tk \<Longrightarrow> tk_fixed_conn tk \<Longrightarrow>
    object_run \<lparr>rn_world = \<lparr>w_task = tk, w_conn = None, w_target = t, w_seq = 0, w_handle = h\<rparr>,
                rn_phase = Idle, rn_auth = None\<rparr> 0 None"
| Step: "object_run r n last_used \<Longrightarrow> task_step r r' \<Longrightarrow> tk_fixed_conn (w_task (rn_world r')) \<Longrightarrow>
    object_run r' (if opens r' then Suc n else n) (if sends_request r r' then Some n else last_used)"

lemma object_run_reachable: "object_run r n l \<Longrightarrow> reachable r"
  by (induction rule: object_run.induct) (auto intro: reachable.intros)

lemma object_run_fixed: "object_run r n l \<Longrightarrow> tk_fixed_conn (w_task (rn_world r))"
  by (cases rule: object_run.cases) simp_all

subsection \<open>The stage of the connection\<close>

definition in_use :: "pg_conn option \<Rightarrow> bool" where
  "in_use conn \<longleftrightarrow> (\<exists>c. conn = Some c \<and> cn_state c = Stage_Used)"

lemma in_use_view: "conn_view conn' = conn_view conn \<Longrightarrow> in_use conn' = in_use conn"
  by (cases conn; cases conn') (auto simp: in_use_def conn_view_def)

lemma in_use_None [simp]: "\<not> in_use None"
  by (simp add: in_use_def)

lemma validate_view: "validate_request conn req e = (ok, conn', e') \<Longrightarrow> conn_view conn' = conn_view conn"
  by (auto simp: validate_request_def conn_view_def has_ssl_def Let_def
      split: option.splits if_splits proto_state.splits)

lemma hand_out_view:
  assumes "hand_out w = (x, w')"
  shows "conn_view (w_conn w') = conn_view (w_conn w)"
  using assms
  by (auto simp: hand_out_def wrap_ssl_def conn_view_def has_ssl_def split: option.splits if_splits prod.splits)

lemma disconnect_view:
  assumes "user_message_out w = (x, w')" and "rq_is_disconnect (tk_req (w_task w))"
  shows "conn_view (w_conn w') = conn_view (w_conn w)"
proof -
  obtain ok conn' e' where v: "validate_request (w_conn w) (tk_req (w_task w)) 0 = (ok, conn', e')"
    using prod_cases3 by blast
  have guard: "user_guard w = (True, w_target w, w_conn w, 0)" using assms(2) by (simp add: user_guard_def)
  show ?thesis
  proof (cases ok)
    case True
    with assms(1) guard v have "hand_out (started (as_user (w_target w) conn' w)) = (x, w')"
      by (simp add: user_message_out_eq)
    from hand_out_view [OF this] validate_view [OF v] show ?thesis by (simp add: started_frame as_user_def)
  next
    case False
    with assms(1) guard v validate_view [OF v] show ?thesis by (auto simp: user_message_out_eq as_user_def)
  qed
qed

text \<open>Without a request of the user, a message leaves a used connection used and no other.\<close>

lemma other_message_view:
  assumes "message_out w = (Inl m, w')"
    and "\<not> tk_is_user_request (w_task w') \<or> rq_is_disconnect (tk_req (w_task w'))"
  shows "in_use (w_conn w') \<Longrightarrow> in_use (w_conn w)"
  using assms(1)
proof (cases rule: message_out_cases)
  case (starting c m')
  then show "in_use (w_conn w') \<Longrightarrow> in_use (w_conn w)"
    by (auto simp: in_use_def conn_keeps_def)
next
  case user
  with user_message_out_frame [OF user(2)] assms(2) have "rq_is_disconnect (tk_req (w_task (not_user w)))" by simp
  from in_use_view [OF disconnect_view [OF user(2) this]] show "in_use (w_conn w') \<Longrightarrow> in_use (w_conn w)" by simp
qed simp_all

lemma finish_once_in_use:
  assumes "finish_once ssl_ok w = Some (fin, w')" and "in_use (w_conn w')"
  shows "in_use (w_conn w)"
  using assms
  by (auto simp: finish_once_def finish_startup_def handle_starttls_transition_def handle_startup_auth_completion_def
      new_conn_def in_use_def Let_def split: if_splits option.splits)

subsection \<open>The invariant\<close>

definition object_inv :: "run \<Rightarrow> nat \<Rightarrow> nat option \<Rightarrow> bool" where
  "object_inv r n l \<longleftrightarrow> (rn_phase r \<noteq> Lost \<longrightarrow> in_use (w_conn (rn_world r)) \<longrightarrow> l = Some n)"

lemma object_run_inv: "object_run r n l \<Longrightarrow> object_inv r n l"
proof (induction rule: object_run.induct)
  case (Start tk t h)
  then show ?case by (simp add: object_inv_def)
next
  case (Step r n l r')
  from Step.hyps(2) Step.IH show ?case
  proof (cases rule: task_step.cases)
    case (Send w m w' a)
    with Step.IH other_message_view [OF Send(3)] show ?thesis
      by (auto simp: object_inv_def opens_def sends_request_def)
  next
    case (Reply w m' w1 w2 ssl_ok fin w3 m a)
    have "conn_view (w_conn (store_result (handle WFT_STATE_SUCCESS 0 w2))) = conn_view (w_conn w)"
      using message_in_frame(5) [OF Reply(3)] deliver_frame(1) [OF Reply(4)]
        stored_frame(5) [OF refl, of WFT_STATE_SUCCESS 0 w2] by simp
    with finish_once_in_use [OF Reply(5)] in_use_view have "in_use (w_conn w3) \<Longrightarrow> in_use (w_conn w)" by blast
    with Reply Step.IH show ?thesis by (auto simp: object_inv_def opens_def sends_request_def)
  qed (auto simp: object_inv_def opens_def sends_request_def)
qed

lemma open_transaction_last_connection:
  assumes "object_run \<lparr>rn_world = w, rn_phase = Idle, rn_auth = a\<rparr> n l" and "message_out w = (Inl m, w')"
    and "tk_is_user_request (w_task w')"
    and "\<not> rq_is_disconnect (tk_req (w_task w))" and "\<not> rq_is_cancel (tk_req (w_task w))"
    and "w_target w = Some t" and "t \<noteq> PG_CONTINUITY_NEW" and "t \<noteq> PG_CONTINUITY_IDLE"
  shows "l = Some n \<and> (\<exists>c. w_conn w = Some c \<and> cn_state c = Stage_Used)"
proof -
  have "tk_fixed_conn (w_task w)" using object_run_fixed [OF assms(1)] by simp
  from open_transaction_same_connection [OF object_run_reachable [OF assms(1)] assms(2,3) this assms(4-8)]
  have "\<exists>c. w_conn w = Some c \<and> cn_state c = Stage_Used" .
  moreover from this object_run_inv [OF assms(1)] have "l = Some n" by (simp add: object_inv_def in_use_def)
  ultimately show ?thesis by simp
qed

text \<open>The concrete run of Session_Run, up to the second request of its transaction.\<close>

lemma demo_object_run:
  "object_run \<lparr>rn_world = demo_w7, rn_phase = Idle, rn_auth = Some demo_started\<rparr> 0 (Some 0)"
proof -
  have "object_run \<lparr>rn_world = demo_w0, rn_phase = Idle, rn_auth = None\<rparr> 0 None"
    unfolding demo_w0_def
    by (rule object_run.Start) (simp_all add: fresh_task_def demo_task_def new_task_def)
  note start = this
  have "tk_fixed_conn (w_task demo_w1)" "\<not> tk_is_user_request (w_task demo_w1)" by code_simp+
  with object_run.Step [OF start demo_steps(1)]
  have one: "object_run \<lparr>rn_world = demo_w1, rn_phase = Waiting (Plain Msg_StartupReq), rn_auth = None\<rparr> 0 None"
    by (simp add: opens_def sends_request_def)
  have "tk_fixed_conn (w_task demo_w3)" "w_seq demo_w3 \<noteq> 0" by code_simp+
  with object_run.Step [OF one demo_steps(2)]
  have two: "object_run \<lparr>rn_world = demo_w3, rn_phase = Idle, rn_auth = Some demo_started\<rparr> 0 None"
    by (simp add: opens_def sends_request_def)
  have "tk_fixed_conn (w_task demo_w4)" "tk_is_user_request (w_task demo_w4)" "\<not> rq_is_disconnect (tk_req (w_task demo_w4))"
    by code_simp+
  with object_run.Step [OF two demo_steps(3)]
  have three: "object_run \<lparr>rn_world = demo_w4, rn_phase = Waiting (Plain Msg_UserReq), rn_auth = Some demo_started\<rparr> 0 (Some 0)"
    by (simp add: opens_def sends_request_def)
  have "tk_fixed_conn (w_task demo_w6)" by code_simp
  with object_run.Step [OF three demo_steps(4)]
  have four: "object_run \<lparr>rn_world = demo_w6, rn_phase = Done, rn_auth = Some demo_started\<rparr> 0 (Some 0)"
    by (simp add: opens_def sends_request_def)
  have "tk_fixed_conn (w_task demo_w7)" "w_seq demo_w7 \<noteq> 0" by code_simp+
  with object_run.Step [OF four demo_steps(5)] show ?thesis
    by (simp add: opens_def sends_request_def)
qed

end
