(* ===== verification/C_Time.thy ===== *)
theory C_Time
  imports C_Stdlib "HOL-Library.Signed_Division"
begin

section \<open>The C library's calendar: gmtime_r, timegm, strptime, strftime\<close>

text \<open>
  What the date and time conversions use of the C library, as glibc on a 64-bit system has it.
  \<open>struct tm\<close> is a record of the fields the code uses (the day of the week and of the year
  and the daylight saving flag are not among them). Days are counted in the proleptic Gregorian
  calendar. \<open>gmtime\<close> breaks a time down, \<open>timegm\<close> counts it together again: its result is the
  time and the normalised \<open>struct tm\<close>; no time the code asks about is outside the range of either.
  \<open>strptime\<close> works off its format: a space matches any white space, a number is read by the
  rules of glibc's \<open>get_number\<close> (white space before it is skipped, at most \<open>n\<close> digits are
  taken, no more than the upper bound can hold); on a mismatch the fields read so far are kept.
\<close>

record tm =
  tm_year :: int
  tm_mon :: int
  tm_mday :: int
  tm_hour :: int
  tm_min :: int
  tm_sec :: int

definition zero_tm :: tm where
  "zero_tm = \<lparr>tm_year = 0, tm_mon = 0, tm_mday = 0, tm_hour = 0, tm_min = 0, tm_sec = 0\<rparr>"

subsection \<open>The calendar\<close>

definition leap_year :: "int \<Rightarrow> bool" where
  "leap_year y \<longleftrightarrow> y mod 4 = 0 \<and> (y mod 100 \<noteq> 0 \<or> y mod 400 = 0)"

text \<open>The days of the years before year \<open>y\<close>, and of the months before month \<open>m\<close> (from 0).\<close>

definition days_before_year :: "int \<Rightarrow> int" where
  "days_before_year y = 365 * (y - 1) + (y - 1) div 4 - (y - 1) div 100 + (y - 1) div 400"

definition days_before_month :: "bool \<Rightarrow> int \<Rightarrow> int" where
  "days_before_month leap m =
     [0, 31, 59, 90, 120, 151, 181, 212, 243, 273, 304, 334] ! nat m + (if leap \<and> m \<ge> 2 then 1 else 0)"

definition days_in_month :: "int \<Rightarrow> int \<Rightarrow> int" where
  "days_in_month y m =
     [31, if leap_year y then 29 else 28, 31, 30, 31, 30, 31, 31, 30, 31, 30, 31] ! nat m"

text \<open>Day 0 is 1970-01-01, which is 719162 days after 0001-01-01.\<close>

definition civil_to_days :: "int \<Rightarrow> int \<Rightarrow> int \<Rightarrow> int" where
  "civil_to_days y m d = days_before_year y + days_before_month (leap_year y) m + d - 1 - 719162"

definition month_of :: "bool \<Rightarrow> int \<Rightarrow> int" where
  "month_of leap yday =
     int (length (takeWhile (\<lambda>m. days_before_month leap m \<le> yday) [1, 2, 3, 4, 5, 6, 7, 8, 9, 10, 11]))"

definition civil_from_days :: "int \<Rightarrow> int \<times> int \<times> int" where
  "civil_from_days day =
     (let n = day + 719162;
          n400 = n div 146097; r400 = n mod 146097;
          n100 = min (r400 div 36524) 3; r100 = r400 - n100 * 36524;
          n4 = r100 div 1461; r4 = r100 mod 1461;
          n1 = min (r4 div 365) 3; yday = r4 - n1 * 365;
          y = 400 * n400 + 100 * n100 + 4 * n4 + n1 + 1;
          m = month_of (leap_year y) yday
      in (y, m, yday - days_before_month (leap_year y) m + 1))"

definition gmtime :: "int \<Rightarrow> tm" where
  "gmtime t =
     (let (y, m, d) = civil_from_days (t div 86400); s = t mod 86400
      in \<lparr>tm_year = y - 1900, tm_mon = m, tm_mday = d,
          tm_hour = s div 3600, tm_min = s mod 3600 div 60, tm_sec = s mod 60\<rparr>)"

definition timegm :: "tm \<Rightarrow> int \<times> tm" where
  "timegm t =
     (let y = tm_year t + 1900 + tm_mon t div 12; m = tm_mon t mod 12;
          e = civil_to_days y m (tm_mday t) * 86400 + tm_hour t * 3600 + tm_min t * 60 + tm_sec t
      in (e, gmtime e))"

subsection \<open>Printing\<close>

text \<open>\<open>%0wd\<close> of \<open>printf\<close>, for any \<open>int\<close>; \<open>strftime\<close> prints its two digit fields alike.\<close>

definition show_padded_int :: "nat \<Rightarrow> int \<Rightarrow> bytes" where
  "show_padded_int w v =
     (if v < 0 then CHR ''-'' # show_padded (w - 1) (nat (- v)) else show_padded w (nat v))"

text \<open>The conversions of \<open>strftime\<close> the code uses: \<open>%Y-%m-%d\<close> and \<open>%H:%M:%S\<close>.\<close>

definition strftime_date :: "tm \<Rightarrow> bytes" where
  "strftime_date t = to_string (tm_year t + 1900) @ ''-'' @ show_padded_int 2 (tm_mon t + 1) @ ''-'' @
     show_padded_int 2 (tm_mday t)"

definition strftime_time :: "tm \<Rightarrow> bytes" where
  "strftime_time t = show_padded_int 2 (tm_hour t) @ '':'' @ show_padded_int 2 (tm_min t) @ '':'' @
     show_padded_int 2 (tm_sec t)"

subsection \<open>Reading\<close>

fun take_number :: "nat \<Rightarrow> nat \<Rightarrow> nat \<Rightarrow> bytes \<Rightarrow> nat \<times> bytes" where
  "take_number hi 0 acc s = (acc, s)"
| "take_number hi (Suc n) acc [] = (acc, [])"
| "take_number hi (Suc n) acc (c # cs) =
     (if acc * 10 \<le> hi \<and> isdigit c then take_number hi n (acc * 10 + digit_val c) cs else (acc, c # cs))"

definition get_number :: "nat \<Rightarrow> nat \<Rightarrow> nat \<Rightarrow> bytes \<Rightarrow> (int \<times> bytes) option" where
  "get_number lo hi n s =
     (case dropWhile isspace s of
        [] \<Rightarrow> None
      | c # cs \<Rightarrow>
          if \<not> isdigit c then None
          else let (v, rest) = take_number hi n 0 (c # cs)
               in if v < lo \<or> v > hi then None else Some (int v, rest))"

definition strptime_field :: "char \<Rightarrow> bytes \<Rightarrow> tm \<Rightarrow> (tm \<times> bytes) option" where
  "strptime_field k s t =
     (if k = CHR ''Y'' then map_option (\<lambda>(v, r). (t\<lparr>tm_year := v - 1900\<rparr>, r)) (get_number 0 9999 4 s)
      else if k = CHR ''m'' then map_option (\<lambda>(v, r). (t\<lparr>tm_mon := v - 1\<rparr>, r)) (get_number 1 12 2 s)
      else if k = CHR ''d'' then map_option (\<lambda>(v, r). (t\<lparr>tm_mday := v\<rparr>, r)) (get_number 1 31 2 s)
      else if k = CHR ''H'' then map_option (\<lambda>(v, r). (t\<lparr>tm_hour := v\<rparr>, r)) (get_number 0 23 2 s)
      else if k = CHR ''M'' then map_option (\<lambda>(v, r). (t\<lparr>tm_min := v\<rparr>, r)) (get_number 0 59 2 s)
      else if k = CHR ''S'' then map_option (\<lambda>(v, r). (t\<lparr>tm_sec := v\<rparr>, r)) (get_number 0 61 2 s)
      else None)"

fun strptime :: "bytes \<Rightarrow> bytes \<Rightarrow> tm \<Rightarrow> bytes option \<times> tm" where
  "strptime [] s t = (Some s, t)"
| "strptime (f # fs) s t =
     (if isspace f then strptime fs (dropWhile isspace s) t
      else if f = CHR ''%'' then
        (case fs of
           [] \<Rightarrow> (None, t)
         | k # ks \<Rightarrow>
             (case strptime_field k s t of
                None \<Rightarrow> (None, t)
              | Some (t', rest) \<Rightarrow> strptime ks rest t'))
      else (case s of
              [] \<Rightarrow> (None, t)
            | c # cs \<Rightarrow> if c = f then strptime fs cs t else (None, t)))"

subsection \<open>Facts: the calendar\<close>

definition valid_tm :: "tm \<Rightarrow> bool" where
  "valid_tm t \<longleftrightarrow> 0 \<le> tm_mon t \<and> tm_mon t \<le> 11 \<and>
     1 \<le> tm_mday t \<and> tm_mday t \<le> days_in_month (tm_year t + 1900) (tm_mon t) \<and>
     0 \<le> tm_hour t \<and> tm_hour t \<le> 23 \<and> 0 \<le> tm_min t \<and> tm_min t \<le> 59 \<and> 0 \<le> tm_sec t \<and> tm_sec t \<le> 59"

lemma mod_zero_iff_last:
  fixes n q r m :: int
  assumes "n = m * q + r" "0 < r" "r \<le> m"
  shows "n mod m = 0 \<longleftrightarrow> r = m"
proof (cases "r = m")
  case False
  with assms have "n mod m = r" by (intro int_mod_pos_eq [of n m q r]) auto
  with False assms show ?thesis by simp
qed (use assms in simp)

lemma year_split:
  fixes a b c d y :: int
  assumes y: "y = 400 * a + 100 * b + 4 * c + d + 1"
    and range: "0 \<le> b" "b \<le> 3" "0 \<le> c" "c \<le> 24" "0 \<le> d" "d \<le> 3"
  shows "days_before_year y = 146097 * a + 36524 * b + 1461 * c + 365 * d"
    and "leap_year y \<longleftrightarrow> d = 3 \<and> (c \<noteq> 24 \<or> b = 3)"
proof -
  have "(y - 1) div 4 = 100 * a + 25 * b + c"
    by (rule int_div_pos_eq [where r = d]) (use range in \<open>simp_all add: y\<close>)
  moreover have "(y - 1) div 100 = 4 * a + b"
    by (rule int_div_pos_eq [where r = "4 * c + d"]) (use range in \<open>simp_all add: y\<close>)
  moreover have "(y - 1) div 400 = a"
    by (rule int_div_pos_eq [where r = "100 * b + 4 * c + d"]) (use range in \<open>simp_all add: y\<close>)
  ultimately show "days_before_year y = 146097 * a + 36524 * b + 1461 * c + 365 * d"
    using y by (simp add: days_before_year_def)
  have "y mod 4 = 0 \<longleftrightarrow> d + 1 = 4"
    by (rule mod_zero_iff_last [where q = "100 * a + 25 * b + c"]) (use range in \<open>simp_all add: y\<close>)
  moreover have "y mod 100 = 0 \<longleftrightarrow> 4 * c + d + 1 = 100"
    by (rule mod_zero_iff_last [where q = "4 * a + b"]) (use range in \<open>simp_all add: y\<close>)
  moreover have "y mod 400 = 0 \<longleftrightarrow> 100 * b + 4 * c + d + 1 = 400"
    by (rule mod_zero_iff_last [where q = a]) (use range in \<open>simp_all add: y\<close>)
  ultimately show "leap_year y \<longleftrightarrow> d = 3 \<and> (c \<noteq> 24 \<or> b = 3)"
    unfolding leap_year_def using range by linarith
qed

text \<open>The month a day of the year is in, by the position of the day in the year.\<close>

definition month_fits :: "bool \<Rightarrow> int \<Rightarrow> bool" where
  "month_fits leap yday \<longleftrightarrow> (let m = month_of leap yday in
     0 \<le> m \<and> m \<le> 11 \<and> days_before_month leap m \<le> yday \<and>
     yday < days_before_month leap m +
       [31, if leap then 29 else 28, 31, 30, 31, 30, 31, 31, 30, 31, 30, 31] ! nat m)"

lemma month_fits_all: "list_all (month_fits False) [0..364]" "list_all (month_fits True) [0..365]"
  by code_simp+

lemma month_of_bounds:
  assumes "0 \<le> yday" "yday < 365 + (if leap then 1 else 0)"
  shows "month_fits leap yday"
  using assms month_fits_all by (cases leap) (auto simp: list_all_iff)

lemma civil_from_days_split:
  fixes day :: int
  obtains a b c d where "0 \<le> b" "b \<le> 3" "0 \<le> c" "c \<le> 24" "0 \<le> d" "d \<le> 3"
    "civil_from_days day =
       (let y = 400 * a + 100 * b + 4 * c + d + 1;
            yday = day + 719162 - days_before_year y;
            m = month_of (leap_year y) yday
        in (y, m, yday - days_before_month (leap_year y) m + 1))"
    "days_before_year (400 * a + 100 * b + 4 * c + d + 1) \<le> day + 719162"
    "day + 719162 < days_before_year (400 * a + 100 * b + 4 * c + d + 1) + 365 +
       (if leap_year (400 * a + 100 * b + 4 * c + d + 1) then 1 else 0)"
proof -
  define n where "n = day + 719162"
  define a where "a = n div 146097"
  define r where "r = n mod 146097"
  define b where "b = min (r div 36524) 3"
  define s where "s = r - b * 36524"
  define c where "c = s div 1461"
  define t where "t = s mod 1461"
  define d where "d = min (t div 365) 3"
  have nr: "n = 146097 * a + r" "0 \<le> r" "r < 146097" unfolding a_def r_def by auto
  have b: "0 \<le> b" "b \<le> 3" "0 \<le> s" "s < 36524 \<or> b = 3 \<and> s < 36525"
    unfolding s_def b_def using nr by linarith+
  have st: "s = 1461 * c + t" "0 \<le> t" "t < 1461" unfolding c_def t_def by auto
  have c: "0 \<le> c" "c \<le> 24" using st b by linarith+
  have d: "0 \<le> d" "d \<le> 3" "365 * d \<le> t" "t < 365 * d + 365 \<or> d = 3"
    unfolding d_def using st by linarith+
  let ?y = "400 * a + 100 * b + 4 * c + d + 1"
  note y = year_split [OF refl b(1,2) c d(1,2), of a]
  have n: "n = days_before_year ?y + (t - 365 * d)"
    using nr st y(1) by (simp add: s_def)
  have leap: "t - 365 * d < 365 + (if leap_year ?y then 1 else 0)"
    using y(2) d st b c by auto
  have "civil_from_days day =
       (let y = ?y; yday = day + 719162 - days_before_year y; m = month_of (leap_year y) yday
        in (y, m, yday - days_before_month (leap_year y) m + 1))"
    using n unfolding civil_from_days_def Let_def n_def [symmetric] a_def [symmetric] r_def [symmetric]
      b_def [symmetric] s_def [symmetric] c_def [symmetric] t_def [symmetric] d_def [symmetric]
    by (simp add: mult.commute)
  with b(1,2) c d(1,2) n leap d(3) show thesis
    by (intro that [of b c d a]) (auto simp: n_def)
qed

lemma civil_from_days:
  assumes "civil_from_days day = (y, m, d)"
  shows "civil_to_days y m d = day" "0 \<le> m" "m \<le> 11" "1 \<le> d" "d \<le> days_in_month y m"
proof -
  obtain z where split: "civil_from_days day =
       (let yday = day + 719162 - days_before_year z; m = month_of (leap_year z) yday
        in (z, m, yday - days_before_month (leap_year z) m + 1))"
    and yday: "days_before_year z \<le> day + 719162"
      "day + 719162 < days_before_year z + 365 + (if leap_year z then 1 else 0)"
    by (rule civil_from_days_split [of day]) (auto simp: Let_def)
  let ?yday = "day + 719162 - days_before_year z"
  have "month_fits (leap_year z) ?yday" using yday by (intro month_of_bounds) auto
  moreover have "y = z" "m = month_of (leap_year z) ?yday" "d = ?yday - days_before_month (leap_year z) m + 1"
    using assms split unfolding Let_def by (auto simp only: prod.inject)
  ultimately show "civil_to_days y m d = day" "0 \<le> m" "m \<le> 11" "1 \<le> d" "d \<le> days_in_month y m"
    by (simp_all add: month_fits_def civil_to_days_def days_in_month_def Let_def)
qed

lemma gmtime_valid: "valid_tm (gmtime t)"
proof -
  obtain y m d where ymd: "civil_from_days (t div 86400) = (y, m, d)" by (metis prod_cases3)
  have "0 \<le> t mod 86400" "t mod 86400 < 86400" by simp_all
  with civil_from_days [OF ymd] ymd show ?thesis
    by (auto simp: valid_tm_def gmtime_def Let_def)
qed

lemma dvd_60: "(60 :: int) dvd 3600"
  by simp

lemma seconds_split: "(s :: int) div 3600 * 3600 + s mod 3600 div 60 * 60 + s mod 60 = s"
  using div_mult_mod_eq [of s 3600] div_mult_mod_eq [of "s mod 3600" 60] mod_mod_cancel [of 60 3600 s, OF dvd_60]
  by linarith

lemma timegm_gmtime: "timegm (gmtime t) = (t, gmtime t)"
proof -
  obtain y m d where ymd: "civil_from_days (t div 86400) = (y, m, d)" by (metis prod_cases3)
  note civil = civil_from_days [OF ymd]
  define r where "r = t mod 86400"
  have "civil_to_days (y - 1900 + 1900 + m div 12) (m mod 12) d = t div 86400" using civil by simp
  then have "fst (timegm (gmtime t)) =
      t div 86400 * 86400 + r div 3600 * 3600 + r mod 3600 div 60 * 60 + r mod 60"
    unfolding timegm_def gmtime_def Let_def ymd prod.case tm.simps fst_conv r_def by (simp only:)
  also have "\<dots> = t div 86400 * 86400 + r" using seconds_split [of r] by linarith
  also have "\<dots> = t" by (simp only: r_def div_mult_mod_eq)
  finally have "fst (timegm (gmtime t)) = t" .
  then show ?thesis by (auto simp: timegm_def Let_def)
qed

subsection \<open>Facts: printing and reading numbers\<close>

lemma show_padded_Suc:
  assumes "0 < w"
  shows "show_padded (Suc w) n = show_padded w (n div 10) @ [char_of (48 + n mod 10)]"
proof (cases "n < 10")
  case True
  then have "show_nat n = [char_of (48 + n)]" "show_nat (n div 10) = [char_of (48 :: nat)]"
    by (subst show_nat.simps, simp)+
  moreover have "char_of (48 :: nat) = CHR ''0''" by code_simp
  ultimately show ?thesis using True assms
    by (cases w) (simp_all add: show_padded_def replicate_append_same)
next
  case False
  then have "show_nat n = show_nat (n div 10) @ [char_of (48 + n mod 10)]"
    by (subst show_nat.simps) (simp only: if_False)
  then show ?thesis by (simp add: show_padded_def)
qed

lemma show_padded_1: "n < 10 \<Longrightarrow> show_padded 1 n = [char_of (48 + n)]"
  by (simp add: show_padded_def show_nat.simps)

lemma show_padded_2: "n < 100 \<Longrightarrow> show_padded 2 n = [char_of (48 + n div 10), char_of (48 + n mod 10)]"
  using show_padded_Suc [of 1 n] show_padded_1 [of "n div 10"] by (simp add: numeral_2_eq_2)

lemma show_padded_digits: "\<forall>c \<in> set (show_padded w n). isdigit c"
  using show_nat_digits by (auto simp: show_padded_def isdigit_def)

lemma length_show_padded: "n < 10 ^ w \<Longrightarrow> 0 < w \<Longrightarrow> length (show_padded w n) = w"
proof (induction w arbitrary: n)
  case (Suc w)
  show ?case
  proof (cases "w = 0")
    case True
    with Suc.prems show ?thesis using show_padded_1 [of n] by simp
  next
    case False
    with Suc.prems show ?thesis
      using Suc.IH [of "n div 10"] by (simp add: show_padded_Suc less_mult_imp_div_less mult.commute)
  qed
qed simp

text \<open>The 4 digit years.\<close>

lemma length_show_nat: "10 ^ k \<le> n \<Longrightarrow> n < 10 ^ Suc k \<Longrightarrow> length (show_nat n) = Suc k"
proof (induction k arbitrary: n)
  case 0
  then show ?case by (subst show_nat.simps) simp
next
  case (Suc k)
  have "(10 :: nat) ^ Suc k \<ge> 10" by simp
  with Suc.prems have "\<not> n < 10" by linarith
  moreover have "length (show_nat (n div 10)) = Suc k"
    by (rule Suc.IH) (use Suc.prems in \<open>simp_all add: less_eq_div_iff_mult_less_eq less_mult_imp_div_less\<close>)
  ultimately show ?case by (subst show_nat.simps) simp
qed

lemma to_string_year:
  assumes "1000 \<le> y" "y \<le> 9999"
  shows "to_string y = show_padded 4 (nat y)"
  using assms length_show_nat [of 3 "nat y"] by (simp add: to_string_def show_padded_def)

lemma show_padded_int_nonneg: "0 \<le> v \<Longrightarrow> show_padded_int w v = show_padded w (nat v)"
  by (simp add: show_padded_int_def)

lemma read_digits_ge: "acc \<le> fst (read_digits acc s)"
proof (induction acc s rule: read_digits.induct)
  case (2 acc c cs)
  show ?case
  proof (cases "isdigit c")
    case True
    with 2 have "acc * 10 + digit_val c \<le> fst (read_digits (acc * 10 + digit_val c) cs)" by blast
    with True show ?thesis by (simp only: read_digits.simps if_True)
  qed simp
qed simp

lemma read_digits_padded: "fst (read_digits 0 (show_padded w n)) = n"
proof -
  have "read_digits 0 (replicate k (CHR ''0'') @ s) = read_digits 0 s" for k s
    by (induction k) (simp_all add: isdigit_def digit_val_def)
  then show ?thesis by (simp add: show_padded_def read_digits_show_nat)
qed

lemma take_number_digits:
  assumes "\<forall>c \<in> set ds. isdigit c" and "fst (read_digits acc ds) \<le> hi"
  shows "take_number hi (length ds) acc (ds @ rest) = (fst (read_digits acc ds), rest)"
  using assms
proof (induction ds arbitrary: acc)
  case (Cons c cs)
  then have "fst (read_digits (acc * 10 + digit_val c) cs) \<le> hi" by simp
  moreover from this have "acc * 10 \<le> hi"
    using read_digits_ge [of "acc * 10 + digit_val c" cs] by linarith
  ultimately show ?case using Cons by simp
qed simp

lemma get_number_padded:
  assumes "n < 10 ^ w" "0 < w" "lo \<le> n" "n \<le> hi"
  shows "get_number lo hi w (show_padded w n @ rest) = Some (int n, rest)"
proof -
  note len = length_show_padded [OF assms(1,2)]
  then obtain c cs where s: "show_padded w n = c # cs" using assms(2) by (cases "show_padded w n") auto
  then have c: "isdigit c" "\<not> isspace c" using show_padded_digits [of w n] isdigit_props by auto
  have "take_number hi w 0 (show_padded w n @ rest) = (n, rest)"
    using take_number_digits [OF show_padded_digits, of 0 w n hi rest] assms(4) len
    by (simp add: read_digits_padded)
  with s c assms(3,4) show ?thesis by (simp add: get_number_def)
qed

subsection \<open>Facts: strptime reads what strftime prints\<close>

lemma strptime_steps:
  "strptime (CHR ''-'' # fs) (CHR ''-'' # s) t = strptime fs s t"
  "strptime (CHR '':'' # fs) (CHR '':'' # s) t = strptime fs s t"
  "strptime (CHR '' '' # fs) s t = strptime fs (dropWhile isspace s) t"
  "strptime_field k s t = Some (t', rest) \<Longrightarrow> strptime (CHR ''%'' # k # ks) s t = strptime ks rest t'"
  by (simp_all add: isspace_def)

definition in_range_tm :: "tm \<Rightarrow> bool" where
  "in_range_tm t \<longleftrightarrow> -900 \<le> tm_year t \<and> tm_year t \<le> 8099 \<and> 0 \<le> tm_mon t \<and> tm_mon t \<le> 11 \<and>
     1 \<le> tm_mday t \<and> tm_mday t \<le> 31 \<and> 0 \<le> tm_hour t \<and> tm_hour t \<le> 23 \<and>
     0 \<le> tm_min t \<and> tm_min t \<le> 59 \<and> 0 \<le> tm_sec t \<and> tm_sec t \<le> 59"

lemma strptime_field_padded:
  assumes "in_range_tm t"
  shows "strptime_field (CHR ''Y'') (to_string (tm_year t + 1900) @ s) t' = Some (t'\<lparr>tm_year := tm_year t\<rparr>, s)"
    and "strptime_field (CHR ''m'') (show_padded_int 2 (tm_mon t + 1) @ s) t' = Some (t'\<lparr>tm_mon := tm_mon t\<rparr>, s)"
    and "strptime_field (CHR ''d'') (show_padded_int 2 (tm_mday t) @ s) t' = Some (t'\<lparr>tm_mday := tm_mday t\<rparr>, s)"
    and "strptime_field (CHR ''H'') (show_padded_int 2 (tm_hour t) @ s) t' = Some (t'\<lparr>tm_hour := tm_hour t\<rparr>, s)"
    and "strptime_field (CHR ''M'') (show_padded_int 2 (tm_min t) @ s) t' = Some (t'\<lparr>tm_min := tm_min t\<rparr>, s)"
    and "strptime_field (CHR ''S'') (show_padded_int 2 (tm_sec t) @ s) t' = Some (t'\<lparr>tm_sec := tm_sec t\<rparr>, s)"
proof -
  have year: "get_number 0 9999 4 (to_string (tm_year t + 1900) @ s) = Some (tm_year t + 1900, s)"
    using assms get_number_padded [of "nat (tm_year t + 1900)" 4 0 9999 s]
    by (simp add: to_string_year in_range_tm_def nat_le_iff)
  have two: "get_number lo hi 2 (show_padded_int 2 v @ s) = Some (v, s)"
    if "int lo \<le> v" "v \<le> int hi" "v < 100" for lo hi v
    using get_number_padded [of "nat v" 2 lo hi s] that by (simp add: show_padded_int_nonneg)
  note range = assms [unfolded in_range_tm_def]
  show "strptime_field (CHR ''Y'') (to_string (tm_year t + 1900) @ s) t' = Some (t'\<lparr>tm_year := tm_year t\<rparr>, s)"
    "strptime_field (CHR ''m'') (show_padded_int 2 (tm_mon t + 1) @ s) t' = Some (t'\<lparr>tm_mon := tm_mon t\<rparr>, s)"
    "strptime_field (CHR ''d'') (show_padded_int 2 (tm_mday t) @ s) t' = Some (t'\<lparr>tm_mday := tm_mday t\<rparr>, s)"
    "strptime_field (CHR ''H'') (show_padded_int 2 (tm_hour t) @ s) t' = Some (t'\<lparr>tm_hour := tm_hour t\<rparr>, s)"
    "strptime_field (CHR ''M'') (show_padded_int 2 (tm_min t) @ s) t' = Some (t'\<lparr>tm_min := tm_min t\<rparr>, s)"
    "strptime_field (CHR ''S'') (show_padded_int 2 (tm_sec t) @ s) t' = Some (t'\<lparr>tm_sec := tm_sec t\<rparr>, s)"
    using range by (simp_all add: strptime_field_def year two)
qed

lemma dropWhile_space_padded:
  "0 \<le> v \<Longrightarrow> dropWhile isspace (show_padded_int w v @ s) = show_padded_int w v @ s"
proof -
  assume "0 \<le> v"
  moreover have "show_padded w (nat v) \<noteq> []" by (simp add: show_padded_def show_nat_not_Nil)
  ultimately show ?thesis
    using show_padded_digits [of w "nat v"] isdigit_props
    by (cases "show_padded w (nat v)") (simp_all add: show_padded_int_nonneg)
qed

lemma strptime_date:
  assumes "in_range_tm t"
  shows "strptime (''%Y-%m-%d'' @ fs) (strftime_date t @ s) t' =
    strptime fs s (t'\<lparr>tm_year := tm_year t, tm_mon := tm_mon t, tm_mday := tm_mday t\<rparr>)"
  unfolding strftime_date_def append_Cons append_Nil append_assoc
  by (simp only: strptime_steps strptime_field_padded [OF assms])

lemma strptime_time:
  assumes "in_range_tm t"
  shows "strptime ''%H:%M:%S'' (strftime_time t @ s) t' =
    (Some s, t'\<lparr>tm_hour := tm_hour t, tm_min := tm_min t, tm_sec := tm_sec t\<rparr>)"
  unfolding strftime_time_def append_Cons append_Nil append_assoc
  by (simp only: strptime_steps strptime_field_padded [OF assms] strptime.simps(1))

lemma strptime_datetime:
  assumes "in_range_tm t"
  shows "strptime ''%Y-%m-%d %H:%M:%S'' (strftime_date t @ '' '' @ strftime_time t @ s) t' = (Some s, t)"
proof -
  have "dropWhile isspace (strftime_time t @ s) = strftime_time t @ s"
    using assms by (simp add: strftime_time_def dropWhile_space_padded in_range_tm_def)
  moreover have "isspace (CHR '' '')" by (simp add: isspace_def)
  ultimately show ?thesis
    using strptime_date [OF assms, of "'' %H:%M:%S''" "'' '' @ strftime_time t @ s" t'] strptime_time [OF assms]
    by (simp add: strptime_steps(3))
qed

lemma days_in_month_le: "0 \<le> m \<Longrightarrow> m \<le> 11 \<Longrightarrow> days_in_month y m \<le> 31"
proof -
  assume "0 \<le> m" "m \<le> 11"
  then have "nat m < 12" by simp
  then have "[31, if leap_year y then 29 else 28, 31, 30, 31, 30, 31, 31, 30, 31, 30, 31] ! nat m
      \<in> set [31, if leap_year y then 29 else 28, 31, 30, 31, 30, 31, 31, 30, 31, 30, 31 :: int]"
    by (intro nth_mem) simp
  then show ?thesis by (auto simp: days_in_month_def split: if_splits)
qed

lemma in_range_gmtime:
  assumes "-900 \<le> tm_year (gmtime t)" "tm_year (gmtime t) \<le> 8099"
  shows "in_range_tm (gmtime t)"
  using gmtime_valid [of t] assms days_in_month_le [of "tm_mon (gmtime t)" "tm_year (gmtime t) + 1900"]
  by (simp add: valid_tm_def in_range_tm_def)

text \<open>The times a 64-bit count of nanoseconds reaches are in four digit years.\<close>

lemma div_mod_bounds:
  fixes n m :: int
  assumes "0 < m"
  shows "m * (n div m) \<le> n" "n - m < m * (n div m)"
  using div_mult_mod_eq [of n m] pos_mod_bound [OF assms, of n] pos_mod_sign [OF assms, of n]
  by (simp_all only: mult.commute [of m])

lemma days_before_year_bounds:
  "146097 * (y - 1) - 800 \<le> 400 * days_before_year y" "400 * days_before_year y \<le> 146097 * (y - 1) + 400"
proof -
  have bounds: "146097 * z - 800 \<le> 400 * (365 * z + p - q + r)" "400 * (365 * z + p - q + r) \<le> 146097 * z + 400"
    if "4 * p \<le> z" "z - 4 < 4 * p" "100 * q \<le> z" "z - 100 < 100 * q" "400 * r \<le> z" "z - 400 < 400 * r"
    for p q r z :: int
    using that by (simp_all add: algebra_simps)
  show "146097 * (y - 1) - 800 \<le> 400 * days_before_year y" "400 * days_before_year y \<le> 146097 * (y - 1) + 400"
    unfolding days_before_year_def by (rule bounds; rule div_mod_bounds; simp)+
qed

lemma gmtime_year_range:
  assumes "\<bar>t\<bar> \<le> 10000000000"
  shows "in_range_tm (gmtime t)"
proof -
  obtain y m d where ymd: "civil_from_days (t div 86400) = (y, m, d)" by (metis prod_cases3)
  obtain z where split: "civil_from_days (t div 86400) =
       (let yday = t div 86400 + 719162 - days_before_year z; m = month_of (leap_year z) yday
        in (z, m, yday - days_before_month (leap_year z) m + 1))"
    and yday: "days_before_year z \<le> t div 86400 + 719162"
      "t div 86400 + 719162 < days_before_year z + 365 + (if leap_year z then 1 else 0)"
    by (rule civil_from_days_split [of "t div 86400"]) (auto simp: Let_def)
  have "y = z" using split ymd unfolding Let_def by (auto simp only: prod.inject)
  moreover have "-115741 \<le> t div 86400" "t div 86400 \<le> 115740" using assms by linarith+
  ultimately have "1000 \<le> y" "y \<le> 9999"
    using yday days_before_year_bounds [of z] by (cases "leap_year z"; simp; linarith)+
  then show ?thesis using ymd by (intro in_range_gmtime) (simp_all add: gmtime_def Let_def)
qed

end
