(* ===== verification/Value.thy ===== *)
theory Value
  imports Cell Request C_Time
begin

section \<open>Parameter values: include/PostgresValue.h\<close>

text \<open>
  \<open>PostgresValue\<close> turns C++ values into the text form of a query parameter. The overloaded
  constructors are one definition each; the integers are kept at their width, floating point
  numbers are bit patterns with the printing of \<open>std::to_string\<close> as a parameter. A time point
  is a count of nanoseconds, as \<open>std::chrono::system_clock\<close> of libstdc++ has it.

  The lemmas read the texts back with the code's own decoders of result cells, and, for text
  arrays, with a decoder of the server's array syntax.
\<close>

record pg_value =
  vl_is_null :: bool
  vl_type_oid :: i32
  vl_data :: bytes

definition null_value :: "i32 \<Rightarrow> pg_value" where
  "null_value oid = \<lparr>vl_is_null = True, vl_type_oid = oid, vl_data = []\<rparr>"

definition typed_value :: "bytes \<Rightarrow> i32 \<Rightarrow> pg_value" where
  "typed_value s oid = \<lparr>vl_is_null = False, vl_type_oid = oid, vl_data = s\<rparr>"

definition value_bool :: "bool \<Rightarrow> pg_value" where
  "value_bool v = typed_value (if v then ''t'' else ''f'') (pg_oid T_BOOL)"

definition value_int16 :: "i16 \<Rightarrow> pg_value" where
  "value_int16 v = typed_value (to_string (sint v)) (pg_oid T_INT2)"

definition value_int32 :: "i32 \<Rightarrow> pg_value" where
  "value_int32 v = typed_value (to_string (sint v)) (pg_oid T_INT4)"

definition value_int64 :: "i64 \<Rightarrow> pg_value" where
  "value_int64 v = typed_value (to_string (sint v)) (pg_oid T_INT8)"

definition value_uint16 :: "u16 \<Rightarrow> pg_value" where
  "value_uint16 v = typed_value (to_string (uint v)) (pg_oid T_INT4)"

definition value_uint32 :: "u32 \<Rightarrow> pg_value" where
  "value_uint32 v = typed_value (to_string (uint v)) (pg_oid T_INT8)"

definition value_uint64 :: "u64 \<Rightarrow> pg_value" where
  "value_uint64 v = typed_value (to_string (uint v)) (pg_oid T_NUMERIC)"

text \<open>A C string: \<open>None\<close> is the null pointer.\<close>

definition value_cstring :: "bytes option \<Rightarrow> pg_value" where
  "value_cstring s =
     (case s of
        None \<Rightarrow> \<lparr>vl_is_null = True, vl_type_oid = pg_oid T_TEXT, vl_data = []\<rparr>
      | Some t \<Rightarrow> typed_value t (pg_oid T_TEXT))"

definition value_string :: "bytes \<Rightarrow> pg_value" where
  "value_string s = typed_value s (pg_oid T_TEXT)"

definition to_hex_bytea :: "bytes \<Rightarrow> bytes" where
  "to_hex_bytea data = CHR 0x5C # CHR ''x'' # hex_bytes data"

definition value_bytes :: "bytes \<Rightarrow> pg_value" where
  "value_bytes bs = typed_value (to_hex_bytea bs) (pg_oid T_BYTEA)"

text \<open>\<open>PostgresValue::bytea(data, len)\<close>: an empty range leaves the text empty.\<close>

definition value_bytea :: "bytes option \<Rightarrow> pg_value" where
  "value_bytea data =
     (case data of
        None \<Rightarrow> null_value (pg_oid T_BYTEA)
      | Some bs \<Rightarrow> typed_value (if length bs > 0 then to_hex_bytea bs else []) (pg_oid T_BYTEA))"

definition value_numeric :: "bytes \<Rightarrow> pg_value" where
  "value_numeric s = typed_value s (pg_oid T_NUMERIC)"

definition value_json :: "bytes \<Rightarrow> pg_value" where
  "value_json s = typed_value s (pg_oid T_JSON)"

definition value_jsonb :: "bytes \<Rightarrow> pg_value" where
  "value_jsonb s = typed_value s (pg_oid T_JSONB)"

definition value_uuid :: "bytes \<Rightarrow> pg_value" where
  "value_uuid s = typed_value s (pg_oid T_UUID)"

subsection \<open>Arrays\<close>

fun join_elements :: "bytes list \<Rightarrow> bytes" where
  "join_elements [] = []"
| "join_elements [x] = x"
| "join_elements (x # xs) = x @ CHR '','' # join_elements xs"

definition format_array :: "int list \<Rightarrow> bytes" where
  "format_array vec = CHR ''{'' # join_elements (map to_string vec) @ ''}''"

definition value_int32_array :: "i32 list \<Rightarrow> pg_value" where
  "value_int32_array vec = typed_value (format_array (map sint vec)) (pg_oid T_INT4_ARRAY)"

definition value_int64_array :: "i64 list \<Rightarrow> pg_value" where
  "value_int64_array vec = typed_value (format_array (map sint vec)) (pg_oid T_INT8_ARRAY)"

fun escape_element :: "bytes \<Rightarrow> bytes" where
  "escape_element [] = []"
| "escape_element (c # cs) =
     (if c = CHR 0x22 \<or> c = CHR 0x5C then CHR 0x5C # c # escape_element cs else c # escape_element cs)"

definition quote_element :: "bytes \<Rightarrow> bytes" where
  "quote_element s = CHR 0x22 # escape_element s @ [CHR 0x22]"

definition text_array :: "bytes list \<Rightarrow> bytes" where
  "text_array vec = CHR ''{'' # join_elements (map quote_element vec) @ ''}''"

definition value_text_array :: "bytes list \<Rightarrow> pg_value" where
  "value_text_array vec = typed_value (text_array vec) (pg_oid T_TEXT_ARRAY)"

definition value_float :: "(u32 \<Rightarrow> bytes) \<Rightarrow> u32 \<Rightarrow> pg_value" where
  "value_float print v = typed_value (print v) (pg_oid T_FLOAT4)"

definition value_double :: "(u64 \<Rightarrow> bytes) \<Rightarrow> u64 \<Rightarrow> pg_value" where
  "value_double print v = typed_value (print v) (pg_oid T_FLOAT8)"

definition value_double_array :: "(u64 \<Rightarrow> bytes) \<Rightarrow> u64 list \<Rightarrow> pg_value" where
  "value_double_array print vec =
     typed_value (CHR ''{'' # join_elements (map print vec) @ ''}'') (pg_oid T_FLOAT8_ARRAY)"

subsection \<open>Dates and times\<close>

text \<open>
  \<open>strftime\<close> into a buffer of 64 characters: when the text and its NUL do not fit, the contents
  of the buffer are indeterminate (\<open>None\<close>).
\<close>

definition value_tm :: "tm \<Rightarrow> i32 \<Rightarrow> pg_value option" where
  "value_tm t oid =
     (let s = (if oid = pg_oid T_DATE then strftime_date t
               else if oid = pg_oid T_TIME then strftime_time t
               else strftime_date t @ '' '' @ strftime_time t)
      in if length s < 64 then Some (typed_value s oid) else None)"

definition value_time_point :: "int \<Rightarrow> pg_value" where
  "value_time_point tp =
     (let seconds = tp sdiv 1000000000; micros = (tp - seconds * 1000000000) sdiv 1000;
          (sec_count, usec_count) = (if micros < 0 then (seconds - 1, micros + 1000000) else (seconds, micros));
          t = gmtime sec_count
      in typed_value (strftime_date t @ '' '' @ strftime_time t @ ''.'' @ show_padded_int 6 usec_count @ ''+00'')
           (pg_oid T_TIMESTAMPTZ))"

subsection \<open>Parameters\<close>

definition to_parameter :: "pg_value \<Rightarrow> pg_parameter" where
  "to_parameter v =
     (if vl_is_null v
      then null_parameter\<lparr>par_is_null := True, par_type_oid := vl_type_oid v, par_format := 0\<rparr>
      else mk_parameter (vl_data v) 0 (vl_type_oid v))"

definition bind_params :: "pg_value list \<Rightarrow> pg_parameter list" where
  "bind_params args = map to_parameter args"

text \<open>\<open>set_query(query, first, rest...)\<close> of a request.\<close>

definition set_query_values :: "bytes \<Rightarrow> pg_value list \<Rightarrow> pg_request \<Rightarrow> pg_request" where
  "set_query_values query args rq =
     rq\<lparr>rq_query := query, rq_params := bind_params args, rq_has_params := True\<rparr>"

lemma set_query_values_params: "set_query_values query args = set_query_params query (bind_params args)"
  by (simp add: set_query_values_def set_query_params_def fun_eq_iff)

lemmas value_defs [step_defs] =
  value_bool_def value_int16_def value_int32_def value_int64_def value_uint16_def value_uint32_def
  value_uint64_def value_cstring_def value_string_def value_bytes_def value_bytea_def
  value_numeric_def value_json_def value_jsonb_def value_uuid_def value_int32_array_def
  value_int64_array_def value_text_array_def

subsection \<open>Reading parameters back\<close>

text \<open>A cell that shows a text value, as a result column in text format would.\<close>

definition text_cell :: "bytes \<Rightarrow> pg_cell" where
  "text_cell s = mk_cell (InBuf 0) (length s) False None"

lemma text_cell_facts [simp]:
  "cell_binary flds (text_cell s) = Some False" "cell_bytes s (text_cell s) = Some s"
  "cl_is_null (text_cell s) = False" "cl_length (text_cell s) = length s"
  by (simp_all add: text_cell_def cell_binary_def mk_cell_def cell_bytes_def cell_off_def cell_mem_def)

lemma with_cell_text [simp]: "with_cell s flds (text_cell s) f = f False s"
  by (rule with_cell_Some) simp_all

lemma read_int_text:
  "as_bigint (to_string (sint (v :: i64))) flds (text_cell (to_string (sint v))) = Some (v, None)"
  by (simp add: as_bigint_def text_to_int_to_string)

lemma scast_sint_int32: "sint (scast (v :: i32) :: i64) = sint v"
  by (rule sint_up_scast) (simp add: is_up_def source_size target_size)

lemma read_int32_value:
  "as_bigint (vl_data (value_int32 v)) flds (text_cell (vl_data (value_int32 v))) = Some (scast v, None)"
  using read_int_text [of "scast v :: i64" flds]
  by (simp add: value_int32_def typed_value_def scast_sint_int32)

lemma read_int64_value:
  "as_bigint (vl_data (value_int64 v)) flds (text_cell (vl_data (value_int64 v))) = Some (v, None)"
  using read_int_text [of v flds] by (simp add: value_int64_def typed_value_def)

lemma read_bool_value:
  "as_bool (vl_data (value_bool v)) flds (text_cell (vl_data (value_bool v))) = Some v"
  by (cases v) (simp_all add: as_bool_def value_bool_def typed_value_def)

lemma read_bytes_value:
  "as_bytea (vl_data (value_bytes bs)) flds (text_cell (vl_data (value_bytes bs))) = Some bs"
  by (rule as_bytea_hex) (simp_all add: value_bytes_def typed_value_def to_hex_bytea_def)

subsection \<open>The server's array syntax\<close>

text \<open>
  The decoder of the text form of a one-dimensional text array with quoted elements: inside
  the quotes a backslash takes the next character as it is.
\<close>

fun srv_element :: "bytes \<Rightarrow> (bytes \<times> bytes) option" where
  "srv_element [] = None"
| "srv_element (c # cs) =
     (if c = CHR 0x22 then Some ([], cs)
      else if c = CHR 0x5C then
        (case cs of [] \<Rightarrow> None | d # ds \<Rightarrow> map_option (\<lambda>(e, r). (d # e, r)) (srv_element ds))
      else map_option (\<lambda>(e, r). (c # e, r)) (srv_element cs))"

lemma srv_element_shorter: "srv_element s = Some (e, r) \<Longrightarrow> length r < length s"
  by (induction s arbitrary: e r rule: srv_element.induct) (fastforce split: if_splits list.splits)+

function srv_elements :: "bytes \<Rightarrow> bytes list option" where
  "srv_elements s =
     (case s of
        [] \<Rightarrow> None
      | c # cs \<Rightarrow>
          if c \<noteq> CHR 0x22 then None
          else (case srv_element cs of
                  None \<Rightarrow> None
                | Some (e, r) \<Rightarrow>
                    (case r of
                       [] \<Rightarrow> None
                     | d # ds \<Rightarrow>
                         if d = CHR ''}'' \<and> ds = [] then Some [e]
                         else if d = CHR '','' then map_option ((#) e) (srv_elements ds)
                         else None)))"
  by pat_completeness auto
termination
  by (relation "measure length") (auto dest!: srv_element_shorter)

declare srv_elements.simps [simp del]

definition srv_text_array :: "bytes \<Rightarrow> bytes list option" where
  "srv_text_array s =
     (if s = ''{}'' then Some []
      else case s of [] \<Rightarrow> None | c # cs \<Rightarrow> if c = CHR ''{'' then srv_elements cs else None)"

lemma srv_element_escape: "srv_element (escape_element s @ CHR 0x22 # rest) = Some (s, rest)"
  by (induction s) auto

lemma srv_elements_quoted:
  "srv_elements (quote_element s @ ''}'') = Some [s]"
  "srv_elements (quote_element s @ CHR '','' # rest) = map_option ((#) s) (srv_elements rest)"
  by (subst srv_elements.simps, simp add: quote_element_def srv_element_escape)+

lemma srv_elements_join:
  "vec \<noteq> [] \<Longrightarrow> srv_elements (join_elements (map quote_element vec) @ ''}'') = Some vec"
proof (induction vec)
  case (Cons s vec)
  then show ?case by (cases vec) (simp_all add: srv_elements_quoted)
qed simp

lemma srv_text_array_text: "srv_text_array (text_array vec) = Some vec"
proof (cases vec)
  case Nil
  then show ?thesis by (simp add: srv_text_array_def text_array_def)
next
  case (Cons s vs)
  then obtain cs where "join_elements (map quote_element vec) = CHR 0x22 # cs"
    by (cases vs) (simp_all add: quote_element_def)
  then have "text_array vec \<noteq> ''{}''" by (simp add: text_array_def)
  with srv_elements_join [of vec] Cons show ?thesis by (simp add: srv_text_array_def text_array_def)
qed

text \<open>An integer array: numbers with nothing behind them, between commas, in braces.\<close>

definition srv_int :: "bytes \<Rightarrow> int option" where
  "srv_int t = (case scan_int t of Some (v, []) \<Rightarrow> Some v | _ \<Rightarrow> None)"

definition srv_int_array :: "bytes \<Rightarrow> int list option" where
  "srv_int_array s =
     (if s = ''{}'' then Some []
      else if length s \<ge> 2 \<and> hd s = CHR ''{'' \<and> last s = CHR ''}''
        then map_option_list srv_int (split_on (CHR '','') (butlast (tl s)))
      else None)"

lemma to_string_no_comma: "CHR '','' \<notin> set (to_string v)"
  by (auto simp: to_string_def not_in_show_nat isdigit_def)

lemma split_join_ints: "vec \<noteq> [] \<Longrightarrow> split_on (CHR '','') (join_elements (map to_string vec)) = map to_string vec"
proof (induction vec)
  case (Cons v vec)
  then show ?case
    by (cases vec) (simp_all add: split_on_no_sep split_on_append to_string_no_comma)
qed simp

lemma srv_int_to_string: "srv_int (to_string v) = Some v"
  using scan_int_to_string [of "[]" v] by (simp add: srv_int_def no_digit_def)

lemma srv_int_array_format: "srv_int_array (format_array vec) = Some vec"
proof (cases vec)
  case Nil
  then show ?thesis by (simp add: srv_int_array_def format_array_def)
next
  case (Cons v vs)
  have "to_string v \<noteq> []" by (simp add: to_string_def show_nat_not_Nil)
  then have "join_elements (map to_string vec) \<noteq> []" using Cons by (cases vs) simp_all
  moreover have "map_option_list srv_int (map to_string vec) = Some vec"
    by (induction vec) (simp_all add: srv_int_to_string)
  ultimately show ?thesis
    using split_join_ints [of vec] Cons by (simp add: srv_int_array_def format_array_def)
qed

end
