(* ===== verification/Datetime.thy ===== *)
theory Datetime
  imports Value
begin

section \<open>Dates and times of cells: src/protocol/PostgresResult.cc\<close>

text \<open>
  The conversions of a cell to dates and times. The pointers the caller passes are \<open>tm\<close> and
  \<open>usec\<close>, \<open>None\<close> for a null pointer; a call gives its result, what the pointers then point to
  and the value \<open>errno\<close> is set to, if it is. A call is \<open>None\<close> when it reads outside the memory
  (as in Cell) or when the arithmetic overflows a signed type. A time point is a count of
  nanoseconds in 64 bits, as \<open>std::chrono::system_clock\<close> of libstdc++ has it.
\<close>

type_synonym date_result = "bool \<times> tm option \<times> int option"
type_synonym time_result = "bool \<times> tm option \<times> int option \<times> int option"

definition set_usec :: "int option \<Rightarrow> int \<Rightarrow> int option" where
  "set_usec usec v = map_option (\<lambda>_. v) usec"

text \<open>The seconds and microseconds of a binary timestamp, which counts from 2000-01-01.\<close>

definition timestamp_split :: "int \<Rightarrow> int \<times> int" where
  "timestamp_split v =
     (let epoch = v sdiv 1000000 + 946684800; micros = v smod 1000000
      in if micros < 0 then (epoch - 1, micros + 1000000) else (epoch, micros))"

definition as_datetime_string :: "bytes \<Rightarrow> pg_field list \<Rightarrow> pg_cell \<Rightarrow> (bytes \<times> int option) option" where
  "as_datetime_string buf flds c =
     (if cl_is_null c then Some ([], None)
      else with_cell buf flds c (\<lambda>binary d.
        if binary then
          (if cl_length c \<noteq> 8 then Some ([], Some EINVAL)
           else (case as_bigint buf flds c of
                   None \<Rightarrow> None
                 | Some (x, err) \<Rightarrow>
                     let (epoch, micros) = timestamp_split (sint x); t = gmtime epoch;
                         date = show_padded_int 4 (tm_year t + 1900) @ ''-'' @ show_padded_int 2 (tm_mon t + 1) @
                                ''-'' @ show_padded_int 2 (tm_mday t);
                         time = show_padded_int 2 (tm_hour t) @ '':'' @ show_padded_int 2 (tm_min t) @
                                '':'' @ show_padded_int 2 (tm_sec t)
                     in Some (date @ '' '' @ time @ (if micros > 0 then ''.'' @ show_padded_int 6 micros else []), err)))
        else Some (d, None)))"

definition as_date_string :: "bytes \<Rightarrow> pg_field list \<Rightarrow> pg_cell \<Rightarrow> (bytes \<times> int option) option" where
  "as_date_string buf flds c =
     (if cl_is_null c then Some ([], None)
      else with_cell buf flds c (\<lambda>binary d.
        if binary then
          (if cl_length c \<noteq> 4 then Some ([], Some EINVAL)
           else (case as_int buf flds c of
                   None \<Rightarrow> None
                 | Some (x, err) \<Rightarrow>
                     let v = sint (ucast x :: i32); t = gmtime (v * 86400 + 946684800)
                     in Some (show_padded_int 4 (tm_year t + 1900) @ ''-'' @ show_padded_int 2 (tm_mon t + 1) @
                              ''-'' @ show_padded_int 2 (tm_mday t), err)))
        else Some (d, None)))"

text \<open>The quotient is narrowed to \<open>int\<close>.\<close>

definition as_time_string :: "bytes \<Rightarrow> pg_field list \<Rightarrow> pg_cell \<Rightarrow> (bytes \<times> int option) option" where
  "as_time_string buf flds c =
     (if cl_is_null c then Some ([], None)
      else with_cell buf flds c (\<lambda>binary d.
        if binary then
          (if cl_length c \<noteq> 8 then Some ([], Some EINVAL)
           else (case as_bigint buf flds c of
                   None \<Rightarrow> None
                 | Some (x, err) \<Rightarrow>
                     let micros = sint x smod 1000000;
                         total_secs = sint (word_of_int (sint x sdiv 1000000) :: i32);
                         hours = total_secs sdiv 3600; mins = total_secs smod 3600 sdiv 60;
                         secs = total_secs smod 60
                     in Some (show_padded_int 2 hours @ '':'' @ show_padded_int 2 mins @ '':'' @
                              show_padded_int 2 secs @ (if micros > 0 then ''.'' @ show_padded_int 6 micros else []), err)))
        else Some (d, None)))"

subsection \<open>Broken down times\<close>

definition as_date :: "bytes \<Rightarrow> pg_field list \<Rightarrow> pg_cell \<Rightarrow> tm option \<Rightarrow> date_result option" where
  "as_date buf flds c tm =
     (if cl_is_null c \<or> tm = None then Some (False, tm, Some EINVAL)
      else with_cell buf flds c (\<lambda>binary d.
        if binary then
          (if cl_length c \<noteq> 4 then Some (False, Some zero_tm, Some EINVAL)
           else (case as_int buf flds c of
                   None \<Rightarrow> None
                 | Some (x, err) \<Rightarrow>
                     let v = sint (ucast x :: i32); t = gmtime (v * 86400 + 946684800)
                     in Some (True, Some (t\<lparr>tm_hour := 0, tm_min := 0, tm_sec := 0\<rparr>), err)))
        else
          (let (rest, t) = strptime ''%Y-%m-%d'' (c_str d) zero_tm
           in if rest = Some [] then Some (True, Some t, None) else Some (False, Some t, Some EINVAL))))"

text \<open>The digits behind the decimal point: their number, the microseconds of the first six, the rest.\<close>

fun fraction_loop :: "nat \<Rightarrow> int \<Rightarrow> int \<Rightarrow> bytes \<Rightarrow> nat \<times> int \<times> bytes" where
  "fraction_loop count temp_usec mult [] = (count, temp_usec, [])"
| "fraction_loop count temp_usec mult (c # cs) =
     (if isdigit c then
        (if count < 6
         then fraction_loop (count + 1) (temp_usec + int (digit_val c) * mult) (mult sdiv 10) cs
         else fraction_loop (count + 1) temp_usec mult cs)
      else (count, temp_usec, c # cs))"

definition as_time_text :: "bytes \<Rightarrow> int option \<Rightarrow> time_result" where
  "as_time_text s usec =
     (let (rest, t) = strptime ''%H:%M:%S'' s zero_tm in
      case rest of
        None \<Rightarrow> (False, Some t, usec, Some EINVAL)
      | Some [] \<Rightarrow> (True, Some t, set_usec usec 0, None)
      | Some (e # es) \<Rightarrow>
          if e = CHR ''.'' then
            (let (count, temp_usec, rest) = fraction_loop 0 0 100000 es
             in if count > 0 \<and> count \<le> 6 \<and> rest = [] then (True, Some t, set_usec usec temp_usec, None)
                else (False, Some t, usec, Some EINVAL))
          else (False, Some t, usec, Some EINVAL))"

text \<open>\<open>None\<close> also when \<open>total_secs -= 1\<close> overflows.\<close>

definition as_time :: "bytes \<Rightarrow> pg_field list \<Rightarrow> pg_cell \<Rightarrow> tm option \<Rightarrow> int option \<Rightarrow> time_result option" where
  "as_time buf flds c tm usec =
     (if cl_is_null c \<or> tm = None then Some (False, tm, usec, Some EINVAL)
      else with_cell buf flds c (\<lambda>binary d.
        let usec = set_usec usec 0 in
        if binary then
          (if cl_length c \<noteq> 8 then Some (False, Some zero_tm, usec, Some EINVAL)
           else (case as_bigint buf flds c of
                   None \<Rightarrow> None
                 | Some (x, err) \<Rightarrow>
                     let micros = sint x smod 1000000;
                         total_secs = sint (word_of_int (sint x sdiv 1000000) :: i32);
                         (micros, total_secs) = (if micros < 0 then (micros + 1000000, total_secs - 1)
                                                 else (micros, total_secs));
                         hour = total_secs sdiv 3600 smod 24;
                         min = total_secs smod 3600 sdiv 60;
                         sec = total_secs smod 60
                     in if total_secs < - (2 ^ 31) then None
                        else Some (True, Some (zero_tm\<lparr>tm_hour := if hour < 0 then hour + 24 else hour,
                                                tm_min := if min < 0 then min + 60 else min,
                                                tm_sec := if sec < 0 then sec + 60 else sec\<rparr>),
                                   set_usec usec micros, err)))
        else Some (as_time_text (c_str d) usec)))"

text \<open>\<open>parse_timezone_offset\<close>: the offset in seconds and the text behind it, or failure.\<close>

definition two_digits :: "bytes \<Rightarrow> (int \<times> bytes) option" where
  "two_digits p =
     (case p of
        a # b # rest \<Rightarrow> if isdigit a \<and> isdigit b then Some (int (digit_val a * 10 + digit_val b), rest) else None
      | _ \<Rightarrow> None)"

definition parse_timezone_offset :: "bytes \<Rightarrow> (int \<times> bytes) option" where
  "parse_timezone_offset p =
     (case p of
        [] \<Rightarrow> None
      | s # p \<Rightarrow>
          if s = CHR ''Z'' \<or> s = CHR ''z'' then Some (0, p)
          else if s = CHR ''+'' \<or> s = CHR ''-'' then
            let sign = (if s = CHR ''+'' then 1 else - 1) in
            (case two_digits p of
               None \<Rightarrow> None
             | Some (h, p) \<Rightarrow>
                 if p \<noteq> [] \<and> hd p = CHR '':'' then
                   (case two_digits (tl p) of
                      None \<Rightarrow> None
                    | Some (m, p) \<Rightarrow> Some (sign * (h * 3600 + m * 60), p))
                 else
                   (case two_digits p of
                      None \<Rightarrow> Some (sign * (h * 3600), p)
                    | Some (m, p) \<Rightarrow> Some (sign * (h * 3600 + m * 60), p)))
          else None)"

definition as_datetime_text :: "bytes \<Rightarrow> int option \<Rightarrow> time_result" where
  "as_datetime_text s usec =
     (let (rest, t) = strptime ''%Y-%m-%d %H:%M:%S'' s zero_tm;
          (rest, t) = (if rest = None then strptime ''%Y-%m-%dT%H:%M:%S'' s t else (rest, t)) in
      case rest of
        None \<Rightarrow> (False, Some t, usec, Some EINVAL)
      | Some e \<Rightarrow>
          let (temp_usec, e) =
                (if e \<noteq> [] \<and> hd e = CHR ''.''
                 then (case fraction_loop 0 0 100000 (tl e) of (count, us, rest) \<Rightarrow> (us, rest))
                 else (0, e))
          in if e \<noteq> [] then
               (case parse_timezone_offset e of
                  Some (tz_offset, []) \<Rightarrow>
                    let (local_epoch, t) = timegm t in
                    (True, Some (if local_epoch \<noteq> -1 then gmtime (local_epoch - tz_offset) else t),
                     set_usec usec temp_usec, None)
                | _ \<Rightarrow> (False, Some t, usec, Some EINVAL))
             else (True, Some t, set_usec usec temp_usec, None))"

definition as_datetime :: "bytes \<Rightarrow> pg_field list \<Rightarrow> pg_cell \<Rightarrow> tm option \<Rightarrow> int option \<Rightarrow> time_result option" where
  "as_datetime buf flds c tm usec =
     (if cl_is_null c \<or> tm = None then Some (False, tm, usec, Some EINVAL)
      else with_cell buf flds c (\<lambda>binary d.
        let usec = set_usec usec 0 in
        if binary then
          (if cl_length c \<noteq> 8 then Some (False, Some zero_tm, usec, Some EINVAL)
           else (case as_bigint buf flds c of
                   None \<Rightarrow> None
                 | Some (x, err) \<Rightarrow>
                     let (epoch, micros) = timestamp_split (sint x)
                     in Some (True, Some (gmtime epoch), set_usec usec micros, err)))
        else Some (as_datetime_text (c_str d) usec)))"

subsection \<open>Time points\<close>

definition fits_int64 :: "int \<Rightarrow> bool" where
  "fits_int64 v \<longleftrightarrow> - (2 ^ 63) \<le> v \<and> v < 2 ^ 63"

definition time_point_of_micros :: "int \<Rightarrow> int option" where
  "time_point_of_micros us = (if fits_int64 us \<and> fits_int64 (us * 1000) then Some (us * 1000) else None)"

definition as_time_point :: "bytes \<Rightarrow> pg_field list \<Rightarrow> pg_cell \<Rightarrow> (int \<times> int option) option" where
  "as_time_point buf flds c =
     (if cl_is_null c then Some (0, Some EINVAL)
      else with_cell buf flds c (\<lambda>binary d.
        if binary then
          (if cl_length c \<noteq> 8 then Some (0, Some EINVAL)
           else (case as_bigint buf flds c of
                   None \<Rightarrow> None
                 | Some (x, err) \<Rightarrow>
                     map_option (\<lambda>tp. (tp, err)) (time_point_of_micros (sint x + 946684800000000))))
        else
          (case as_datetime buf flds c (Some zero_tm) (Some 0) of
             Some (True, Some t, Some usec, err) \<Rightarrow>
               (let sec = fst (timegm t) in
                if sec = -1 then Some (0, Some EINVAL)
                else map_option (\<lambda>tp. (tp, err)) (time_point_of_micros (sec * 1000000 + usec)))
           | Some (_, _, _, err) \<Rightarrow> Some (0, err)
           | None \<Rightarrow> None)))"

subsection \<open>Detached cells\<close>

text \<open>The date and time conversions of a detached cell do not depend on the response buffer either.\<close>

lemma detach_times:
  assumes "wf_cell c" and "detach buf c = Some c'"
  shows "as_datetime_string buf' flds c' = as_datetime_string buf flds c"
    and "as_date_string buf' flds c' = as_date_string buf flds c"
    and "as_time_string buf' flds c' = as_time_string buf flds c"
    and "as_date buf' flds c' tm = as_date buf flds c tm"
    and "as_time buf' flds c' tm usec = as_time buf flds c tm usec"
    and "as_datetime buf' flds c' tm usec = as_datetime buf flds c tm usec"
  using detach_frame [OF assms(2)] detach_conversions(2,3) [OF assms]
  by (simp_all add: as_datetime_string_def as_date_string_def as_time_string_def as_date_def as_time_def
      as_datetime_def with_cell_detach [OF assms] cong: if_cong)

lemma detach_time_point:
  assumes "wf_cell c" and "detach buf c = Some c'"
  shows "as_time_point buf' flds c' = as_time_point buf flds c"
  using detach_frame [OF assms(2)] detach_conversions(3) [OF assms] detach_times(6) [OF assms]
  by (simp add: as_time_point_def with_cell_detach [OF assms] cong: if_cong)

subsection \<open>Facts: reading what was printed\<close>

lemma read_digits_shift: "\<forall>c \<in> set ds. isdigit c \<Longrightarrow>
  fst (read_digits acc ds) = acc * 10 ^ length ds + fst (read_digits 0 ds)"
proof (induction ds arbitrary: acc)
  case (Cons c cs)
  then have digits: "\<forall>c \<in> set cs. isdigit c" "isdigit c" by simp_all
  show ?case
    using Cons.IH [OF digits(1), of "acc * 10 + digit_val c"] Cons.IH [OF digits(1), of "digit_val c"] digits(2)
    by (simp add: add_mult_distrib)
qed simp

lemma fraction_loop_digits:
  assumes "\<forall>c \<in> set ds. isdigit c" and "count + length ds = 6" and "no_digit rest"
  shows "fraction_loop count us (10 ^ length ds div 10) (ds @ rest) =
    (6, us + int (fst (read_digits 0 ds)), rest)"
  using assms
proof (induction ds arbitrary: count us)
  case Nil
  then show ?case by (cases rest) (simp_all add: no_digit_def)
next
  case (Cons c cs)
  have "(10 :: int) ^ length cs sdiv 10 = 10 ^ length cs div 10"
    by (simp add: signed_divide_int_def)
  with Cons show ?case
    using read_digits_shift [of cs "digit_val c"] by (simp add: add.assoc)
qed

lemma fraction_loop_micros:
  assumes "0 \<le> us" "us < 1000000" "no_digit rest"
  shows "fraction_loop 0 0 100000 (show_padded_int 6 us @ rest) = (6, us, rest)"
proof -
  have "length (show_padded 6 (nat us)) = 6" using assms by (intro length_show_padded) simp_all
  with fraction_loop_digits [OF show_padded_digits, of 0 6 "nat us" rest 0] assms show ?thesis
    by (simp add: show_padded_int_nonneg read_digits_padded)
qed

text \<open>The text of a time with its fraction and offset.\<close>

lemma as_datetime_text_printed:
  assumes "in_range_tm t"
  shows "as_datetime_text (strftime_date t @ '' '' @ strftime_time t) usec = (True, Some t, set_usec usec 0, None)"
    and "0 \<le> us \<Longrightarrow> us < 1000000 \<Longrightarrow>
      as_datetime_text (strftime_date t @ '' '' @ strftime_time t @ ''.'' @ show_padded_int 6 us) usec =
        (True, Some t, set_usec usec us, None)"
    and "0 \<le> us \<Longrightarrow> us < 1000000 \<Longrightarrow> no_digit z \<Longrightarrow> z \<noteq> [] \<Longrightarrow> parse_timezone_offset z = Some (off, []) \<Longrightarrow>
      as_datetime_text (strftime_date t @ '' '' @ strftime_time t @ ''.'' @ show_padded_int 6 us @ z) usec =
        (True, Some (if fst (timegm t) \<noteq> -1 then gmtime (fst (timegm t) - off) else snd (timegm t)),
         set_usec usec us, None)"
  using strptime_datetime [OF assms, of "[]"] strptime_datetime [OF assms]
    fraction_loop_micros [of us "[]"] fraction_loop_micros [of us z]
  by (simp_all add: as_datetime_text_def no_digit_def split_beta)

lemma padded_no_NUL: "0 \<le> v \<Longrightarrow> NUL \<notin> set (show_padded_int w v)"
  using show_padded_digits [of w "nat v"] isdigit_props by (auto simp: show_padded_int_nonneg)

lemma printed_no_NUL:
  assumes "in_range_tm t"
  shows "NUL \<notin> set (strftime_date t)" "NUL \<notin> set (strftime_time t)"
  using assms padded_no_NUL to_string_no_NUL
  by (simp_all add: strftime_date_def strftime_time_def in_range_tm_def)

lemma as_datetime_text_cell:
  "NUL \<notin> set s \<Longrightarrow> as_datetime s flds (text_cell s) (Some t) usec = Some (as_datetime_text s (set_usec usec 0))"
  by (simp add: as_datetime_def c_str_id)

lemma set_usec_simps [simp]: "set_usec (Some u) v = Some v" "set_usec (set_usec usec u) v = set_usec usec v"
  by (simp_all add: set_usec_def option.map_comp o_def)

subsection \<open>Facts: binary values\<close>

lemma signed_floor:
  fixes k m :: int
  assumes "0 < m"
  shows "(if k smod m < 0 then (k sdiv m - 1, k smod m + m) else (k sdiv m, k smod m)) = (k div m, k mod m)"
  using assms pos_mod_bound [OF assms, of k] pos_mod_sign [OF assms, of k]
  by (auto simp: signed_divide_int_eq_divide_int signed_modulo_int_eq_modulo_int)

lemma timestamp_split_floor: "timestamp_split v = (v div 1000000 + 946684800, v mod 1000000)"
  using signed_floor [of 1000000 v] by (auto simp: timestamp_split_def split: if_splits)

definition binary_bytes :: "bytes \<Rightarrow> pg_field list \<Rightarrow> pg_cell \<Rightarrow> bytes \<Rightarrow> bool" where
  "binary_bytes buf flds c d \<longleftrightarrow> cell_binary flds c = Some True \<and> \<not> cl_is_null c \<and> cell_bytes buf c = Some d"

lemma binary_bytesD:
  assumes "binary_bytes buf flds c d"
  shows "\<not> cl_is_null c" "with_cell buf flds c f = f True d" "cl_length c = length d"
  using assms cell_bytes_length [of buf c d] by (simp_all add: binary_bytes_def with_cell_Some)

lemma binary_bytes_int:
  shows "binary_bytes buf flds c (be_bytes 8 (unat (v :: i64))) \<Longrightarrow> as_bigint buf flds c = Some (v, None)"
    and "binary_bytes buf flds c (be_bytes 4 (unat (w :: i32))) \<Longrightarrow> as_int buf flds c = Some (scast w, None)"
  using as_int_binary [of flds c buf] by (simp_all add: binary_bytes_def)

lemma as_datetime_binary:
  assumes "binary_bytes buf flds c (be_bytes 8 (unat (v :: i64)))"
  shows "as_datetime buf flds c (Some t) usec =
    Some (True, Some (gmtime (sint v div 1000000 + 946684800)), set_usec usec (sint v mod 1000000), None)"
  by (simp add: as_datetime_def timestamp_split_floor binary_bytesD [OF assms] binary_bytes_int(1) [OF assms])

lemma as_datetime_string_binary:
  assumes "binary_bytes buf flds c (be_bytes 8 (unat (v :: i64)))"
    and "t = gmtime (sint v div 1000000 + 946684800)" and "us = sint v mod 1000000"
    and "-900 \<le> tm_year t" "tm_year t \<le> 8099"
  shows "as_datetime_string buf flds c =
    Some (strftime_date t @ '' '' @ strftime_time t @ (if us > 0 then ''.'' @ show_padded_int 6 us else []), None)"
  using assms(2-5) to_string_year [of "tm_year t + 1900"]
  by (simp add: as_datetime_string_def timestamp_split_floor strftime_date_def strftime_time_def
      show_padded_int_nonneg [of "_ + 1900"] binary_bytesD [OF assms(1)] binary_bytes_int(1) [OF assms(1)] Let_def)

lemma signed_nonneg:
  fixes k m :: int
  assumes "0 \<le> k" "0 < m"
  shows "k sdiv m = k div m" "k smod m = k mod m"
  using assms by (simp_all add: signed_divide_int_def signed_modulo_int_def sgn_if)

lemma signed_nonpos:
  fixes k m :: int
  assumes "k \<le> 0" "0 < m"
  shows "k sdiv m = - (- k div m)" "k smod m = - (- k mod m)"
  using assms by (cases "k = 0"; simp add: signed_divide_int_def signed_modulo_int_def sgn_if)+

lemma sint_narrow:
  assumes "- (2 ^ 31) \<le> k" "k < 2 ^ 31"
  shows "sint (word_of_int k :: i32) = k"
  using assms by (simp add: signed_of_int signed_take_bit_int_eq_self)

lemma as_date_binary:
  assumes "binary_bytes buf flds c (be_bytes 4 (unat (w :: i32)))"
  shows "as_date buf flds c (Some t) = Some (True, Some (gmtime (sint w * 86400 + 946684800)), None)"
proof -
  let ?t = "sint w * 86400 + 946684800"
  have "?t mod 86400 = 0" using mod_mult_self1 [of "946684800" "sint w" "86400 :: int"] by (simp add: add.commute)
  then have "(gmtime ?t)\<lparr>tm_hour := 0, tm_min := 0, tm_sec := 0\<rparr> = gmtime ?t"
    by (simp only: gmtime_def split_beta Let_def) simp
  moreover have "ucast (scast w :: i64) = w" by transfer (simp add: take_bit_signed_take_bit)
  ultimately show ?thesis
    by (simp add: as_date_def binary_bytesD [OF assms] binary_bytes_int(2) [OF assms] Let_def)
qed

lemma as_time_binary:
  assumes "binary_bytes buf flds c (be_bytes 8 (unat (v :: i64)))"
    and "0 \<le> sint v" "sint v < 86400000000"
  defines "s \<equiv> sint v div 1000000"
  shows "as_time buf flds c (Some t) usec =
    Some (True, Some (zero_tm\<lparr>tm_hour := s div 3600, tm_min := s mod 3600 div 60, tm_sec := s mod 60\<rparr>),
      set_usec usec (sint v mod 1000000), None)"
proof -
  have s: "0 \<le> s" "s < 86400" "sint v sdiv 1000000 = s" "sint v smod 1000000 = sint v mod 1000000"
    using assms(2,3) by (simp_all add: s_def signed_nonneg)
  have narrow: "sint (word_of_int s :: i32) = s"
    using s(1,2) by (intro sint_narrow) simp_all
  have parts: "s sdiv 3600 smod 24 = s div 3600" "s smod 3600 sdiv 60 = s mod 3600 div 60" "s smod 60 = s mod 60"
    using s(1,2) by (simp_all add: signed_nonneg)
  have "\<not> s div 3600 < 0" "\<not> s mod 3600 div 60 < 0" "\<not> s mod 60 < 0" "\<not> sint v mod 1000000 < 0"
    using s(1) by (simp_all add: not_less pos_imp_zdiv_nonneg_iff)
  then show ?thesis
    using s(1) by (simp add: as_time_def binary_bytesD [OF assms(1)] binary_bytes_int(1) [OF assms(1)] s(3,4) narrow
      parts Let_def)
qed

lemma smod_bounds:
  fixes k m :: int
  assumes "0 < m"
  shows "- m < k smod m" "k smod m < m"
proof -
  have "- m < k smod m \<and> k smod m < m"
  proof (cases "0 \<le> k")
    case True
    with assms pos_mod_bound [OF assms, of k] pos_mod_sign [OF assms, of k] show ?thesis
      by (simp add: signed_nonneg)
  next
    case False
    then have "k \<le> 0" by simp
    with assms pos_mod_bound [OF assms, of "- k"] pos_mod_sign [OF assms, of "- k"] show ?thesis
      by (simp add: signed_nonpos)
  qed
  then show "- m < k smod m" "k smod m < m" by simp_all
qed

lemma sdiv_bounds:
  fixes k m n :: int
  assumes "0 < m" "- (n * m) < k" "k < n * m"
  shows "- n < k sdiv m" "k sdiv m < n"
proof -
  have up: "a div m < n" if "a < n * m" for a
  proof (rule ccontr)
    assume "\<not> a div m < n"
    with assms(1) have "n * m \<le> a div m * m" by simp
    with that div_mult_mod_eq [of a m] pos_mod_sign [OF assms(1), of a] show False by linarith
  qed
  have "- n < k sdiv m \<and> k sdiv m < n"
  proof (cases "0 \<le> k")
    case True
    then have "0 \<le> k div m" using assms(1) by (simp add: pos_imp_zdiv_nonneg_iff)
    with True assms(1) up [OF assms(3)] show ?thesis by (simp add: signed_nonneg)
  next
    case False
    then have "0 \<le> - k div m" using assms(1) by (simp add: pos_imp_zdiv_nonneg_iff)
    with False assms(1,2) up [of "- k"] show ?thesis by (simp add: signed_nonpos)
  qed
  then show "- n < k sdiv m" "k sdiv m < n" by simp_all
qed

lemma wrap_range:
  fixes k m :: int
  assumes "- m < k" "k < m"
  shows "0 \<le> (if k < 0 then k + m else k)" "(if k < 0 then k + m else k) < m"
  using assms by auto

text \<open>
  Whatever the eight bytes are, \<open>as_time\<close> gives a time of day, unless borrowing a second for a
  negative fraction overflows \<open>total_secs\<close>.
\<close>

definition time_underflows :: "i64 \<Rightarrow> bool" where
  "time_underflows v \<longleftrightarrow> sint v smod 1000000 < 0 \<and> sint (word_of_int (sint v sdiv 1000000) :: i32) = - (2 ^ 31)"

definition time_of_day :: "tm \<Rightarrow> int \<Rightarrow> bool" where
  "time_of_day t us \<longleftrightarrow> 0 \<le> tm_hour t \<and> tm_hour t < 24 \<and> 0 \<le> tm_min t \<and> tm_min t < 60 \<and>
     0 \<le> tm_sec t \<and> tm_sec t < 60 \<and> 0 \<le> us \<and> us < 1000000"

lemma as_time_any:
  assumes "binary_bytes buf flds c (be_bytes 8 (unat (v :: i64)))"
  shows "if time_underflows v then as_time buf flds c (Some t0) (Some u) = None
    else \<exists>t us. as_time buf flds c (Some t0) (Some u) = Some (True, Some t, Some us, None) \<and> time_of_day t us"
proof -
  define wrap :: "int \<Rightarrow> int \<Rightarrow> int" where "wrap k m = (if k < 0 then k + m else k)" for k m
  define secs where "secs = sint (word_of_int (sint v sdiv 1000000) :: i32)"
  define ts where "ts = (if sint v smod 1000000 < 0 then secs - 1 else secs)"
  have "- (2 ^ 31) \<le> secs" unfolding secs_def using sint_greater_eq [where 'a = 32] by simp
  then have under: "ts < - (2 ^ 31) \<longleftrightarrow> time_underflows v"
    by (auto simp: ts_def time_underflows_def simp flip: secs_def)
  have run: "as_time buf flds c (Some t0) (Some u) = (if ts < - (2 ^ 31) then None
      else Some (True, Some (zero_tm\<lparr>tm_hour := wrap (ts sdiv 3600 smod 24) 24, tm_min := wrap (ts smod 3600 sdiv 60) 60,
          tm_sec := wrap (ts smod 60) 60\<rparr>), Some (wrap (sint v smod 1000000) 1000000), None))"
    unfolding as_time_def ts_def secs_def
    by (simp add: binary_bytesD [OF assms(1)] binary_bytes_int(1) [OF assms(1)] Let_def wrap_def)
  have "0 \<le> wrap k m" "wrap k m < m" if "- m < k" "k < m" for k m
    using wrap_range [OF that] by (simp_all add: wrap_def)
  moreover have "- 24 < ts sdiv 3600 smod 24" "ts sdiv 3600 smod 24 < 24" using smod_bounds [of 24] by simp_all
  moreover have "- 60 < ts smod 3600 sdiv 60" "ts smod 3600 sdiv 60 < 60"
    using sdiv_bounds [of 60 60 "ts smod 3600"] smod_bounds [of 3600 ts] by simp_all
  moreover have "- 60 < ts smod 60" "ts smod 60 < 60" using smod_bounds [of 60] by simp_all
  moreover have "- 1000000 < sint v smod 1000000" "sint v smod 1000000 < 1000000"
    using smod_bounds [of 1000000] by simp_all
  ultimately show ?thesis unfolding run under by (simp add: time_of_day_def)
qed

lemma as_date_string_binary:
  assumes "binary_bytes buf flds c (be_bytes 4 (unat (w :: i32)))"
    and "t = gmtime (sint w * 86400 + 946684800)" and "-900 \<le> tm_year t" "tm_year t \<le> 8099"
  shows "as_date_string buf flds c = Some (strftime_date t, None)"
proof -
  have "ucast (scast w :: i64) = w" by transfer (simp add: take_bit_signed_take_bit)
  with assms(2-4) to_string_year [of "tm_year t + 1900"] show ?thesis
    by (simp add: as_date_string_def strftime_date_def show_padded_int_nonneg [of "_ + 1900"]
        binary_bytesD [OF assms(1)] binary_bytes_int(2) [OF assms(1)] Let_def)
qed

lemma as_date_text_cell:
  assumes "in_range_tm t"
  shows "as_date (strftime_date t) flds (text_cell (strftime_date t)) (Some t0) =
    Some (True, Some (t\<lparr>tm_hour := 0, tm_min := 0, tm_sec := 0\<rparr>), None)"
proof -
  have "strptime ''%Y-%m-%d'' (strftime_date t) zero_tm =
      (Some [], zero_tm\<lparr>tm_year := tm_year t, tm_mon := tm_mon t, tm_mday := tm_mday t\<rparr>)"
    using strptime_date [OF assms, of "[]" "[]" zero_tm] by (simp only: append_Nil2 strptime.simps(1))
  moreover have "zero_tm\<lparr>tm_year := tm_year t, tm_mon := tm_mon t, tm_mday := tm_mday t\<rparr> =
      t\<lparr>tm_hour := 0, tm_min := 0, tm_sec := 0\<rparr>"
    by (simp add: zero_tm_def)
  ultimately show ?thesis
    using printed_no_NUL(1) [OF assms] by (simp add: as_date_def c_str_id del: strptime.simps)
qed

subsection \<open>Facts: offsets and time points\<close>

lemma two_digits_padded:
  assumes "0 \<le> v" "v < 100"
  shows "two_digits (show_padded_int 2 v @ rest) = Some (v, rest)"
proof -
  have small: "nat v div 10 < 10" "nat v mod 10 < 10" using assms by simp_all
  have "int (nat v div 10 * 10 + nat v mod 10) = v"
    using assms(1) by simp
  with assms show ?thesis
    by (simp add: two_digits_def show_padded_int_nonneg [OF assms(1)] show_padded_2 small [THEN isdigit_digit]
        small [THEN digit_val_digit] del: of_nat_add of_nat_mult)
qed

lemma parse_offset:
  assumes "0 \<le> h" "h < 100" "0 \<le> m" "m < 100" "sg = CHR ''+'' \<or> sg = CHR ''-''"
  defines "sign \<equiv> (if sg = CHR ''+'' then 1 else -1)"
  shows "parse_timezone_offset (sg # show_padded_int 2 h @ CHR '':'' # show_padded_int 2 m) = Some (sign * (h * 3600 + m * 60), [])"
    and "parse_timezone_offset (sg # show_padded_int 2 h) = Some (sign * (h * 3600), [])"
  using assms two_digits_padded [of h "CHR '':'' # show_padded_int 2 m"] two_digits_padded [of m "[]"]
    two_digits_padded [of h "[]"]
  by (auto simp: parse_timezone_offset_def) (simp_all add: two_digits_def)

lemma as_datetime_offset:
  assumes "in_range_tm t" "0 \<le> us" "us < 1000000" "sg = CHR ''+'' \<or> sg = CHR ''-''"
    and "parse_timezone_offset (sg # z) = Some (off, [])" "NUL \<notin> set z"
    and s: "s = strftime_date t @ '' '' @ strftime_time t @ ''.'' @ show_padded_int 6 us @ sg # z"
  shows "as_datetime s flds (text_cell s) (Some t0) usec =
      Some (True, Some (if fst (timegm t) \<noteq> -1 then gmtime (fst (timegm t) - off) else snd (timegm t)),
        set_usec usec us, None)"
proof -
  have "NUL \<notin> set s" using assms printed_no_NUL [OF assms(1)] padded_no_NUL [OF assms(2), of 6] by auto
  moreover have "no_digit (sg # z)" using assms(4) by (auto simp: no_digit_def isdigit_def)
  ultimately show ?thesis
    using as_datetime_text_printed(3) [OF assms(1-3) _ _ assms(5), of "set_usec usec 0"] s
    by (simp add: as_datetime_text_cell)
qed

text \<open>
  The texts of timestamps, as the server and other programs write them: no fraction or one of any
  number of digits, of which the first six count; no zone, \<open>Z\<close>, or hours, perhaps with
  minutes.
\<close>

datatype zone = No_Zone | Zulu | Zulu_Small | Hours bool int | Minutes bool int bool int

definition frac_text :: "bytes option \<Rightarrow> bytes" where
  "frac_text f = (case f of None \<Rightarrow> [] | Some ds \<Rightarrow> CHR ''.'' # ds)"

definition frac_micros :: "bytes option \<Rightarrow> int" where
  "frac_micros f = (case f of None \<Rightarrow> 0 | Some ds \<Rightarrow> int (fst (read_digits 0 (take 6 (ds @ ''000000'')))))"

definition sign_text :: "bool \<Rightarrow> char" where
  "sign_text east = (if east then CHR ''+'' else CHR ''-'')"

fun zone_text :: "zone \<Rightarrow> bytes" where
  "zone_text No_Zone = []"
| "zone_text Zulu = ''Z''"
| "zone_text Zulu_Small = ''z''"
| "zone_text (Hours east h) = sign_text east # show_padded_int 2 h"
| "zone_text (Minutes east h colon m) =
     sign_text east # show_padded_int 2 h @ (if colon then '':'' else []) @ show_padded_int 2 m"

fun zone_seconds :: "zone \<Rightarrow> int" where
  "zone_seconds (Hours east h) = (if east then 1 else -1) * (h * 3600)"
| "zone_seconds (Minutes east h colon m) = (if east then 1 else -1) * (h * 3600 + m * 60)"
| "zone_seconds _ = 0"

fun zone_ok :: "zone \<Rightarrow> bool" where
  "zone_ok (Hours east h) \<longleftrightarrow> 0 \<le> h \<and> h < 100"
| "zone_ok (Minutes east h colon m) \<longleftrightarrow> 0 \<le> h \<and> h < 100 \<and> 0 \<le> m \<and> m < 100"
| "zone_ok _ \<longleftrightarrow> True"

lemma zone_text_parsed:
  assumes "zone_ok z" and "z \<noteq> No_Zone"
  shows "parse_timezone_offset (zone_text z) = Some (zone_seconds z, [])"
proof (cases z)
  case (Hours east h)
  with assms parse_offset(2) [of h 0 "sign_text east"] show ?thesis by (cases east) (simp_all add: sign_text_def)
next
  case (Minutes east h colon m)
  then have range: "0 \<le> h" "h < 100" "0 \<le> m" "m < 100" using assms by simp_all
  have "length (show_padded_int 2 m) = 2" "\<forall>c \<in> set (show_padded_int 2 m). isdigit c"
    using range length_show_padded [of "nat m" 2] show_padded_digits by (auto simp: show_padded_int_nonneg)
  then have "show_padded_int 2 m \<noteq> [] \<and> isdigit (hd (show_padded_int 2 m))"
    by (cases "show_padded_int 2 m") simp_all
  moreover have "\<not> isdigit (CHR '':'')" by (simp add: isdigit_def)
  ultimately have "show_padded_int 2 m \<noteq> [] \<and> hd (show_padded_int 2 m) \<noteq> CHR '':''" by metis
  then have "parse_timezone_offset (sign_text east # show_padded_int 2 h @ show_padded_int 2 m) =
      Some ((if east then 1 else -1) * (h * 3600 + m * 60), [])"
    using two_digits_padded [OF range(1,2)] two_digits_padded [OF range(3,4), of "[]"]
    by (auto simp: parse_timezone_offset_def sign_text_def)
  with Minutes range parse_offset(1) [of h m "sign_text east"] show ?thesis
    by (cases east; cases colon) (simp_all add: sign_text_def)
qed (use assms in \<open>simp_all add: parse_timezone_offset_def\<close>)

lemma zone_text_no_digit: "no_digit (zone_text z)" "zone_text z = [] \<longleftrightarrow> z = No_Zone"
    "zone_text z \<noteq> [] \<Longrightarrow> hd (zone_text z) \<noteq> CHR ''.''"
  by (cases z; simp add: no_digit_def sign_text_def isdigit_def)+

lemma zone_text_no_NUL: "zone_ok z \<Longrightarrow> NUL \<notin> set (zone_text z)"
  using padded_no_NUL by (cases z) (auto simp: sign_text_def)

lemma fraction_loop_full:
  assumes "\<forall>c \<in> set ds. isdigit c" and "no_digit rest" and "6 \<le> count"
  shows "fraction_loop count us mult (ds @ rest) = (count + length ds, us, rest)"
  using assms
proof (induction ds arbitrary: count)
  case Nil
  then show ?case by (cases rest) (simp_all add: no_digit_def)
qed simp

lemma read_zeros: "fst (read_digits 0 (replicate n (CHR ''0''))) = 0"
  by (induction n) (simp_all add: isdigit_def digit_val_def)

lemma fraction_loop_any:
  assumes "\<forall>c \<in> set ds. isdigit c" and "no_digit rest"
  shows "k \<le> 6 \<Longrightarrow> fraction_loop (6 - k) us (10 ^ k div 10) (ds @ rest) =
    (6 - k + length ds, us + int (fst (read_digits 0 (take k (ds @ replicate k (CHR ''0''))))), rest)"
  using assms
proof (induction ds arbitrary: k us)
  case Nil
  then show ?case by (cases rest) (simp_all add: no_digit_def read_zeros)
next
  case (Cons c cs)
  show ?case
  proof (cases k)
    case 0
    with Cons.prems fraction_loop_full [of "c # cs" rest 6 us 0] show ?thesis by simp
  next
    case (Suc m)
    let ?ds = "take m (cs @ replicate m (CHR ''0''))"
    have digits: "\<forall>c \<in> set ?ds. isdigit c" "length ?ds = m"
      using Cons.prems by (auto simp: isdigit_def dest!: in_set_takeD)
    have "(10 :: int) ^ m sdiv 10 = 10 ^ m div 10" by (simp add: signed_divide_int_def)
    moreover have "Suc (6 - Suc m) = 6 - m" "5 - m < 6" "6 + length cs - m = Suc (5 + length cs - m)"
      using Suc Cons.prems(1) by simp_all
    moreover have "take m (cs @ replicate (Suc m) (CHR ''0'')) = ?ds"
      by (simp del: replicate.simps add: min_def)
    moreover have "fst (read_digits (digit_val c) ?ds) = digit_val c * 10 ^ m + fst (read_digits 0 ?ds)"
      using read_digits_shift [OF digits(1), of "digit_val c"] digits(2) by simp
    ultimately show ?thesis
      using Suc Cons.prems Cons.IH [of m "us + int (digit_val c) * 10 ^ m"] by (simp del: replicate.simps)
  qed
qed

definition digits_only :: "bytes option \<Rightarrow> bool" where
  "digits_only f \<longleftrightarrow> (case f of None \<Rightarrow> True | Some ds \<Rightarrow> \<forall>c \<in> set ds. isdigit c)"

lemma as_datetime_text_parts:
  assumes "strptime ''%Y-%m-%d %H:%M:%S'' s zero_tm = (Some e, t)"
    and "(if e \<noteq> [] \<and> hd e = CHR ''.'' then (case fraction_loop 0 0 100000 (tl e) of (count, us, rest) \<Rightarrow> (us, rest))
      else (0, e)) = (us, z)"
  shows "z = [] \<Longrightarrow> as_datetime_text s usec = (True, Some t, set_usec usec us, None)"
    and "z \<noteq> [] \<Longrightarrow> parse_timezone_offset z = Some (off, []) \<Longrightarrow> as_datetime_text s usec =
      (True, Some (if fst (timegm t) \<noteq> -1 then gmtime (fst (timegm t) - off) else snd (timegm t)), set_usec usec us, None)"
  unfolding as_datetime_text_def Let_def
  by (simp_all only: assms(1) assms(2) [unfolded split_beta] case_prod_conv option.case option.distinct if_False if_True simp_thms list.case split_beta fst_conv snd_conv)

lemma as_datetime_zone:
  assumes "in_range_tm t" and "digits_only f" and "zone_ok z"
    and s: "s = strftime_date t @ '' '' @ strftime_time t @ frac_text f @ zone_text z"
  shows "as_datetime s flds (text_cell s) (Some t0) (Some u) =
    Some (True, Some (if z = No_Zone then t else if fst (timegm t) = -1 then snd (timegm t)
      else gmtime (fst (timegm t) - zone_seconds z)), Some (frac_micros f), None)"
proof -
  have "NUL \<notin> set (frac_text f)" using assms(2) isdigit_props by (auto simp: digits_only_def frac_text_def split: option.splits)
  then have no_NUL: "NUL \<notin> set s" using s printed_no_NUL [OF assms(1)] zone_text_no_NUL [OF assms(3)] by simp
  have frac: "(if frac_text f @ zone_text z \<noteq> [] \<and> hd (frac_text f @ zone_text z) = CHR ''.''
      then case fraction_loop 0 0 100000 (tl (frac_text f @ zone_text z)) of (count, us, rest) \<Rightarrow> (us, rest)
      else (0, frac_text f @ zone_text z)) = (frac_micros f, zone_text z)"
  proof (cases f)
    case None
    then show ?thesis using zone_text_no_digit(3) [of z] by (auto simp: frac_text_def frac_micros_def)
  next
    case (Some ds)
    have "replicate 6 (CHR ''0'') = ''000000''" by code_simp
    with Some assms(2) fraction_loop_any [of ds "zone_text z" 6 0] zone_text_no_digit(1) show ?thesis
      by (simp add: frac_text_def frac_micros_def digits_only_def)
  qed
  have "as_datetime_text s (Some 0) = (True, Some (if z = No_Zone then t else if fst (timegm t) = -1 then snd (timegm t)
      else gmtime (fst (timegm t) - zone_seconds z)), Some (frac_micros f), None)"
    using as_datetime_text_parts [OF strptime_datetime [OF assms(1)] frac, where usec = "Some 0"]
      zone_text_parsed [OF assms(3)] zone_text_no_digit(2) [of z]
    unfolding s append_assoc by (cases "z = No_Zone") simp_all
  with no_NUL show ?thesis by (simp add: as_datetime_text_cell)
qed

text \<open>The time point one second before the epoch is taken for an error of \<open>timegm\<close>.\<close>

lemma div_mod_nested: "(n :: int) mod 1000000000 div 1000 = n div 1000 mod 1000000"
  using zmod_zmult2_eq [of 1000000 n 1000] by simp

lemma time_point_parts:
  fixes tp :: int
  defines "us \<equiv> tp sdiv 1000"
  shows "tp sdiv 1000000000 = us sdiv 1000000" and "tp smod 1000000000 sdiv 1000 = us smod 1000000"
proof -
  have nested: "0 \<le> n div 1000" "n div 1000000000 = n div 1000 div 1000000" if "0 \<le> n" for n :: int
    using that zdiv_zmult2_eq [of 1000000 n 1000] by (simp_all add: pos_imp_zdiv_nonneg_iff)
  have "tp sdiv 1000000000 = us sdiv 1000000 \<and> tp smod 1000000000 sdiv 1000 = us smod 1000000"
  proof (cases "0 \<le> tp")
    case True
    then show ?thesis
      using nested [OF True] by (simp add: us_def signed_nonneg div_mod_nested)
  next
    case False
    then have "0 \<le> - tp" "tp \<le> 0" by simp_all
    then show ?thesis
      using nested [OF \<open>0 \<le> - tp\<close>] by (simp add: us_def signed_nonpos signed_nonneg div_mod_nested)
  qed
  then show "tp sdiv 1000000000 = us sdiv 1000000" "tp smod 1000000000 sdiv 1000 = us smod 1000000"
    by simp_all
qed

lemma value_time_point_text:
  fixes tp :: int
  defines "us \<equiv> tp sdiv 1000"
  defines "t \<equiv> gmtime (us div 1000000)"
  shows "vl_data (value_time_point tp) =
    strftime_date t @ '' '' @ strftime_time t @ ''.'' @ show_padded_int 6 (us mod 1000000) @ ''+00''"
proof -
  have "value_time_point tp = (let (s, m) = (us div 1000000, us mod 1000000); t = gmtime s in
      typed_value (strftime_date t @ '' '' @ strftime_time t @ ''.'' @ show_padded_int 6 m @ ''+00'')
        (pg_oid T_TIMESTAMPTZ))"
    unfolding value_time_point_def Let_def minus_sdiv_mult_eq_smod
    unfolding time_point_parts us_def [symmetric]
    by (simp only: signed_floor)
  then show ?thesis by (simp add: typed_value_def t_def Let_def)
qed

lemma time_point_read_back:
  assumes "fits_int64 tp" and s: "s = vl_data (value_time_point tp)"
  defines "us \<equiv> tp sdiv 1000"
  shows "as_time_point s flds (text_cell s) =
    (if us div 1000000 = -1 then Some (0, Some EINVAL) else Some (us * 1000, None))"
proof -
  have us: "-9223372036854776 \<le> us" "us \<le> 9223372036854775"
    using assms(1) by (cases "0 \<le> tp"; simp add: us_def fits_int64_def signed_nonneg signed_nonpos)+
  have "us * 1000 = tp - tp smod 1000" by (simp add: us_def minus_smod_eq_sdiv_mult)
  then have ns: "fits_int64 (us * 1000)"
    using assms(1) by (cases "0 \<le> tp"; simp add: fits_int64_def signed_nonneg signed_nonpos; linarith?)
  from us have "in_range_tm (gmtime (us div 1000000))" by (intro gmtime_year_range) auto
  moreover have "show_padded_int 2 0 = ''00''" by code_simp
  then have "parse_timezone_offset ''+00'' = Some (0, [])" using parse_offset(2) [of 0 0 "CHR ''+''"] by simp
  moreover note value_time_point_text [of tp, folded us_def, folded s]
  ultimately have "as_datetime s flds (text_cell s) (Some zero_tm) (Some 0) =
      Some (True, Some (gmtime (us div 1000000)), Some (us mod 1000000), None)"
    using as_datetime_offset [of "gmtime (us div 1000000)" "us mod 1000000" "CHR ''+''" "''00''" 0 s flds zero_tm "Some 0"]
    by (simp add: timegm_gmtime)
  moreover have "us div 1000000 * 1000000 + us mod 1000000 = us" by simp
  moreover have "time_point_of_micros us = Some (us * 1000)"
    using us ns by (simp add: time_point_of_micros_def fits_int64_def)
  ultimately show ?thesis
    by (simp add: as_time_point_def timegm_gmtime)
qed

text \<open>A timestamp beyond the years of \<open>system_clock\<close>, such as the server's infinity, overflows.\<close>

lemma time_point_overflow:
  assumes "binary_bytes buf flds c (be_bytes 8 (unat (v :: i64)))"
    and "9223372036854776 \<le> sint v + 946684800000000"
  shows "as_time_point buf flds c = None"
  using assms(2) binary_bytesD [OF assms(1)]
  by (simp add: as_time_point_def binary_bytesD [OF assms(1)] binary_bytes_int(1) [OF assms(1)]
      time_point_of_micros_def fits_int64_def)

text \<open>A broken down time bound as a parameter, as a date, a time of day or a timestamp.\<close>

lemma length_printed:
  assumes "in_range_tm t"
  shows "length (strftime_date t) = 10" "length (strftime_time t) = 8"
proof -
  have two: "length (show_padded_int 2 v) = 2" if "0 \<le> v" "v < 100" for v
    using that length_show_padded [of "nat v" 2] by (simp add: show_padded_int_nonneg)
  have year: "length (to_string (tm_year t + 1900)) = 4"
    using assms length_show_padded [of "nat (tm_year t + 1900)" 4]
    by (simp add: to_string_year in_range_tm_def nat_less_iff)
  show "length (strftime_date t) = 10" "length (strftime_time t) = 8"
    using assms by (simp_all add: strftime_date_def strftime_time_def year two in_range_tm_def)
qed

lemma as_time_text_cell:
  assumes "in_range_tm t"
  shows "as_time (strftime_time t) flds (text_cell (strftime_time t)) (Some t0) (Some u) =
    Some (True, Some (zero_tm\<lparr>tm_hour := tm_hour t, tm_min := tm_min t, tm_sec := tm_sec t\<rparr>), Some 0, None)"
  using strptime_time [OF assms, of "[]" zero_tm] printed_no_NUL(2) [OF assms]
  by (simp add: as_time_def as_time_text_def c_str_id del: strptime.simps)

lemma value_tm_texts:
  assumes "in_range_tm t"
  shows "value_tm t (pg_oid T_DATE) = Some (typed_value (strftime_date t) (pg_oid T_DATE))"
    and "value_tm t (pg_oid T_TIME) = Some (typed_value (strftime_time t) (pg_oid T_TIME))"
    and "value_tm t (pg_oid T_TIMESTAMP) =
      Some (typed_value (strftime_date t @ '' '' @ strftime_time t) (pg_oid T_TIMESTAMP))"
  using length_printed [OF assms] by (simp_all add: value_tm_def Let_def)

lemma value_tm_read_back:
  assumes "in_range_tm t" and "value_tm t (pg_oid T_TIMESTAMP) = Some v"
  shows "as_datetime (vl_data v) flds (text_cell (vl_data v)) (Some t0) (Some u) = Some (True, Some t, Some 0, None)"
proof -
  have v: "vl_data v = strftime_date t @ '' '' @ strftime_time t"
    using value_tm_texts(3) [OF assms(1)] assms(2) by (auto simp: typed_value_def)
  have "NUL \<notin> set (strftime_date t @ '' '' @ strftime_time t)" using printed_no_NUL [OF assms(1)] by simp
  with as_datetime_text_printed(1) [OF assms(1), of "Some 0"] show ?thesis
    unfolding v by (simp only: as_datetime_text_cell set_usec_simps simp_thms)
qed

subsection \<open>Dates, binary and text\<close>

text \<open>
  A binary date is the day it counts: \<open>timegm\<close> of the result is its midnight, and the text
  \<open>as_date_string\<close> prints for it reads back as the same date.
\<close>

lemma dates_agree:
  assumes "binary_bytes buf flds c (be_bytes 4 (unat (w :: i32)))"
    and "as_date buf flds c (Some t0) = Some (True, Some t, e)"
    and "-900 \<le> tm_year t" and "tm_year t \<le> 8099"
  shows "timegm t = ((sint w + 10957) * 86400, t) \<and>
    (\<exists>s. as_date_string buf flds c = Some (s, None) \<and>
       as_date s flds' (text_cell s) (Some t0) = Some (True, Some t, None))"
proof -
  let ?e = "sint w * 86400 + 946684800"
  have t: "t = gmtime ?e" using assms(2) as_date_binary [OF assms(1)] by simp
  have "?e mod 86400 = 0" using mod_mult_self1 [of 946684800 "sint w" "86400 :: int"] by (simp add: add.commute)
  then have "t\<lparr>tm_hour := 0, tm_min := 0, tm_sec := 0\<rparr> = t"
    unfolding t by (simp only: gmtime_def split_beta Let_def) simp
  moreover note as_date_text_cell [OF in_range_gmtime [of ?e, folded t, OF assms(3,4)], of flds' t0]
  moreover note as_date_string_binary [OF assms(1) t assms(3,4)]
  ultimately show ?thesis using timegm_gmtime [of ?e, folded t] by simp
qed

end
