(* ===== verification/Tls_Context.thy ===== *)
theory Tls_Context
  imports Client "HOL-Library.Multiset"
begin

section \<open>Who frees what: SSL contexts, SSL objects and BIOs\<close>

text \<open>
  The OpenSSL objects the code allocates, and when it frees them: \<open>create_ssl\<close> and the
  destructor of \<open>PostgresConnection\<close>, the \<open>SSL_CTX\<close> a task or a \<open>WFPostgresConnection\<close> owns
  (\<open>owns_ssl_ctx_\<close>) or borrows, \<open>set_my_ssl_ctx\<close>, \<open>deinit\<close> and the destructors
  (src/factory/PostgresTaskImpl.cc, src/client/WFPostgresConnection.cc, include/WFPostgresConnection.h).
  The values these operations compute are those of Client and Task; here is what they do to the heap
  of OpenSSL.

  OpenSSL's memory is a parameter \<open>mem\<close>, with the documented behaviour the code relies on as the
  locale \<open>ssl_memory\<close>: \<open>SSL_CTX_new\<close> gives one reference, \<open>SSL_new\<close> takes one to its context,
  \<open>SSL_CTX_free\<close> and \<open>SSL_free\<close> give one back, and \<open>SSL_set_bio\<close> hands the two BIOs to the \<open>SSL\<close>, which
  are freed with it. A handshake, a read or a write uses the \<open>SSL\<close> and its BIOs. \<open>None\<close> is the use of an object that is gone. The locale is interpreted on
  a heap of reference counts.
\<close>

subsection \<open>OpenSSL's memory\<close>

text \<open>
  An \<open>SSL\<close> with what \<open>SSL_new\<close> and \<open>SSL_set_bio\<close> gave it; the global client context of the framework
  (\<open>None\<close>) is never freed.
\<close>

record ssl_object =
  so_ctx :: "nat option"
  so_rbio :: nat
  so_wbio :: nat

record 'h ssl_mem =
  sm_ctx_new :: "'h \<Rightarrow> nat \<times> 'h"
  sm_ctx_free :: "nat \<Rightarrow> 'h \<Rightarrow> 'h option"
  sm_bio_new :: "'h \<Rightarrow> nat \<times> 'h"
  sm_bio_free :: "nat \<Rightarrow> 'h \<Rightarrow> 'h option"
  sm_ssl_new :: "nat option \<Rightarrow> 'h \<Rightarrow> 'h option"
  sm_ssl_free :: "ssl_object \<Rightarrow> 'h \<Rightarrow> 'h option"
  sm_ssl_use :: "ssl_object \<Rightarrow> 'h \<Rightarrow> 'h option"

definition ctx_refs :: "nat option \<Rightarrow> nat multiset" where
  "ctx_refs ctx = (case ctx of None \<Rightarrow> {#} | Some i \<Rightarrow> {#i#})"

definition ssl_ctxs :: "ssl_object \<Rightarrow> nat multiset" where
  "ssl_ctxs s = ctx_refs (so_ctx s)"

definition ssl_bios :: "ssl_object \<Rightarrow> nat multiset" where
  "ssl_bios s = {#so_rbio s, so_wbio s#}"

text \<open>
  \<open>holds h M B\<close>: the references to contexts on the heap are those in \<open>M\<close>, the BIOs those in \<open>B\<close>.
\<close>

locale ssl_memory =
  fixes mem :: "'h ssl_mem"
    and holds :: "'h \<Rightarrow> nat multiset \<Rightarrow> nat multiset \<Rightarrow> bool"
  assumes ctx_new: "holds h M B \<Longrightarrow> sm_ctx_new mem h = (i, h') \<Longrightarrow> i \<notin># M \<and> holds h' (add_mset i M) B"
    and ctx_free: "holds h (add_mset i M) B \<Longrightarrow> \<exists>h'. sm_ctx_free mem i h = Some h' \<and> holds h' M B"
    and bio_new: "holds h M B \<Longrightarrow> sm_bio_new mem h = (b, h') \<Longrightarrow> b \<notin># B \<and> holds h' M (add_mset b B)"
    and bio_free: "holds h M (add_mset b B) \<Longrightarrow> \<exists>h'. sm_bio_free mem b h = Some h' \<and> holds h' M B"
    and ssl_new: "holds h M B \<Longrightarrow> ctx_refs ctx \<subseteq># M \<Longrightarrow>
      \<exists>h'. sm_ssl_new mem ctx h = Some h' \<and> holds h' (ctx_refs ctx + M) B"
    and ssl_new_gone: "holds h M B \<Longrightarrow> i \<notin># M \<Longrightarrow> sm_ssl_new mem (Some i) h = None"
    and ssl_free: "holds h (ssl_ctxs s + M) (ssl_bios s + B) \<Longrightarrow> \<exists>h'. sm_ssl_free mem s h = Some h' \<and> holds h' M B"
    and ssl_use: "holds h (ssl_ctxs s + M) (ssl_bios s + B) \<Longrightarrow>
      \<exists>h'. sm_ssl_use mem s h = Some h' \<and> holds h' (ssl_ctxs s + M) (ssl_bios s + B)"

subsection \<open>create\_ssl\<close>

text \<open>Which of the allocations succeed.\<close>

record ssl_outcome =
  new_rbio_ok :: bool
  new_wbio_ok :: bool
  new_ssl_ok :: bool

definition create_ssl :: "'h ssl_mem \<Rightarrow> ssl_outcome \<Rightarrow> nat option \<Rightarrow> 'h \<Rightarrow> (ssl_object option \<times> 'h) option" where
  "create_ssl mem out ctx h =
     (if new_rbio_ok out then
        let (rbio, h) = sm_bio_new mem h in
        if new_wbio_ok out then
          let (wbio, h) = sm_bio_new mem h in
          if new_ssl_ok out then
            map_option (\<lambda>h. (Some \<lparr>so_ctx = ctx, so_rbio = rbio, so_wbio = wbio\<rparr>, h)) (sm_ssl_new mem ctx h)
          else Option.bind (sm_bio_free mem wbio h) (\<lambda>h. map_option (Pair None) (sm_bio_free mem rbio h))
        else map_option (Pair None) (sm_bio_free mem rbio h)
      else Some (None, h))"

subsection \<open>Contexts of tasks and connections\<close>

text \<open>The address the next context gets.\<close>

definition at_heap :: "'h ssl_mem \<Rightarrow> 'h \<Rightarrow> ssl_env \<Rightarrow> ssl_env" where
  "at_heap mem h env = env\<lparr>ssl_fresh_id := fst (sm_ctx_new mem h)\<rparr>"

definition setup_ssl_ctx_heap ::
  "'h ssl_mem \<Rightarrow> ssl_env \<Rightarrow> parsed_uri \<Rightarrow> bytes str_map \<Rightarrow> bool \<Rightarrow> 'h \<Rightarrow> 'h option" where
  "setup_ssl_ctx_heap mem env uri query_map default_verify_none h =
     (let sslmode = map_find query_map ''sslmode'';
          verify_peer = (sslmode = Some ''verify-full'' \<or> sslmode = Some ''verify-ca'')
      in if verify_peer \<or> default_verify_none then
           (if \<not> ssl_ctx_new_ok env then Some h
            else let (ctx, h) = sm_ctx_new mem h in
              case map_find query_map ''sslrootcert'' of
                Some file \<Rightarrow>
                  if verify_peer \<and> \<not> ssl_load_verify_ok env file then sm_ctx_free mem ctx h else Some h
              | None \<Rightarrow> Some h)
         else Some h)"

definition init_success_heap :: "'h ssl_mem \<Rightarrow> workflow \<Rightarrow> ssl_env \<Rightarrow> pg_task \<Rightarrow> 'h \<Rightarrow> 'h option" where
  "init_success_heap mem wkf env tk h =
     (if \<not> scheme_valid (tk_uri tk) then Some h
      else let query_map = parse_query wkf (uri_query (tk_uri tk)) [] in
        if is_ssl_required (tk_uri tk) query_map \<and> tk_ssl_ctx tk = None
        then setup_ssl_ctx_heap mem env (tk_uri tk) query_map False h else Some h)"

definition set_my_ssl_ctx_heap :: "'h ssl_mem \<Rightarrow> ssl_ctx option \<Rightarrow> pg_task \<Rightarrow> 'h \<Rightarrow> 'h option" where
  "set_my_ssl_ctx_heap mem ctx tk h =
     (if tk_ssl_ctx tk = ctx then Some h
      else case tk_ssl_ctx tk of
             Some c \<Rightarrow> if tk_owns_ssl_ctx tk then sm_ctx_free mem (ctx_id c) h else Some h
           | None \<Rightarrow> Some h)"

definition task_destroy_heap :: "'h ssl_mem \<Rightarrow> pg_task \<Rightarrow> 'h \<Rightarrow> 'h option" where
  "task_destroy_heap mem tk h =
     (case tk_ssl_ctx tk of
        Some c \<Rightarrow> if tk_owns_ssl_ctx tk then sm_ctx_free mem (ctx_id c) h else Some h
      | None \<Rightarrow> Some h)"

definition connection_init_heap ::
  "'h ssl_mem \<Rightarrow> workflow \<Rightarrow> ssl_env \<Rightarrow> bytes \<Rightarrow> ssl_ctx option \<Rightarrow> 'h \<Rightarrow> 'h option" where
  "connection_init_heap mem wkf env url user_ctx h =
     (case wf_uri_parse wkf url of
        UriOk uri \<Rightarrow>
          let query_map = parse_query wkf (uri_query uri) [] in
          if user_ctx = None \<and> is_ssl_required uri query_map
          then setup_ssl_ctx_heap mem env uri query_map True h else Some h
      | _ \<Rightarrow> Some h)"

definition connection_deinit_heap :: "'h ssl_mem \<Rightarrow> pg_connection \<Rightarrow> 'h \<Rightarrow> 'h option" where
  "connection_deinit_heap mem cx h =
     (case cx_ssl_ctx cx of
        Some c \<Rightarrow> if cx_owns_ssl_ctx cx then sm_ctx_free mem (ctx_id c) h else Some h
      | None \<Rightarrow> Some h)"

definition conn_destroy_heap :: "'h ssl_mem \<Rightarrow> ssl_object option \<Rightarrow> 'h \<Rightarrow> 'h option" where
  "conn_destroy_heap mem ssl h = (case ssl of None \<Rightarrow> Some h | Some s \<Rightarrow> sm_ssl_free mem s h)"

subsection \<open>Ownership\<close>

definition owned :: "bool \<Rightarrow> ssl_ctx option \<Rightarrow> nat multiset" where
  "owned owns ctx = (case ctx of Some c \<Rightarrow> if owns then {#ctx_id c#} else {#} | None \<Rightarrow> {#})"

lemma owned_simps [simp]:
  "owned owns None = {#}" "owned False ctx = {#}" "owned True (Some c) = {#ctx_id c#}"
  by (simp_all add: owned_def split: option.split)

text \<open>What \<open>init\<close>, a task's set-up, a destructor and \<open>create_ssl\<close> do to the owners.\<close>

context ssl_memory
begin

text \<open>
  On failure the heap holds what it held before; on success the \<open>SSL\<close> owns two BIOs and a
  reference to its context.
\<close>

lemma create_ssl_owned:
  assumes "holds h M B" and "ctx_refs ctx \<subseteq># M"
  shows "\<exists>ssl h'. create_ssl mem out ctx h = Some (ssl, h') \<and>
    (case ssl of
       None \<Rightarrow> \<not> (new_rbio_ok out \<and> new_wbio_ok out \<and> new_ssl_ok out) \<and> holds h' M B
     | Some s \<Rightarrow> new_rbio_ok out \<and> new_wbio_ok out \<and> new_ssl_ok out \<and> so_ctx s = ctx \<and> so_rbio s \<noteq> so_wbio s \<and>
         holds h' (ssl_ctxs s + M) (ssl_bios s + B))"
proof -
  obtain r h1 where h1: "sm_bio_new mem h = (r, h1)" by (metis surj_pair)
  obtain w h2 where h2: "sm_bio_new mem h1 = (w, h2)" by (metis surj_pair)
  have ok1: "holds h1 M (add_mset r B)" using bio_new [OF assms(1) h1] by simp
  have ok2: "holds h2 M (add_mset w (add_mset r B))" and rw: "r \<noteq> w" using bio_new [OF ok1 h2] by auto
  obtain h3 where h3: "sm_ssl_new mem ctx h2 = Some h3" "holds h3 (ctx_refs ctx + M) (add_mset w (add_mset r B))"
    using ssl_new [OF ok2 assms(2)] by blast
  obtain h4 where h4: "sm_bio_free mem w h2 = Some h4" "holds h4 M (add_mset r B)"
    using bio_free [OF ok2] by blast
  obtain h5 where h5: "sm_bio_free mem r h4 = Some h5" "holds h5 M B" using bio_free [OF h4(2)] by blast
  obtain h6 where h6: "sm_bio_free mem r h1 = Some h6" "holds h6 M B" using bio_free [OF ok1] by blast
  show ?thesis
    using h1 h2 h3 h4 h5 h6 rw assms(1)
    by (cases "new_rbio_ok out"; cases "new_wbio_ok out"; cases "new_ssl_ok out")
      (simp_all add: create_ssl_def ssl_ctxs_def ssl_bios_def add_mset_commute)
qed

text \<open>A context that is set up is owned by whoever set it up; a failure leaves nothing behind.\<close>

lemma setup_owned:
  assumes "holds h M B" and "setup_ssl_ctx (at_heap mem h env) uri qm d (c, False) = (ok, (ctx, owns), err)"
  shows "\<exists>h'. setup_ssl_ctx_heap mem (at_heap mem h env) uri qm d h = Some h' \<and> holds h' (owned owns ctx + M) B \<and>
    (owns \<or> ctx = None \<or> ctx = c)"
proof -
  obtain i h1 where h1: "sm_ctx_new mem h = (i, h1)" by (metis surj_pair)
  have ok1: "holds h1 (add_mset i M) B" using ctx_new [OF assms(1) h1] by simp
  obtain h2 where "sm_ctx_free mem i h1 = Some h2" "holds h2 M B" using ctx_free [OF ok1] by blast
  with assms h1 ok1 show ?thesis
    by (auto simp: setup_ssl_ctx_def setup_ssl_ctx_heap_def at_heap_def new_ssl_ctx_def Let_def
        split: if_splits option.splits)
qed

lemma init_success_owned:
  assumes "holds h M B" and "init_success wkf (at_heap mem h env) (new_task uri) = (ok, tk)"
  shows "\<exists>h'. init_success_heap mem wkf (at_heap mem h env) (new_task uri) h = Some h' \<and>
    holds h' (owned (tk_owns_ssl_ctx tk) (tk_ssl_ctx tk) + M) B \<and> (tk_owns_ssl_ctx tk \<or> tk_ssl_ctx tk = None)"
proof -
  let ?qm = "parse_query wkf (uri_query uri) []" and ?env = "at_heap mem h env"
  obtain ok' ctx owns err where cfg: "setup_ssl_ctx ?env uri ?qm False (None, False) = (ok', (ctx, owns), err)"
    by (metis prod.collapse)
  from setup_owned [OF assms(1) cfg] obtain h' where
    "setup_ssl_ctx_heap mem ?env uri ?qm False h = Some h'" "holds h' (owned owns ctx + M) B" "owns \<or> ctx = None"
    by blast
  with assms cfg show ?thesis
    by (auto simp: init_success_def init_success_heap_def new_task_def set_failure_def Let_def
        split: if_splits prod.splits option.splits)
qed

lemma connection_init_owned:
  assumes "holds h M B" and "\<not> cx_owns_ssl_ctx cx"
    and "connection_init wkf (at_heap mem h env) url user_ctx cx = (ret, e, cx')"
  shows "\<exists>h'. connection_init_heap mem wkf (at_heap mem h env) url user_ctx h = Some h' \<and>
    holds h' (owned (cx_owns_ssl_ctx cx') (cx_ssl_ctx cx') + M) B \<and>
    (cx_owns_ssl_ctx cx' \<or> cx_ssl_ctx cx' = None \<or> cx_ssl_ctx cx' = cx_ssl_ctx cx \<or> cx_ssl_ctx cx' = user_ctx)"
proof (cases "wf_uri_parse wkf url")
  case (UriOk uri)
  let ?qm = "parse_query wkf (uri_query uri) []" and ?env = "at_heap mem h env"
  obtain ok' ctx owns err where cfg: "setup_ssl_ctx ?env uri ?qm True (cx_ssl_ctx cx, False) = (ok', (ctx, owns), err)"
    by (metis prod.collapse)
  from setup_owned [OF assms(1) cfg] obtain h' where
    "setup_ssl_ctx_heap mem ?env uri ?qm True h = Some h'" "holds h' (owned owns ctx + M) B"
    "owns \<or> ctx = None \<or> ctx = cx_ssl_ctx cx"
    by blast
  with assms cfg UriOk show ?thesis
    by (auto simp: connection_init_def connection_init_heap_def Let_def split: if_splits option.splits)
qed (use assms in \<open>auto simp: connection_init_def connection_init_heap_def\<close>)

lemma free_owned:
  assumes "holds h (owned owns (Some c) + M) B"
  shows "\<exists>h'. (if owns then sm_ctx_free mem (ctx_id c) h else Some h) = Some h' \<and> holds h' M B"
  using assms ctx_free by (cases owns) auto

lemma set_my_ssl_ctx_owned:
  assumes "holds h (owned (tk_owns_ssl_ctx tk) (tk_ssl_ctx tk) + M) B" and "tk_ssl_ctx tk \<noteq> ctx"
  shows "\<exists>h'. set_my_ssl_ctx_heap mem ctx tk h = Some h' \<and> holds h' M B"
  using assms free_owned [of h "tk_owns_ssl_ctx tk" _ M B]
  by (cases "tk_ssl_ctx tk") (auto simp: set_my_ssl_ctx_heap_def)

lemma task_destroy_owned:
  assumes "holds h (owned (tk_owns_ssl_ctx tk) (tk_ssl_ctx tk) + M) B"
  shows "\<exists>h'. task_destroy_heap mem tk h = Some h' \<and> holds h' M B"
  using assms free_owned [of h "tk_owns_ssl_ctx tk" _ M B]
  by (cases "tk_ssl_ctx tk") (auto simp: task_destroy_heap_def)

lemma connection_deinit_owned:
  assumes "holds h (owned (cx_owns_ssl_ctx cx) (cx_ssl_ctx cx) + M) B"
  shows "\<exists>h'. connection_deinit_heap mem cx h = Some h' \<and> holds h' M B"
  using assms free_owned [of h "cx_owns_ssl_ctx cx" _ M B]
  by (cases "cx_ssl_ctx cx") (auto simp: connection_deinit_heap_def)

text \<open>
  \<open>deinit\<close> under a task that borrows the context: the handshake of the task uses it after it is freed.
\<close>

lemma deinit_under_task:
  assumes "holds h (add_mset (ctx_id c) M) B" and "ctx_id c \<notin># M"
    and "cx_owns_ssl_ctx cx" and "cx_ssl_ctx cx = Some c"
    and "new_rbio_ok out" and "new_wbio_ok out" and "new_ssl_ok out"
    and "connection_deinit_heap mem cx h = Some h'"
  shows "create_ssl mem out (Some (ctx_id c)) h' = None"
proof -
  have ok: "holds h' M B" using assms ctx_free [OF assms(1)] by (auto simp: connection_deinit_heap_def)
  obtain r h1 where h1: "sm_bio_new mem h' = (r, h1)" by (metis surj_pair)
  obtain w h2 where h2: "sm_bio_new mem h1 = (w, h2)" by (metis surj_pair)
  have ok1: "holds h1 M (add_mset r B)" using bio_new [OF ok h1] by simp
  have "holds h2 M (add_mset w (add_mset r B))" using bio_new [OF ok1 h2] by simp
  from ssl_new_gone [OF this assms(2)] h1 h2 assms(5-7) show ?thesis by (simp add: create_ssl_def)
qed

end

text \<open>
  A second \<open>init\<close> forgets the context the connection owns: it is not freed, and nothing owns it
  any more.
\<close>

lemma second_init_leaks:
  assumes "wf_uri_parse wkf url = UriOk uri" and "cx_owns_ssl_ctx cx" and "cx_ssl_ctx cx = Some c"
    and "connection_init wkf env url (Some u) cx = (ret, e, cx')"
  shows "ret = 0" and "connection_init_heap mem wkf env url (Some u) h = Some h"
    and "connection_deinit_heap mem cx' h = Some h"
  using assms by (auto simp: connection_init_def connection_init_heap_def connection_deinit_heap_def Let_def)

subsection \<open>A heap of reference counts\<close>

record counted_heap =
  oh_next :: nat
  oh_refs :: "nat \<Rightarrow> nat"
  oh_bios :: "nat list"

definition empty_heap :: counted_heap where
  "empty_heap = \<lparr>oh_next = 0, oh_refs = (\<lambda>i. 0), oh_bios = []\<rparr>"

definition give_ref :: "nat option \<Rightarrow> counted_heap \<Rightarrow> counted_heap option" where
  "give_ref ctx h =
     (case ctx of
        None \<Rightarrow> Some h
      | Some i \<Rightarrow> if oh_refs h i = 0 then None else Some (h\<lparr>oh_refs := (oh_refs h)(i := oh_refs h i - 1)\<rparr>))"

definition take_ref :: "nat option \<Rightarrow> counted_heap \<Rightarrow> counted_heap option" where
  "take_ref ctx h =
     (case ctx of
        None \<Rightarrow> Some h
      | Some i \<Rightarrow> if oh_refs h i = 0 then None else Some (h\<lparr>oh_refs := (oh_refs h)(i := Suc (oh_refs h i))\<rparr>))"

definition drop_bio :: "nat \<Rightarrow> counted_heap \<Rightarrow> counted_heap option" where
  "drop_bio b h = (if b \<in> set (oh_bios h) then Some (h\<lparr>oh_bios := remove1 b (oh_bios h)\<rparr>) else None)"

definition counted_mem :: "counted_heap ssl_mem" where
  "counted_mem =
     \<lparr>sm_ctx_new = (\<lambda>h. (oh_next h, h\<lparr>oh_next := Suc (oh_next h), oh_refs := (oh_refs h)(oh_next h := 1)\<rparr>)),
      sm_ctx_free = (\<lambda>i. give_ref (Some i)),
      sm_bio_new = (\<lambda>h. (oh_next h, h\<lparr>oh_next := Suc (oh_next h), oh_bios := oh_next h # oh_bios h\<rparr>)),
      sm_bio_free = drop_bio,
      sm_ssl_new = take_ref,
      sm_ssl_free = (\<lambda>s h. Option.bind (drop_bio (so_rbio s) h) (\<lambda>h.
        Option.bind (drop_bio (so_wbio s) h) (give_ref (so_ctx s)))),
      sm_ssl_use = (\<lambda>s h. if so_rbio s \<in> set (oh_bios h) \<and> so_wbio s \<in> set (oh_bios h) \<and>
          (case so_ctx s of None \<Rightarrow> True | Some i \<Rightarrow> 0 < oh_refs h i) then Some h else None)\<rparr>"

definition counts :: "counted_heap \<Rightarrow> nat multiset \<Rightarrow> nat multiset \<Rightarrow> bool" where
  "counts h M B \<longleftrightarrow> (\<forall>i. oh_refs h i = count M i) \<and> mset (oh_bios h) = B \<and> (\<forall>i \<in># M + B. i < oh_next h)"

lemma counts_empty: "counts empty_heap {#} {#}"
  by (simp add: counts_def empty_heap_def)

lemma counts_fresh: "counts h M B \<Longrightarrow> oh_next h \<notin># M \<and> oh_next h \<notin># B"
  by (auto simp: counts_def)

lemma give_ref_counts: "counts h (ctx_refs ctx + M) B \<Longrightarrow> \<exists>h'. give_ref ctx h = Some h' \<and> counts h' M B"
  by (cases ctx) (auto simp: counts_def give_ref_def ctx_refs_def)

lemma take_ref_counts: "counts h M B \<Longrightarrow> ctx_refs ctx \<subseteq># M \<Longrightarrow> \<exists>h'. take_ref ctx h = Some h' \<and> counts h' (ctx_refs ctx + M) B"
  by (cases ctx) (auto simp: counts_def take_ref_def ctx_refs_def)

lemma drop_bio_counts: "counts h M (add_mset b B) \<Longrightarrow> \<exists>h'. drop_bio b h = Some h' \<and> counts h' M B"
  by (auto simp: counts_def drop_bio_def) (metis set_mset_mset union_single_eq_member)

lemma ssl_free_counts:
  assumes "counts h (ssl_ctxs s + M) (ssl_bios s + B)"
  shows "\<exists>h'. sm_ssl_free counted_mem s h = Some h' \<and> counts h' M B"
proof -
  obtain h1 where h1: "drop_bio (so_rbio s) h = Some h1" "counts h1 (ssl_ctxs s + M) (add_mset (so_wbio s) B)"
    using drop_bio_counts assms by (fastforce simp: ssl_bios_def)
  obtain h2 where h2: "drop_bio (so_wbio s) h1 = Some h2" "counts h2 (ssl_ctxs s + M) B"
    using drop_bio_counts [OF h1(2)] by blast
  from give_ref_counts [of h2 "so_ctx s" M B] h1 h2 show ?thesis
    by (simp add: counted_mem_def ssl_ctxs_def)
qed

lemma ssl_use_counts:
  assumes "counts h (ssl_ctxs s + M) (ssl_bios s + B)"
  shows "\<exists>h'. sm_ssl_use counted_mem s h = Some h' \<and> counts h' (ssl_ctxs s + M) (ssl_bios s + B)"
proof -
  have "set_mset (mset (oh_bios h)) = set_mset (ssl_bios s + B)" using assms by (simp add: counts_def)
  then have "so_rbio s \<in> set (oh_bios h)" "so_wbio s \<in> set (oh_bios h)" by (simp_all add: ssl_bios_def)
  moreover have "0 < oh_refs h i" if "so_ctx s = Some i" for i
    using assms that by (simp add: counts_def ssl_ctxs_def ctx_refs_def)
  ultimately show ?thesis using assms by (auto simp: counted_mem_def split: option.split)
qed

interpretation counted: ssl_memory counted_mem counts
proof
  show "i \<notin># M \<and> counts h' (add_mset i M) B" if "counts h M B" "sm_ctx_new counted_mem h = (i, h')" for h M B i h'
    using that counts_fresh [OF that(1)] by (auto simp: counted_mem_def counts_def less_Suc_eq not_in_iff)
  show "\<exists>h'. sm_ctx_free counted_mem i h = Some h' \<and> counts h' M B" if "counts h (add_mset i M) B" for h i M B
    using that give_ref_counts [of h "Some i" M B] by (simp add: counted_mem_def ctx_refs_def)
  show "b \<notin># B \<and> counts h' M (add_mset b B)" if "counts h M B" "sm_bio_new counted_mem h = (b, h')" for h M B b h'
    using that counts_fresh [OF that(1)] by (auto simp: counted_mem_def counts_def less_Suc_eq)
  show "\<exists>h'. sm_bio_free counted_mem b h = Some h' \<and> counts h' M B" if "counts h M (add_mset b B)" for h M b B
    using that drop_bio_counts by (simp add: counted_mem_def)
  show "\<exists>h'. sm_ssl_new counted_mem ctx h = Some h' \<and> counts h' (ctx_refs ctx + M) B" if "counts h M B" "ctx_refs ctx \<subseteq># M" for h M B ctx
    using that take_ref_counts by (simp add: counted_mem_def)
  show "sm_ssl_new counted_mem (Some i) h = None" if "counts h M B" "i \<notin># M" for h M B i
    using that by (simp add: counted_mem_def take_ref_def counts_def not_in_iff)
qed (rule ssl_free_counts, assumption, rule ssl_use_counts)

end
