(* ===== verification/Tls_Life.thy ===== *)
theory Tls_Life
  imports Tls_Context
begin

section \<open>The life of SSL contexts and connections\<close>

text \<open>
  The operations of Tls_Context in any order, over one \<open>WFPostgresConnection\<close>, its tasks, pooled
  tasks and physical connections. \<open>tls_ok\<close> is the invariant: everything on OpenSSL's heap has exactly
  one owner. It is kept by every operation the documentation allows (\<open>tls_exec_ok\<close>), for any
  memory that behaves as the locale \<open>ssl_memory\<close> says.
\<close>

subsection \<open>A connection object, its tasks and their connections\<close>

text \<open>
  Any interleaving of what the program does with the contexts: the user makes a context, calls
  \<open>init\<close> and \<open>deinit\<close>, creates the tasks of the connection object and pooled tasks; a task starts
  TLS on a physical connection (several times, when it is retried), does the handshake with its
  handshaker, sends and receives, and is destroyed; a physical connection is closed, whenever the
  pool likes. \<open>None\<close> is the use of an object that is gone.

  The handshaker of a task (\<open>ssl_handshaker_\<close>) is made once, for the \<open>SSL\<close> of the connection it is first
  asked for, and kept: this is the object the handshake works on. \<open>ts_shakers\<close> has it for each task.
\<close>

record 'h tls_state =
  ts_heap :: 'h
  ts_users :: "ssl_ctx list"
  ts_conn :: pg_connection
  ts_tasks :: "pg_task list"
  ts_ssls :: "ssl_object list"
  ts_shakers :: "ssl_object option list"

datatype conn_task = Query_task bytes | Params_task bytes "pg_parameter list" | Disconnect_task | Cancel_task

datatype tls_op =
    User_ctx
  | Init ssl_env bytes "nat option"
  | Deinit
  | Conn_task ssl_env conn_task
  | Pool_task ssl_env parsed_uri
  | Starttls nat char ssl_outcome
  | Handshake nat nat
  | Transfer nat
  | Finish nat
  | Close nat

text \<open>
  A connection that is not initialised has the empty URL. The task before and after \<open>set_ssl_ctx\<close>.
\<close>

definition conn_uri :: "pg_connection \<Rightarrow> parsed_uri" where
  "conn_uri cx = (case cx_uri cx of None \<Rightarrow> empty_uri | Some uri \<Rightarrow> uri)"

fun task_uri :: "pg_connection \<Rightarrow> conn_task \<Rightarrow> parsed_uri" where
  "task_uri cx Cancel_task =
     (conn_uri cx)\<lparr>uri_query := Some (case uri_query (conn_uri cx) of None \<Rightarrow> ''cancel=1'' | Some q \<Rightarrow> q @ ''&cancel=1'')\<rparr>"
| "task_uri cx _ = conn_uri cx"

fun conn_task_of :: "workflow \<Rightarrow> ssl_env \<Rightarrow> pg_connection \<Rightarrow> conn_task \<Rightarrow> pg_task" where
  "conn_task_of wkf env cx (Query_task q) = connection_query_task wkf env cx (conn_uri cx) q"
| "conn_task_of wkf env cx (Params_task q ps) = connection_params_task wkf env cx (conn_uri cx) q ps"
| "conn_task_of wkf env cx Disconnect_task = connection_disconnect_task wkf env cx (conn_uri cx)"
| "conn_task_of wkf env cx Cancel_task = connection_cancel_task wkf env cx (conn_uri cx)"

definition conn_task_heap :: "'h ssl_mem \<Rightarrow> workflow \<Rightarrow> ssl_env \<Rightarrow> pg_connection \<Rightarrow> conn_task \<Rightarrow> 'h \<Rightarrow> 'h option" where
  "conn_task_heap mem wkf env cx kind h =
     Option.bind (init_success_heap mem wkf env (new_task (task_uri cx kind)) h)
       (set_my_ssl_ctx_heap mem (cx_ssl_ctx cx) (create_postgres_task wkf env (task_uri cx kind)))"

definition starttls_heap ::
  "'h ssl_mem \<Rightarrow> ssl_outcome \<Rightarrow> pg_task \<Rightarrow> char \<Rightarrow> 'h \<Rightarrow> (ssl_object option \<times> 'h) option" where
  "starttls_heap mem out tk byte h =
     (if byte = CHR ''S'' then create_ssl mem out (map_option ctx_id (tk_ssl_ctx tk)) h else Some (None, h))"

definition handshake_ssl :: "ssl_object option \<Rightarrow> ssl_object \<Rightarrow> ssl_object" where
  "handshake_ssl handshaker ssl = (case handshaker of None \<Rightarrow> ssl | Some s \<Rightarrow> s)"

definition remove_nth :: "nat \<Rightarrow> 'a list \<Rightarrow> 'a list" where
  "remove_nth k xs = take k xs @ drop (Suc k) xs"

fun tls_exec :: "'h ssl_mem \<Rightarrow> workflow \<Rightarrow> tls_op \<Rightarrow> 'h tls_state \<Rightarrow> 'h tls_state option" where
  "tls_exec mem wkf User_ctx st =
     (case sm_ctx_new mem (ts_heap st) of (i, h) \<Rightarrow>
        Some (st\<lparr>ts_heap := h, ts_users := new_ssl_ctx i # ts_users st\<rparr>))"
| "tls_exec mem wkf (Init env url k) st =
     (let user_ctx = map_option ((!) (ts_users st)) k; env = at_heap mem (ts_heap st) env
      in map_option (\<lambda>h. st\<lparr>ts_heap := h, ts_conn := snd (snd (connection_init wkf env url user_ctx (ts_conn st)))\<rparr>)
           (connection_init_heap mem wkf env url user_ctx (ts_heap st)))"
| "tls_exec mem wkf Deinit st =
     map_option (\<lambda>h. st\<lparr>ts_heap := h, ts_conn := connection_deinit (ts_conn st)\<rparr>)
       (connection_deinit_heap mem (ts_conn st) (ts_heap st))"
| "tls_exec mem wkf (Conn_task env kind) st =
     (let env = at_heap mem (ts_heap st) env
      in map_option (\<lambda>h. st\<lparr>ts_heap := h, ts_tasks := conn_task_of wkf env (ts_conn st) kind # ts_tasks st,
             ts_shakers := None # ts_shakers st\<rparr>)
           (conn_task_heap mem wkf env (ts_conn st) kind (ts_heap st)))"
| "tls_exec mem wkf (Pool_task env uri) st =
     (let env = at_heap mem (ts_heap st) env
      in map_option (\<lambda>h. st\<lparr>ts_heap := h, ts_tasks := create_postgres_task wkf env uri # ts_tasks st,
             ts_shakers := None # ts_shakers st\<rparr>)
           (init_success_heap mem wkf env (new_task uri) (ts_heap st)))"
| "tls_exec mem wkf (Starttls k byte out) st =
     map_option (\<lambda>(ssl, h). st\<lparr>ts_heap := h,
         ts_ssls := (case ssl of None \<Rightarrow> ts_ssls st | Some s \<Rightarrow> s # ts_ssls st)\<rparr>)
       (starttls_heap mem out (ts_tasks st ! k) byte (ts_heap st))"
| "tls_exec mem wkf (Handshake k j) st =
     (let ssl = handshake_ssl (ts_shakers st ! k) (ts_ssls st ! j)
      in map_option (\<lambda>h. st\<lparr>ts_heap := h, ts_shakers := (ts_shakers st)[k := Some ssl]\<rparr>)
           (sm_ssl_use mem ssl (ts_heap st)))"
| "tls_exec mem wkf (Transfer j) st =
     map_option (\<lambda>h. st\<lparr>ts_heap := h\<rparr>) (sm_ssl_use mem (ts_ssls st ! j) (ts_heap st))"
| "tls_exec mem wkf (Finish k) st =
     map_option (\<lambda>h. st\<lparr>ts_heap := h, ts_tasks := remove_nth k (ts_tasks st), ts_shakers := remove_nth k (ts_shakers st)\<rparr>)
       (task_destroy_heap mem (ts_tasks st ! k) (ts_heap st))"
| "tls_exec mem wkf (Close k) st =
     map_option (\<lambda>h. st\<lparr>ts_heap := h, ts_ssls := remove_nth k (ts_ssls st)\<rparr>)
       (conn_destroy_heap mem (Some (ts_ssls st ! k)) (ts_heap st))"

text \<open>
  What the documentation asks of the user: a connection object lives until its tasks are complete,
  and here also that \<open>init\<close> is not called on one that owns a context. And what the code needs of the
  framework, which does not promise it: a task does not come back for a second handshake on another
  connection than its first (\<open>retried_handshake\<close> below is what happens then).
\<close>

definition borrows :: "pg_task \<Rightarrow> bool" where
  "borrows tk \<longleftrightarrow> \<not> tk_owns_ssl_ctx tk \<and> tk_ssl_ctx tk \<noteq> None"

fun allowed :: "tls_op \<Rightarrow> 'h tls_state \<Rightarrow> bool" where
  "allowed (Init env url k) st \<longleftrightarrow> \<not> cx_owns_ssl_ctx (ts_conn st) \<and> (case k of None \<Rightarrow> True | Some n \<Rightarrow> n < length (ts_users st))"
| "allowed Deinit st \<longleftrightarrow> (\<forall>tk \<in> set (ts_tasks st). \<not> borrows tk)"
| "allowed (Starttls k byte out) st \<longleftrightarrow> k < length (ts_tasks st)"
| "allowed (Handshake k j) st \<longleftrightarrow> k < length (ts_tasks st) \<and> j < length (ts_ssls st) \<and>
     (ts_shakers st ! k = None \<or> ts_shakers st ! k = Some (ts_ssls st ! j))"
| "allowed (Transfer j) st \<longleftrightarrow> j < length (ts_ssls st)"
| "allowed (Finish k) st \<longleftrightarrow> k < length (ts_tasks st)"
| "allowed (Close k) st \<longleftrightarrow> k < length (ts_ssls st)"
| "allowed op st \<longleftrightarrow> True"

fun tls_run :: "'h ssl_mem \<Rightarrow> workflow \<Rightarrow> tls_op list \<Rightarrow> 'h tls_state \<Rightarrow> 'h tls_state option" where
  "tls_run mem wkf [] st = Some st"
| "tls_run mem wkf (op # ops) st = Option.bind (tls_exec mem wkf op st) (tls_run mem wkf ops)"

text \<open>A sequence of operations the user may do, each allowed where it comes.\<close>

fun disciplined :: "'h ssl_mem \<Rightarrow> workflow \<Rightarrow> tls_op list \<Rightarrow> 'h tls_state \<Rightarrow> bool" where
  "disciplined mem wkf [] st = True"
| "disciplined mem wkf (op # ops) st \<longleftrightarrow> allowed op st \<and> (case tls_exec mem wkf op st of None \<Rightarrow> True | Some st' \<Rightarrow> disciplined mem wkf ops st')"

definition initial_state :: "'h \<Rightarrow> int \<Rightarrow> 'h tls_state" where
  "initial_state h n = \<lparr>ts_heap = h, ts_users = [], ts_conn = new_connection n, ts_tasks = [], ts_ssls = [],
     ts_shakers = []\<rparr>"

subsection \<open>The invariant\<close>

text \<open>
  Every reference to a context and every BIO on the heap has its one owner, and what is borrowed
  has a live owner: the user, or the connection object.
\<close>

definition conn_owns :: "pg_connection \<Rightarrow> nat multiset" where
  "conn_owns cx = owned (cx_owns_ssl_ctx cx) (cx_ssl_ctx cx)"

definition task_owns :: "pg_task \<Rightarrow> nat multiset" where
  "task_owns tk = owned (tk_owns_ssl_ctx tk) (tk_ssl_ctx tk)"

definition ctx_owners :: "'h tls_state \<Rightarrow> nat multiset" where
  "ctx_owners st = conn_owns (ts_conn st) + (\<Sum>tk\<in>#mset (ts_tasks st). task_owns tk) +
     (\<Sum>s\<in>#mset (ts_ssls st). ssl_ctxs s) + image_mset ctx_id (mset (ts_users st))"

definition bio_owners :: "'h tls_state \<Rightarrow> nat multiset" where
  "bio_owners st = (\<Sum>s\<in>#mset (ts_ssls st). ssl_bios s)"

definition lent :: "'h tls_state \<Rightarrow> ssl_ctx option \<Rightarrow> bool" where
  "lent st ctx \<longleftrightarrow> (\<forall>c. ctx = Some c \<longrightarrow> ctx_id c \<in># conn_owns (ts_conn st) + image_mset ctx_id (mset (ts_users st)))"

definition tls_ok :: "('h \<Rightarrow> nat multiset \<Rightarrow> nat multiset \<Rightarrow> bool) \<Rightarrow> 'h tls_state \<Rightarrow> bool" where
  "tls_ok holds st \<longleftrightarrow> holds (ts_heap st) (ctx_owners st) (bio_owners st) \<and>
     lent st (cx_ssl_ctx (ts_conn st)) \<and> length (ts_shakers st) = length (ts_tasks st) \<and>
     (\<forall>tk \<in> set (ts_tasks st). borrows tk \<longrightarrow> lent st (tk_ssl_ctx tk))"

lemma mset_remove_nth: "k < length xs \<Longrightarrow> mset xs = add_mset (xs ! k) (mset (remove_nth k xs))"
  using arg_cong [OF id_take_nth_drop [of k xs], of mset] by (simp add: remove_nth_def)

lemma set_remove_nth: "set (remove_nth k xs) \<subseteq> set xs"
  by (auto simp: remove_nth_def dest: in_set_takeD in_set_dropD)

lemma tls_ok_initial: "holds h {#} {#} \<Longrightarrow> tls_ok holds (initial_state h n)"
  by (simp add: initial_state_def tls_ok_def ctx_owners_def bio_owners_def conn_owns_def new_connection_def lent_def)

lemma create_task_ctx:
  "tk_ssl_ctx (create_postgres_task wkf env uri) = tk_ssl_ctx (snd (init_success wkf env (new_task uri)))"
  "tk_owns_ssl_ctx (create_postgres_task wkf env uri) = tk_owns_ssl_ctx (snd (init_success wkf env (new_task uri)))"
  by (simp_all add: create_postgres_task_def split: prod.split)

text \<open>All four kinds of task get their context the same way.\<close>

lemma conn_task_ctx:
  "tk_ssl_ctx (conn_task_of wkf env cx kind) = cx_ssl_ctx cx"
  "tk_owns_ssl_ctx (conn_task_of wkf env cx kind) \<longleftrightarrow>
     tk_owns_ssl_ctx (create_postgres_task wkf env (task_uri cx kind)) \<and>
     tk_ssl_ctx (create_postgres_task wkf env (task_uri cx kind)) = cx_ssl_ctx cx"
  by (cases kind; simp add: connection_query_task_def connection_params_task_def connection_disconnect_task_def
      connection_cancel_task_def create_disconnect_task_def create_cancel_task_def set_my_ssl_ctx_def Let_def)+

lemma owners_shakers:
  "ctx_owners (st\<lparr>ts_shakers := ss\<rparr>) = ctx_owners st" "bio_owners (st\<lparr>ts_shakers := ss\<rparr>) = bio_owners st"
  "lent (st\<lparr>ts_shakers := ss\<rparr>) = lent st"
  by (simp_all add: ctx_owners_def bio_owners_def lent_def fun_eq_iff)

lemma length_remove_nth: "k < length xs \<Longrightarrow> length (remove_nth k xs) = length xs - 1"
  by (simp add: remove_nth_def)

lemma owners_parts:
  "ctx_owners (st\<lparr>ts_heap := h\<rparr>) = ctx_owners st" "bio_owners (st\<lparr>ts_heap := h\<rparr>) = bio_owners st"
  "lent (st\<lparr>ts_heap := h\<rparr>) = lent st"
  "ctx_owners (st\<lparr>ts_heap := h, ts_tasks := tk # ts_tasks st\<rparr>) = task_owns tk + ctx_owners st"
  "bio_owners (st\<lparr>ts_heap := h, ts_tasks := tks\<rparr>) = bio_owners st"
  "lent (st\<lparr>ts_heap := h, ts_tasks := tks\<rparr>) = lent st"
  "ctx_owners (st\<lparr>ts_heap := h, ts_ssls := s # ts_ssls st\<rparr>) = ssl_ctxs s + ctx_owners st"
  "bio_owners (st\<lparr>ts_heap := h, ts_ssls := s # ts_ssls st\<rparr>) = ssl_bios s + bio_owners st"
  "lent (st\<lparr>ts_heap := h, ts_ssls := ss\<rparr>) = lent st"
  "bio_owners (st\<lparr>ts_heap := h, ts_conn := cx\<rparr>) = bio_owners st"
  by (simp_all add: ctx_owners_def bio_owners_def lent_def fun_eq_iff)

lemma owners_removed:
  assumes "k < length (ts_tasks st)"
  shows "ctx_owners st = task_owns (ts_tasks st ! k) + ctx_owners (st\<lparr>ts_heap := h, ts_tasks := remove_nth k (ts_tasks st)\<rparr>)"
  using mset_remove_nth [OF assms] by (simp add: ctx_owners_def)

lemma owners_closed:
  assumes "k < length (ts_ssls st)"
  shows "ctx_owners st = ssl_ctxs (ts_ssls st ! k) + ctx_owners (st\<lparr>ts_heap := h, ts_ssls := remove_nth k (ts_ssls st)\<rparr>)"
    and "bio_owners st = ssl_bios (ts_ssls st ! k) + bio_owners (st\<lparr>ts_heap := h, ts_ssls := remove_nth k (ts_ssls st)\<rparr>)"
  using mset_remove_nth [OF assms] by (simp_all add: ctx_owners_def bio_owners_def)

text \<open>The context a live task starts TLS with is there.\<close>

lemma task_ctx_live:
  assumes "tls_ok holds st" and "tk \<in> set (ts_tasks st)" and "tk_ssl_ctx tk = Some c"
  shows "ctx_id c \<in># ctx_owners st"
proof (cases "borrows tk")
  case True
  with assms show ?thesis by (auto simp: tls_ok_def lent_def ctx_owners_def)
next
  case False
  with assms(3) have "ctx_id c \<in># task_owns tk" by (simp add: borrows_def task_owns_def)
  with assms(2) show ?thesis by (auto simp: ctx_owners_def)
qed

subsection \<open>Every operation keeps it\<close>

context ssl_memory
begin

lemma create_task_owned:
  assumes "holds h M B" and "tk = create_postgres_task wkf (at_heap mem h env) uri"
  shows "\<exists>h'. init_success_heap mem wkf (at_heap mem h env) (new_task uri) h = Some h' \<and> holds h' (task_owns tk + M) B \<and>
    \<not> borrows tk"
  using init_success_owned [OF assms(1) prod.collapse [symmetric], of wkf env uri]
  by (auto simp: assms(2) create_task_ctx task_owns_def borrows_def)

lemma conn_task_owned:
  assumes "holds h M B" and "tk = conn_task_of wkf (at_heap mem h env) cx kind"
  shows "\<exists>h'. conn_task_heap mem wkf (at_heap mem h env) cx kind h = Some h' \<and> holds h' (task_owns tk + M) B"
proof -
  let ?env = "at_heap mem h env" and ?uri = "task_uri cx kind"
  let ?tk = "create_postgres_task wkf ?env ?uri"
  obtain h1 where h1: "init_success_heap mem wkf ?env (new_task ?uri) h = Some h1"
      "holds h1 (owned (tk_owns_ssl_ctx ?tk) (tk_ssl_ctx ?tk) + M) B"
    using create_task_owned [OF assms(1) refl] unfolding task_owns_def by blast
  show ?thesis
  proof (cases "tk_ssl_ctx ?tk = cx_ssl_ctx cx")
    case True
    with h1 show ?thesis
      by (simp add: conn_task_heap_def set_my_ssl_ctx_heap_def assms(2) task_owns_def conn_task_ctx)
  next
    case False
    from set_my_ssl_ctx_owned [OF h1(2) False] h1(1) False show ?thesis
      by (simp add: conn_task_heap_def assms(2) task_owns_def conn_task_ctx)
  qed
qed

lemma tls_user_ctx:
  assumes "tls_ok holds st"
  shows "\<exists>st'. tls_exec mem wkf User_ctx st = Some st' \<and> tls_ok holds st'"
proof -
  obtain i h where h: "sm_ctx_new mem (ts_heap st) = (i, h)" by (metis surj_pair)
  from assms have "holds (ts_heap st) (ctx_owners st) (bio_owners st)" by (simp add: tls_ok_def)
  from ctx_new [OF this h] have "holds h (add_mset i (ctx_owners st)) (bio_owners st)" by simp
  with assms h show ?thesis
    by (auto simp: tls_ok_def ctx_owners_def bio_owners_def lent_def new_ssl_ctx_def)
qed

lemma tls_init:
  assumes "tls_ok holds st" and "allowed (Init env url k) st"
  shows "\<exists>st'. tls_exec mem wkf (Init env url k) st = Some st' \<and> tls_ok holds st'"
proof -
  let ?user = "map_option ((!) (ts_users st)) k" and ?env = "at_heap mem (ts_heap st) env"
  obtain ret e cx' where cx': "connection_init wkf ?env url ?user (ts_conn st) = (ret, e, cx')" by (metis surj_pair)
  have ok: "holds (ts_heap st) (ctx_owners st) (bio_owners st)" and no: "\<not> cx_owns_ssl_ctx (ts_conn st)"
    using assms by (simp_all add: tls_ok_def)
  obtain h' where h': "connection_init_heap mem wkf ?env url ?user (ts_heap st) = Some h'"
      "holds h' (conn_owns cx' + ctx_owners st) (bio_owners st)"
      "cx_owns_ssl_ctx cx' \<or> cx_ssl_ctx cx' = None \<or> cx_ssl_ctx cx' = cx_ssl_ctx (ts_conn st) \<or> cx_ssl_ctx cx' = ?user"
    using connection_init_owned [OF ok no cx'] by (auto simp: conn_owns_def)
  let ?st' = "st\<lparr>ts_heap := h', ts_conn := cx'\<rparr>"
  have none: "conn_owns (ts_conn st) = {#}" using no by (simp add: conn_owns_def)
  have "ctx_owners ?st' = conn_owns cx' + ctx_owners st" by (simp add: ctx_owners_def none)
  moreover have keep: "lent ?st' ctx" if "lent st ctx" for ctx using that by (auto simp: lent_def none)
  moreover have "lent ?st' (cx_ssl_ctx cx')"
  proof (cases "cx_owns_ssl_ctx cx'")
    case True
    then show ?thesis by (cases "cx_ssl_ctx cx'") (auto simp: lent_def conn_owns_def)
  next
    case False
    have "lent ?st' ?user" using assms(2) by (auto simp: lent_def)
    moreover have "lent ?st' None" by (simp add: lent_def)
    ultimately show ?thesis using h'(3) False keep assms(1) by (metis tls_ok_def)
  qed
  ultimately have "tls_ok holds ?st'"
    using h'(2) assms(1) by (simp add: tls_ok_def owners_parts)
  with h'(1) cx' show ?thesis by (simp add: Let_def)
qed

lemma tls_deinit:
  assumes "tls_ok holds st" and "allowed Deinit st"
  shows "\<exists>st'. tls_exec mem wkf Deinit st = Some st' \<and> tls_ok holds st'"
proof -
  let ?cx = "connection_deinit (ts_conn st)"
  let ?M = "ctx_owners (st\<lparr>ts_conn := ?cx\<rparr>)"
  have none: "conn_owns ?cx = {#}"
    by (auto simp: connection_deinit_def conn_owns_def)
  have "ctx_owners st = conn_owns (ts_conn st) + ?M" by (simp add: ctx_owners_def none)
  then obtain h' where h': "connection_deinit_heap mem (ts_conn st) (ts_heap st) = Some h'" "holds h' ?M (bio_owners st)"
    using assms(1) connection_deinit_owned [of "ts_heap st" "ts_conn st" ?M "bio_owners st"]
    by (auto simp: tls_ok_def conn_owns_def)
  have "lent (st\<lparr>ts_heap := h', ts_conn := ?cx\<rparr>) (cx_ssl_ctx ?cx)"
    using assms(1) by (auto simp: tls_ok_def lent_def conn_owns_def connection_deinit_def)
  moreover have "ctx_owners (st\<lparr>ts_heap := h', ts_conn := ?cx\<rparr>) = ?M" by (simp add: ctx_owners_def)
  moreover have "length (ts_shakers st) = length (ts_tasks st)" using assms(1) by (simp add: tls_ok_def)
  ultimately show ?thesis using h' assms(2) by (simp add: tls_ok_def owners_parts)
qed

lemma tls_task:
  assumes "tls_ok holds st" and "holds h' (task_owns tk + ctx_owners st) (bio_owners st)"
    and "borrows tk \<Longrightarrow> lent st (tk_ssl_ctx tk)"
  shows "tls_ok holds (st\<lparr>ts_heap := h', ts_tasks := tk # ts_tasks st, ts_shakers := None # ts_shakers st\<rparr>)"
  using assms by (auto simp: tls_ok_def owners_parts owners_shakers)

lemma tls_conn_task:
  assumes "tls_ok holds st"
  shows "\<exists>st'. tls_exec mem wkf (Conn_task env kind) st = Some st' \<and> tls_ok holds st'"
proof -
  let ?env = "at_heap mem (ts_heap st) env"
  let ?tk = "conn_task_of wkf ?env (ts_conn st) kind"
  have ok: "holds (ts_heap st) (ctx_owners st) (bio_owners st)" and "lent st (cx_ssl_ctx (ts_conn st))"
    using assms by (simp_all add: tls_ok_def)
  then have "lent st (tk_ssl_ctx ?tk)" by (simp add: conn_task_ctx)
  moreover obtain h' where "conn_task_heap mem wkf ?env (ts_conn st) kind (ts_heap st) = Some h'"
      "holds h' (task_owns ?tk + ctx_owners st) (bio_owners st)"
    using conn_task_owned [OF ok refl] by blast
  ultimately show ?thesis using tls_task [OF assms] by (simp add: Let_def)
qed

lemma tls_pool_task:
  assumes "tls_ok holds st"
  shows "\<exists>st'. tls_exec mem wkf (Pool_task env uri) st = Some st' \<and> tls_ok holds st'"
proof -
  let ?env = "at_heap mem (ts_heap st) env"
  let ?tk = "create_postgres_task wkf ?env uri"
  have ok: "holds (ts_heap st) (ctx_owners st) (bio_owners st)" using assms by (simp add: tls_ok_def)
  obtain h' where h': "init_success_heap mem wkf ?env (new_task uri) (ts_heap st) = Some h'"
      "holds h' (task_owns ?tk + ctx_owners st) (bio_owners st)" "\<not> borrows ?tk"
    using create_task_owned [OF ok refl] by blast
  with tls_task [OF assms h'(2)] show ?thesis by (simp add: Let_def)
qed

lemma tls_starttls:
  assumes "tls_ok holds st" and "allowed (Starttls k byte out) st"
  shows "\<exists>st'. tls_exec mem wkf (Starttls k byte out) st = Some st' \<and> tls_ok holds st'"
proof -
  let ?tk = "ts_tasks st ! k"
  have ok: "holds (ts_heap st) (ctx_owners st) (bio_owners st)" using assms by (simp add: tls_ok_def)
  have "ctx_refs (map_option ctx_id (tk_ssl_ctx ?tk)) \<subseteq># ctx_owners st"
    using task_ctx_live [OF assms(1) nth_mem] assms(2) by (cases "tk_ssl_ctx ?tk") (auto simp: ctx_refs_def)
  from create_ssl_owned [OF ok this, of out] obtain ssl h' where
    h': "create_ssl mem out (map_option ctx_id (tk_ssl_ctx ?tk)) (ts_heap st) = Some (ssl, h')"
      "case ssl of None \<Rightarrow> holds h' (ctx_owners st) (bio_owners st)
       | Some s \<Rightarrow> holds h' (ssl_ctxs s + ctx_owners st) (ssl_bios s + bio_owners st)"
    by (force split: option.splits)
  with assms ok show ?thesis
    by (cases ssl; cases "byte = CHR ''S''") (auto simp: starttls_heap_def tls_ok_def owners_parts)
qed

lemma tls_finish:
  assumes "tls_ok holds st" and "allowed (Finish k) st"
  shows "\<exists>st'. tls_exec mem wkf (Finish k) st = Some st' \<and> tls_ok holds st'"
proof -
  let ?M = "ctx_owners (st\<lparr>ts_tasks := remove_nth k (ts_tasks st)\<rparr>)"
  have "ctx_owners st = task_owns (ts_tasks st ! k) + ?M"
    using owners_removed [of k st "ts_heap st"] assms(2) by simp
  then obtain h' where h': "task_destroy_heap mem (ts_tasks st ! k) (ts_heap st) = Some h'" "holds h' ?M (bio_owners st)"
    using assms(1) task_destroy_owned [of "ts_heap st" "ts_tasks st ! k" ?M "bio_owners st"]
    by (auto simp: tls_ok_def task_owns_def)
  have "ctx_owners (st\<lparr>ts_heap := h', ts_tasks := remove_nth k (ts_tasks st)\<rparr>) = ?M" by (simp add: ctx_owners_def)
  with h' assms set_remove_nth [of k "ts_tasks st"] show ?thesis
    by (auto simp: tls_ok_def owners_parts owners_shakers length_remove_nth)
qed

lemma tls_close:
  assumes "tls_ok holds st" and "allowed (Close k) st"
  shows "\<exists>st'. tls_exec mem wkf (Close k) st = Some st' \<and> tls_ok holds st'"
proof -
  let ?st = "st\<lparr>ts_heap := ts_heap st, ts_ssls := remove_nth k (ts_ssls st)\<rparr>"
  have "k < length (ts_ssls st)" using assms(2) by simp
  from owners_closed [OF this, of "ts_heap st"] ssl_free assms(1) obtain h' where
    h': "sm_ssl_free mem (ts_ssls st ! k) (ts_heap st) = Some h'" "holds h' (ctx_owners ?st) (bio_owners ?st)"
    by (metis tls_ok_def)
  have "ctx_owners (st\<lparr>ts_heap := h', ts_ssls := remove_nth k (ts_ssls st)\<rparr>) = ctx_owners ?st"
    "bio_owners (st\<lparr>ts_heap := h', ts_ssls := remove_nth k (ts_ssls st)\<rparr>) = bio_owners ?st"
    by (simp_all add: ctx_owners_def bio_owners_def)
  with h' assms(1) show ?thesis by (simp add: conn_destroy_heap_def tls_ok_def owners_parts)
qed

text \<open>An \<open>SSL\<close> is used only while its connection owns it.\<close>

lemma open_ssl_use:
  assumes "tls_ok holds st" and "j < length (ts_ssls st)"
  shows "\<exists>h'. sm_ssl_use mem (ts_ssls st ! j) (ts_heap st) = Some h' \<and> holds h' (ctx_owners st) (bio_owners st)"
  using ssl_use assms owners_closed [OF assms(2), of "ts_heap st"] by (metis tls_ok_def)

lemma tls_handshake:
  assumes "tls_ok holds st" and "allowed (Handshake k j) st"
  shows "\<exists>st'. tls_exec mem wkf (Handshake k j) st = Some st' \<and> tls_ok holds st'"
proof -
  have "handshake_ssl (ts_shakers st ! k) (ts_ssls st ! j) = ts_ssls st ! j"
    using assms(2) by (auto simp: handshake_ssl_def)
  with open_ssl_use [OF assms(1), of j] assms show ?thesis
    by (auto simp: tls_ok_def owners_parts owners_shakers)
qed

lemma tls_transfer:
  assumes "tls_ok holds st" and "allowed (Transfer j) st"
  shows "\<exists>st'. tls_exec mem wkf (Transfer j) st = Some st' \<and> tls_ok holds st'"
  using open_ssl_use [OF assms(1), of j] assms by (auto simp: tls_ok_def owners_parts)

lemma tls_exec_ok:
  assumes "tls_ok holds st" and "allowed op st"
  shows "\<exists>st'. tls_exec mem wkf op st = Some st' \<and> tls_ok holds st'"
  using assms
  by (cases op) (auto simp only: intro: tls_user_ctx tls_init tls_deinit tls_conn_task tls_pool_task tls_starttls
      tls_handshake tls_transfer tls_finish tls_close)

lemma tls_run_ok:
  assumes "tls_ok holds st" and "disciplined mem wkf ops st"
  shows "\<exists>st'. tls_run mem wkf ops st = Some st' \<and> tls_ok holds st'"
  using assms
proof (induction ops arbitrary: st)
  case (Cons op ops)
  then obtain st1 where st1: "tls_exec mem wkf op st = Some st1" "tls_ok holds st1"
    using tls_exec_ok by (metis disciplined.simps(2))
  with Cons show ?case by simp
qed simp

text \<open>When everything is destroyed, only the user's references are left.\<close>

lemma tls_ok_empty:
  assumes "tls_ok holds st" and "ts_tasks st = []" and "ts_ssls st = []"
  shows "\<exists>h. connection_deinit_heap mem (ts_conn st) (ts_heap st) = Some h \<and> holds h (mset (map ctx_id (ts_users st))) {#}"
proof -
  have "holds (ts_heap st) (owned (cx_owns_ssl_ctx (ts_conn st)) (cx_ssl_ctx (ts_conn st)) +
      mset (map ctx_id (ts_users st))) {#}"
    using assms by (simp add: tls_ok_def ctx_owners_def bio_owners_def conn_owns_def)
  from connection_deinit_owned [OF this] show ?thesis .
qed

end

text \<open>On the heap of reference counts: what the numbers are.\<close>

lemma bio_owners_size: "size (bio_owners st) = 2 * length (ts_ssls st)"
proof -
  have "size (\<Sum>s\<in>#mset ss. ssl_bios s) = 2 * length ss" for ss
    by (induction ss) (simp_all add: ssl_bios_def)
  then show ?thesis by (simp add: bio_owners_def)
qed

lemma counted_run:
  assumes "disciplined counted_mem wkf ops (initial_state empty_heap n)"
  shows "\<exists>st. tls_run counted_mem wkf ops (initial_state empty_heap n) = Some st \<and>
    (\<forall>i. oh_refs (ts_heap st) i = count (ctx_owners st) i) \<and> length (oh_bios (ts_heap st)) = 2 * length (ts_ssls st)"
proof -
  obtain st where st: "tls_run counted_mem wkf ops (initial_state empty_heap n) = Some st" "tls_ok counts st"
    using counted.tls_run_ok [OF tls_ok_initial [where holds = counts, OF counts_empty] assms] by blast
  have "length (oh_bios (ts_heap st)) = size (bio_owners st)"
    using st(2) by (metis counts_def size_mset tls_ok_def)
  with st show ?thesis by (auto simp: bio_owners_size tls_ok_def counts_def)
qed

subsection \<open>A retried handshake\<close>

text \<open>
  A retry gets a new connection with its own \<open>SSL\<close>, and the task still hands out the handshaker of the
  lost one, whose \<open>SSL\<close> and BIOs are freed.
\<close>

lemma create_ssl_counted:
  assumes "create_ssl counted_mem out ctx h = Some (Some s, h')"
  shows "so_rbio s = oh_next h" and "so_wbio s = Suc (oh_next h)" and "oh_next h' = Suc (Suc (oh_next h))"
    and "oh_bios h' = Suc (oh_next h) # oh_next h # oh_bios h"
  using assms
  by (auto simp: create_ssl_def counted_mem_def take_ref_def bind_eq_Some_conv Let_def split: if_splits option.splits)

lemma retried_handshake_dangling:
  assumes "counts h M B" and "create_ssl counted_mem out ctx h = Some (Some s1, h1)"
    and "sm_ssl_free counted_mem s1 h1 = Some h2" and "create_ssl counted_mem out2 ctx2 h2 = Some (Some s2, h3)"
  shows "so_rbio (handshake_ssl (Some (handshake_ssl None s1)) s2) \<notin> set (oh_bios h3)"
proof -
  have old: "\<forall>b \<in> set (oh_bios h). b < oh_next h" using assms(1) by (auto simp: counts_def)
  note s1 = create_ssl_counted [OF assms(2)]
  have "oh_bios h2 = oh_bios h" "oh_next h2 = oh_next h1"
    using assms(3) s1
    by (auto simp: counted_mem_def drop_bio_def give_ref_def bind_eq_Some_conv split: if_splits option.splits)
  with old s1 create_ssl_counted(4) [OF assms(4)] show ?thesis by (auto simp: handshake_ssl_def)
qed

text \<open>As operations of this theory: the task starts TLS again after its connection was closed.\<close>

lemma retried_handshake:
  assumes "tls_ok counts st" and "k < length (ts_tasks st)"
    and "tls_exec counted_mem wkf (Starttls k (CHR ''S'') out) st = Some st1" and "length (ts_ssls st1) = Suc (length (ts_ssls st))"
    and "ts_shakers st ! k = None" and "tls_exec counted_mem wkf (Handshake k 0) st1 = Some st2"
    and "tls_exec counted_mem wkf (Close 0) st2 = Some st3"
    and "tls_exec counted_mem wkf (Starttls k (CHR ''S'') out') st3 = Some st4" and "length (ts_ssls st4) = length (ts_ssls st1)"
  shows "tls_exec counted_mem wkf (Handshake k 0) st4 = None"
proof -
  let ?ctx = "map_option ctx_id (tk_ssl_ctx (ts_tasks st ! k))"
  obtain s1 h1 where s1: "create_ssl counted_mem out ?ctx (ts_heap st) = Some (Some s1, h1)"
      "st1 = st\<lparr>ts_heap := h1, ts_ssls := s1 # ts_ssls st\<rparr>"
    using assms(3,4) by (auto simp: starttls_heap_def split: option.splits)
  have st2: "st2 = st1\<lparr>ts_shakers := (ts_shakers st)[k := Some s1]\<rparr>"
    using assms(5,6) s1(2) by (auto simp: handshake_ssl_def counted_mem_def split: if_splits option.splits)
  obtain h2 where h2: "sm_ssl_free counted_mem s1 h1 = Some h2"
      "st3 = st2\<lparr>ts_heap := h2, ts_ssls := ts_ssls st\<rparr>"
    using assms(7) st2 s1(2) by (auto simp: conn_destroy_heap_def remove_nth_def)
  obtain s2 h3 where s2: "create_ssl counted_mem out' ?ctx h2 = Some (Some s2, h3)"
      "st4 = st3\<lparr>ts_heap := h3, ts_ssls := s2 # ts_ssls st\<rparr>"
    using assms(8,9) h2(2) st2 s1(2) by (auto simp: starttls_heap_def split: option.splits)
  have "so_rbio s1 \<notin> set (oh_bios h3)"
    using retried_handshake_dangling [OF _ s1(1) h2(1) s2(1)] assms(1) by (auto simp: tls_ok_def handshake_ssl_def)
  moreover have "k < length (ts_shakers st)" using assms(1,2) by (simp add: tls_ok_def)
  ultimately show ?thesis
    using s2(2) h2(2) st2 by (simp add: handshake_ssl_def counted_mem_def)
qed

end
