(* ===== verification/Spec2Isabelle.thy ===== *)
theory Spec2Isabelle
  imports Retry Copy_Session Connection_Run Same_Connection Transaction_Tutorial Query_Cli Tls_Life Datetime
begin

text \<open>
  A model of wfpg, an asynchronous PostgreSQL client in C++ on the Sogou Workflow framework. The
  sources are under src/: the protocol in src/protocol, the authentication in src/auth, the task
  state machine in src/factory, the connection object in src/client, the public types in include,
  two example programs in tutorial.

  \<^bold>\<open>The program.\<close> A task (\<open>ComplexPostgresTask\<close>) owns a request and a response. The framework asks
  it for the next message to send (\<open>message_out\<close>) and to receive (\<open>message_in\<close>), reports the outcome
  (\<open>handle\<close>), and asks whether the task is over (\<open>finish_once\<close>); on a new physical connection the
  task thus goes through the SSLRequest, the TLS handshake and the startup message before its own
  request. A request encodes itself; a response is fed the chunks that arrive (\<open>append\<close>), cuts them
  into frames, acts on some messages (errors, parameters, authentication, COPY, ReadyForQuery) and
  keeps the bytes. A cursor then walks over these bytes again and hands out rows of cells, which
  point into the buffer; the conversions of the cells read them. \<open>WFPostgresConnection\<close> makes tasks
  that all use the same physical connection.

  \<^bold>\<open>The theories\<close>, in the order they build on each other:
  \<^item> Prelude: bytes, machine integers, the locale \<open>std_map\<close> of the ordered string map and its
    interpretation on sorted association lists. Wire_Util: PostgresWireUtil.h. Pg_Types:
    PostgresTypes.h and WFPostgresError.h. C_Stdlib, C_Time: what the code uses of the C and C++
    libraries, numbers and the calendar.
  \<^item> Stream: PostgresStream, above all \<open>next_frame\<close> with its 32-bit length arithmetic. Frame_Loop:
    the locale \<open>frame_loop\<close> of all loops of the code that read frame after frame, with their meaning
    as a fold over the list of frames; it is interpreted in Response (\<open>append\<close>, the two COPY scans)
    and in Cursor (metadata, row fetching, finishing and seeking a result set). Parser: the decoders
    of the backend messages.
  \<^item> Scram, Auth, Response: ScramAuth, PostgresAuth and PostgresResponse. Request: PostgresRequest.
  \<^item> Cell, Cursor: \<open>PostgresCell\<close>, \<open>PostgresResultCursor\<close> and the command tags. Value:
    PostgresValue.h. Datetime: the conversions of cells to dates and times.
  \<^item> Uri_Config, Task: \<open>init_success\<close> with its helpers, and \<open>ComplexPostgresTask\<close>. Session: the
    framework's side as the step relation \<open>task_step\<close>, the reachable states and their invariant.
    Session_Run: runs from a new connection to the request. Same_Connection: the runs of one connection
    object with its physical connections counted, and which of them a request uses. Client: the factories,
    \<open>WFPostgresConnection\<close> and PostgresStatus.h. Exchange: several requests over one connection,
    with the server's answers as bytes, and what follows a failed transaction.
  \<^item> Connection_Run: task after task of a connection object, whether it is answered, refused or broken off,
    as a refinement of an abstract connection with two states (\<open>session_step\<close>). Copy_Session: COPY FROM
    STDIN over its two tasks. Retry: a task the framework runs again after a transport failure.
    Transaction_Tutorial, Query_Cli: the example programs, the first over the abstract connection.
  \<^item> Tls_Context, Tls_Life: who allocates and frees SSL contexts, SSL objects and BIOs (\<open>create_ssl\<close>,
    destructors, \<open>init\<close> and \<open>deinit\<close>) and who uses them (handshakes, reads and writes), over the locale
    \<open>ssl_memory\<close> of OpenSSL's memory, which is interpreted on a heap of reference counts; and any
    interleaving of these operations.

  \<^bold>\<open>The model.\<close> Definitions have the names of the code; a class is a record with a prefix for its
  fields (\<open>rs_\<close> for the response, \<open>rq_\<close> request, \<open>cu_\<close> cursor, \<open>cl_\<close> cell, \<open>tk_\<close> task, \<open>cn_\<close> physical
  connection, \<open>cx_\<close> \<open>WFPostgresConnection\<close>, \<open>sc_\<close> SCRAM, \<open>w_\<close> the objects a task works on). A method
  takes and returns the state. A pointer into a buffer is an offset; \<open>None\<close> as the result of an
  operation means undefined behaviour (a read outside the memory, a signed overflow, a null pointer)
  or that it does not return. Loops over frames are partial functions; that they return is proved
  (C3, C9 to C11) for every input in which no length field is 0xFFFFFFFF where a frame begins
  (\<open>no_wrap\<close>), and C4 says what such a field does. No fuel is used; \<open>read_sets\<close> reads as
  many result sets as it is asked for.

  \<^bold>\<open>Parameters.\<close> \<open>openssl\<close>: digests, PBKDF2, base64 and random bytes, with the contract
  \<open>openssl_ok\<close>, which \<open>demo_openssl\<close> meets. \<open>workflow\<close>: URL parsing, query splitting and percent
  decoding, with \<open>finds_transaction\<close>, which \<open>demo_workflow\<close> meets. \<open>ssl_env\<close>: whether the TLS set-up
  succeeds. \<open>ssl_mem\<close>: OpenSSL's memory, with the contract \<open>ssl_memory\<close>, which \<open>counted_mem\<close> meets. \<open>strtod\<close>,
  \<open>strtof\<close> and the printing of floating point numbers.

  \<^bold>\<open>The properties.\<close> C1 to C4 and C7: \<open>append\<close> is independent of the chunks, refines the message level
  specification \<open>receive_msgs\<close>, returns, and stays in step through errors. C5 and C6: a session of several
  requests shows every task its own answer, and a connection object implements the abstract
  connection through failures, refusals and disconnects. C8 to C14: what the
  server sent is what the cursor reads and the command line tutorial prints; no read leaves the buffer
  whatever the bytes are; owned rows outlive the buffer. C15 to C23: invariants of every reachable state
  (authentication and TLS before requests, a transaction stays on its connection, the protocol state
  admits the request), refusals, retries, and that a request gets through. C24 to C26: SCRAM against
  the RFC 5802 server. C27 to C30: the server decodes from the request what was bound, from the startup
  message what the URL asks for, and COPY in both directions. C31 to C34: connection objects, the transaction tutorial, TLS verification, and the
  life of the OpenSSL objects. C35 and C36: arrays. C37 to C40: times, binary and text alike. C4, C20,
  C21, C22, C32, C37, C39 and C40 describe faults of the code or of the tutorial, as do
  \<open>as_array_negative_ndim\<close> (Cell), \<open>as_int_binary\<close> (Cell, two-byte integers),
  \<open>connection_info_collision\<close> (Client), \<open>time_point_overflow\<close> (Datetime), \<open>second_init_leaks\<close>
  (Tls_Context), \<open>retried_handshake\<close> (Tls_Life, which C34 excludes), \<open>pooled_copy_poisons\<close> (Copy_Session) and
  \<open>cli_callback_copy_out\<close> (Query_Cli). Theorems of the library that are no property of their own here:
  \<open>fetch_row_maps_agree\<close>, \<open>insert_tag_parts\<close> and \<open>count_tag_parts\<close> (Cursor), \<open>as_string_array_enc\<close> (Cell),
  \<open>read_int64_value\<close> and its like (Value), \<open>failed_transaction\<close> (Exchange).

  \<^bold>\<open>Not modelled.\<close> The framework itself (sockets, timers, the connection pool, threads): Session
  allows any outcome it may report, and a reply of the server may be any response, so the
  invariants hold for more runs than there are. The TLS protocol inside OpenSSL.
  \<open>check_request\<close>, which does nothing. The helper functions at
  the head of WFPostgresConnection.cc repeat those of PostgresTaskImpl.cc and are modelled once.
  The heap memory of the task's own objects (requests, responses and wrappers, each deleted by its
  one owner), and memory allocation failure outside OpenSSL. The day of the week and of the year of
  \<open>struct tm\<close>. The tests. The wait groups of the tutorials, which hold \<open>main\<close> until the last callback.

  \<^bold>\<open>Further work.\<close> Sessions over TLS connections (C22 and \<open>retried_handshake\<close> say why the code
  does not carry one), and several connection objects sharing the pool.
\<close>

section \<open>Receiving a response\<close>

text \<open>C1: however the network cuts the server's stream (one in which no length field is 0xFFFFFFFF where a
  frame begins) into chunks, feeding the chunks one by one
  until the response is finished gives the same result as one append of the whole stream.\<close>

theorem append_chunk_independent:
  assumes "response_idle r" and "no_wrap (rs_buf r @ concat cs) (rs_cursor r)"
  shows "append_chunks ossl r n cs =
    map_option (\<lambda>(ret, k, r'). (ret, n + k, r')) (response_append ossl r (concat cs))"
  using assms(2,1) by (rule append_chunks_concat)

theorem append_chunk_independent_witness:
  "append_chunks demo_openssl new_response 0 [[CHR ''Z'', NUL, NUL], [NUL, CHR 0x05, CHR ''I'']] =
   map_option (\<lambda>(ret, k, r'). (ret, 0 + k, r'))
     (response_append demo_openssl new_response [CHR ''Z'', NUL, NUL, NUL, CHR 0x05, CHR ''I''])"
proof -
  have "no_wrap (rs_buf new_response @ concat [[CHR ''Z'', NUL, NUL], [NUL, CHR 0x05, CHR ''I'']])
      (rs_cursor new_response)"
    by code_simp
  from append_chunk_independent [OF idle_new_response this, of demo_openssl 0] show ?thesis by simp
qed

text \<open>C2: on the encoding of a sequence of protocol messages, \<open>append\<close> does what the message level
  specification \<open>receive_msgs\<close> says: the effect of each message in order up to the one that ends
  the response, exactly whose bytes are used; a rest behind it is left for the next response.\<close>

theorem append_refines_messages:
  assumes "small_msgs ms" and "rs_cursor r = length (rs_buf r)"
    and "receive_msgs ossl r ms = (r', fin, k)" and "fin \<or> rest = []"
  shows "response_append ossl r (encode_msgs ms @ rest) =
    Some (if fin then 1 else 0, of_nat k,
          at_pos (rs_buf r @ take k (encode_msgs ms)) (length (rs_buf r) + k) r')"
  using assms by (rule response_append_receive)

definition demo_reply :: "message list" where
  "demo_reply = [(CHR ''S'', ''a'' @ [NUL] @ ''b'' @ [NUL]), (CHR ''Z'', ''T'')]"

theorem append_refines_messages_witness:
  "response_append demo_openssl new_response (encode_msgs demo_reply @ ''rest'') =
     Some (1, 15, new_response\<lparr>rs_buf := encode_msgs demo_reply, rs_cursor := 15,
       rs_parameters := [(''a'', ''b'')], rs_transaction_state := CHR ''T'', rs_ready_for_query := True\<rparr>)"
proof -
  have small: "small_msgs demo_reply" by (simp add: small_msgs_def demo_reply_def)
  have rec: "receive_msgs demo_openssl new_response demo_reply =
      (new_response\<lparr>rs_parameters := [(''a'', ''b'')], rs_transaction_state := CHR ''T'',
         rs_ready_for_query := True\<rparr>, True, 15)"
    by code_simp
  have len: "length (encode_msgs demo_reply) = 15" by code_simp
  from append_refines_messages [OF small _ rec, of "''rest''"] len show ?thesis
    by (simp add: at_pos_def new_response_def)
qed

text \<open>C3: \<open>append\<close> returns on every input without a wrapping length field, reports at most the
  bytes it was given, keeps exactly the used ones, and leaves the response ready for the next call.\<close>

theorem append_returns_idle:
  assumes "no_wrap (rs_buf r @ data) (rs_cursor r)" and "response_idle r" and "length data < 2 ^ 64"
  shows "\<exists>ret n r'. response_append ossl r data = Some (ret, n, r') \<and> response_idle r' \<and>
    unat n \<le> length data \<and> rs_buf r' = rs_buf r @ take (unat n) data \<and>
    (ret = 0 \<and> unat n = length data \<or> ret = 1 \<and> rs_cursor r' = length (rs_buf r'))"
proof -
  obtain ret n r' where ret: "response_append ossl r data = Some (ret, n, r')"
    using response_append_returns [OF assms(1), of ossl] by auto
  with response_append_idle [OF assms(1,2) ret assms(3)] response_append_ret [OF ret] show ?thesis
    by auto
qed

theorem append_returns_idle_witness:
  "\<exists>ret n r'. response_append demo_openssl new_response ''Z'' = Some (ret, n, r') \<and> response_idle r' \<and>
    unat n \<le> length ''Z'' \<and> rs_buf r' = rs_buf new_response @ take (unat n) ''Z'' \<and>
    (ret = 0 \<and> unat n = length ''Z'' \<or> ret = 1 \<and> rs_cursor r' = length (rs_buf r'))"
proof -
  have "no_wrap (rs_buf new_response @ ''Z'') (rs_cursor new_response)" by code_simp
  from append_returns_idle [OF this idle_new_response, of demo_openssl] show ?thesis by simp
qed

text \<open>C4: a frame whose length field is 0xFFFFFFFF makes \<open>1 + len\<close> wrap to 0. When it stands
  where the next frame is expected and is not one that ends the response, \<open>append\<close> has no result.\<close>

theorem append_wrapped_length_stuck:
  assumes "rs_cursor r = length (rs_buf r)" and "5 \<le> length data" and "length data < 2 ^ 32"
    and "read_uint32 (drop 1 data) = 0xFFFFFFFF"
    and "event_type (data ! 0) \<notin> {PG_EVENT_READY, PG_EVENT_COPY_IN}"
  shows "response_append ossl r data = None"
proof -
  let ?buf = "rs_buf r @ data"
  obtain fr where "next_frame False ?buf (rs_cursor r) = Some (fr, rs_cursor r)"
      "fr_frame_size fr = 0" "fr_type fr = data ! 0"
    using next_frame_wrapped [of ?buf "rs_cursor r"] assms by (auto simp: nth_append)
  from append_loop_stuck [OF this(1,2)] this(3) assms show ?thesis
    by (simp add: response_append_def Let_def)
qed

theorem append_wrapped_length_stuck_witness:
  "response_append demo_openssl new_response [CHR ''D'', CHR 0xFF, CHR 0xFF, CHR 0xFF, CHR 0xFF] = None"
  (is "response_append _ _ ?d = None")
proof -
  have word: "read_uint32 (drop 1 ?d) = 0xFFFFFFFF" by (simp add: read_uint32_def be_nat_def)
  have event: "event_type (?d ! 0) \<notin> {PG_EVENT_READY, PG_EVENT_COPY_IN}" by (simp add: event_type_results)
  show ?thesis
    by (rule append_wrapped_length_stuck [OF _ _ _ word event]) (simp_all add: new_response_def)
qed

text \<open>C5: a whole session stays in step. A connection serves one request after the other, each
  answered by complete result sets, perhaps an error behind them, and a transaction status, as bytes
  on the wire; no answer but the last leaves the transaction failed (status E), after which the
  connection is given up. Every task then shows exactly its own answer: its \<open>PostgresStatus\<close> is the
  server's error or success, and the cursor over it reads the result sets and no more, those before an
  error included. The run is one of the framework's, and in the end the route and
  the \<open>WFPostgresConnection\<close> know the server's status: \<open>in_transaction\<close> holds exactly after T and
  \<open>is_transaction_failed\<close> exactly after E.\<close>

theorem session_in_step:
  assumes "session_ok xs" and "xs \<noteq> []" and "usable w" and "keep_alive_timeout (w_task w) \<noteq> 0"
    and "\<not> tk_is_ssl (w_task w)"
  shows "\<exists>tks w' h. run_exchanges ossl w (on_wire xs) = Some (tks, w') \<and>
    list_all2 (\<lambda>(tk, a) t. shows_answer num a t) xs tks \<and>
    task_step\<^sup>*\<^sup>* \<lparr>rn_world = w, rn_phase = Done, rn_auth = au\<rparr> \<lparr>rn_world = w', rn_phase = Done, rn_auth = au\<rparr> \<and>
    w_target w' = Some (char_code (an_status (snd (last xs)))) \<and> w_handle w' = Some h \<and>
    (in_transaction (cx\<lparr>cx_handle := h\<rparr>) \<longleftrightarrow> an_status (snd (last xs)) = CHR ''T'') \<and>
    (is_transaction_failed (cx\<lparr>cx_handle := h\<rparr>) \<longleftrightarrow> an_status (snd (last xs)) = CHR ''E'')"
proof -
  obtain tks w' where run: "run_exchanges ossl w (on_wire xs) = Some (tks, w')"
      "list_all2 (\<lambda>(tk, a) t. shows_answer num a t) xs tks" "knows_status (an_status (snd (last xs))) w'"
    using session_answered [OF assms(1,3,4)] assms(2) by blast
  from run session_steps [OF assms(1,3,5) run(1), of au] show ?thesis
    by (auto simp: knows_status_def in_transaction_def is_transaction_failed_def)
qed

text \<open>BEGIN, then two statements in one query, of which the second names a table that does not exist.\<close>

definition demo_session :: "(pg_task \<times> answer) list" where
  "demo_session =
     [(demo_task, \<lparr>an_sets = [Command ''BEGIN''], an_error = None, an_status = CHR ''T''\<rparr>),
      (demo_task, \<lparr>an_sets = [Command ''LOCK TABLE''], an_error = Some [(CHR ''C'', ''42P01'')], an_status = CHR ''E''\<rparr>)]"

lemma demo_query_task: "query_task demo_task"
  by (simp add: query_task_def answered_task_def demo_task_def new_task_def fresh_task_def set_query_def new_request_def
      new_response_def copy_request_def POSTGRES_KEEPALIVE_TRANSACTION_def)

lemma demo_session_ok: "session_ok demo_session"
  by (simp add: demo_session_def session_ok_Cons demo_query_task wf_answer_def answer_body_def small_msgs_def
      enc_error_def session_ok_def)

definition demo_w8 :: world where
  "demo_w8 = demo_w6\<lparr>w_handle := Some (cx_handle (new_connection 7))\<rparr>"

lemma demo_usable: "usable demo_w8"
proof -
  have "w_conn demo_w8 \<noteq> None" "w_target demo_w8 \<noteq> None" "w_handle demo_w8 \<noteq> None" by code_simp+
  then have parts: "w_conn demo_w8 = Some (the (w_conn demo_w8))" "w_target demo_w8 = Some (the (w_target demo_w8))"
    "w_handle demo_w8 = Some (the (w_handle demo_w8))" by auto
  have "\<not> has_ssl (the (w_conn demo_w8))" "cn_protocol_state (the (w_conn demo_w8)) = PG_PROTOCOL_READY"
    "cn_state (the (w_conn demo_w8)) = Stage_Used"
    by code_simp+
  with parts show ?thesis unfolding usable_def by blast
qed

theorem session_in_step_witness:
  "\<exists>tks w' h. run_exchanges demo_openssl demo_w8 (on_wire demo_session) = Some (tks, w') \<and>
    list_all2 (\<lambda>(tk, a) t. shows_answer (\<lambda>st. 0) a t) demo_session tks \<and> w_handle w' = Some h \<and>
    is_transaction_failed ((new_connection 7)\<lparr>cx_handle := h\<rparr>)"
proof -
  have "keep_alive_timeout (w_task demo_w8) \<noteq> 0" "\<not> tk_is_ssl (w_task demo_w8)" "demo_session \<noteq> []"
    "an_status (snd (last demo_session)) = CHR ''E''"
    by code_simp+
  with session_in_step [OF demo_session_ok _ demo_usable, of demo_openssl "\<lambda>st. 0" None "new_connection 7"]
  show ?thesis by blast
qed

text \<open>C6: a connection object implements the abstract connection of Connection_Run, task after
  task. While it is available, a query shows the server's answer, and the object then shows the
  status the server reported; an answer with status E or a broken connection loses it. Once it is
  lost every query is refused with ECONNRESET, over however many reconnections, so that nothing of
  a lost session is continued on a new connection; a disconnect succeeds from anywhere and makes
  it available as new.\<close>

theorem connection_refines_session:
  assumes "implements w s" and "\<forall>op \<in> set ops. wf_op op" and "accepted (Some resp)"
    and "session_run ops s = (outs, s')"
  shows "\<exists>tks w'. perform_all ossl resp ops w = Some (tks, w') \<and> list_all2 (shows_outcome num) outs tks \<and> implements w' s'"
  using assms by (rule run_simulates)

lemma demo_implements: "implements demo_w8 (Available CHR ''I'')"
proof -
  have parts: "w_handle demo_w8 \<noteq> None" "w_target demo_w8 \<noteq> None" "keep_alive_timeout (w_task demo_w8) \<noteq> 0" by code_simp+
  have "w_handle demo_w8 = Some (cx_handle (new_connection 7))" by (simp add: demo_w8_def)
  with parts demo_usable show ?thesis
    by (simp add: implements_def between_def open_route_def new_connection_def)
qed

definition demo_goodbye :: pg_task where
  "demo_goodbye = demo_task\<lparr>tk_req := set_is_disconnect True new_request\<rparr>"

lemma demo_disconnect_task: "disconnect_task demo_goodbye"
  by (simp add: demo_goodbye_def disconnect_task_def demo_task_def new_task_def fresh_task_def set_is_disconnect_def
      new_request_def new_response_def copy_request_def)

lemma demo_accepted: "accepted (Some demo_started)"
  by (simp add: accepted_def demo_started_def new_response_def)

text \<open>A transaction fails; the ROLLBACK is refused; then a disconnect, and a new BEGIN is answered.\<close>

definition demo_ops :: "user_op list" where
  "demo_ops = [Query demo_task (Answers (snd (demo_session ! 0))), Query demo_task (Answers (snd (demo_session ! 1))),
     Query demo_task (Breaks 32), Goodbye demo_goodbye, Query demo_task (Answers (snd (demo_session ! 0)))]"

theorem connection_refines_session_witness:
  "\<exists>tks w'. perform_all demo_openssl demo_started demo_ops demo_w8 = Some (tks, w') \<and>
    list_all2 (shows_outcome (\<lambda>st. 0))
      [Answered (snd (demo_session ! 0)), Answered (snd (demo_session ! 1)), Failed ECONNRESET, Closed,
       Answered (snd (demo_session ! 0))] tks \<and> implements w' (Available CHR ''T'')"
proof (rule connection_refines_session [OF demo_implements _ demo_accepted])
  have "wf_answer (snd (demo_session ! 0))" "wf_answer (snd (demo_session ! 1))"
    using demo_session_ok by (simp_all add: demo_session_def session_ok_Cons)
  then show "\<forall>op \<in> set demo_ops. wf_op op"
    by (simp add: demo_ops_def demo_query_task demo_disconnect_task wf_reply_def)
  show "session_run demo_ops (Available CHR ''I'') =
      ([Answered (snd (demo_session ! 0)), Answered (snd (demo_session ! 1)), Failed ECONNRESET, Closed,
        Answered (snd (demo_session ! 0))], Available CHR ''T'')"
    by (simp add: demo_ops_def demo_session_def)
qed

text \<open>C7: an ErrorResponse in the reply to a request records its fields and does not end the
  response: the messages up to ReadyForQuery are read, so the connection stays in step.\<close>

theorem append_reads_error:
  assumes "list_all quiet ms" and "list_all quiet ms'" and "small_msgs (ms @ (CHR ''E'', enc_error fs) # ms')"
    and "\<forall>(t, v) \<in> set fs. t \<noteq> NUL \<and> NUL \<notin> set v" and "\<not> rs_is_startup r"
    and "rs_cursor r = length (rs_buf r)" and "st \<in> {CHR ''I'', CHR ''T'', CHR ''E''}"
  shows "\<exists>r'. response_append ossl r
      (encode_msgs (ms @ (CHR ''E'', enc_error fs) # ms' @ [(CHR ''Z'', [st])]) @ rest) =
        Some (1, of_nat (length (encode_msgs (ms @ (CHR ''E'', enc_error fs) # ms' @ [(CHR ''Z'', [st])]))), r') \<and>
    rs_is_error r' \<and> rs_error r' = fold (\<lambda>(t, v). set_error_field t v) fs (rs_error r) \<and>
    rs_transaction_state r' = st \<and> rs_ready_for_query r'"
proof -
  let ?ms = "ms @ (CHR ''E'', enc_error fs) # ms' @ [(CHR ''Z'', [st])]"
  obtain r' where rec: "receive_msgs ossl r ?ms = (r', True, length (encode_msgs ?ms))"
    and r': "r' = r\<lparr>rs_is_error := True, rs_error := fold (\<lambda>(t, v). set_error_field t v) fs (rs_error r),
      rs_transaction_state := st, rs_ready_for_query := True\<rparr>"
    using receive_quiet [OF assms(1)] receive_error [OF assms(4)] receive_quiet [OF assms(2)]
      receive_ready [OF assms(7)] assms(5)
    by (simp add: Let_def)
  have "small_msgs ?ms" using assms(3) by (simp add: small_msgs_def)
  from response_append_receive [OF this assms(6) rec, of rest] r' show ?thesis
    by (simp add: at_pos_def)
qed

theorem append_reads_error_witness:
  "\<exists>r'. response_append demo_openssl new_response
      (encode_msgs ([] @ (CHR ''E'', enc_error [(CHR ''C'', ''42P01'')]) # [] @ [(CHR ''Z'', [CHR ''I''])]) @ []) =
        Some (1, of_nat (length (encode_msgs ([] @ (CHR ''E'', enc_error [(CHR ''C'', ''42P01'')]) # [] @ [(CHR ''Z'', [CHR ''I''])]))), r') \<and>
    rs_is_error r' \<and> rs_error r' = fold (\<lambda>(t, v). set_error_field t v) [(CHR ''C'', ''42P01'')] (rs_error new_response) \<and>
    rs_transaction_state r' = CHR ''I'' \<and> rs_ready_for_query r'"
  by (rule append_reads_error) (simp_all add: small_msgs_def new_response_def enc_error_def)

section \<open>Reading results\<close>

text \<open>C8: the whole way of a reply. The server's result sets, encoded as messages and followed by
  ReadyForQuery, are appended to an empty response; a cursor over it then reads, set by set, exactly
  the columns, the values of all rows (SQL NULLs included) and the command tags that were sent.\<close>

theorem reply_read_back:
  assumes "rs_buf r = []" and "rs_cursor r = 0" and "rss \<noteq> []"
    and "\<forall>rs \<in> set rss. wf_result_set rs" and "small_msgs (concat (map enc_result_set rss))"
    and "st \<in> {CHR ''I'', CHR ''T'', CHR ''E''}"
  shows "\<exists>n r' cu. response_append ossl r (encode_msgs (concat (map enc_result_set rss) @ [(CHR ''Z'', [st])]) @ rest) =
      Some (1, n, r') \<and> rs_transaction_state r' = st \<and> rs_ready_for_query r' \<and>
    cursor_new r' = Some cu \<and> read_sets (length rss) cu = Some (map set_view rss)"
proof -
  let ?ms = "concat (map enc_result_set rss)"
  obtain n r' where app: "response_append ossl r (encode_msgs (?ms @ [(CHR ''Z'', [st])]) @ rest) = Some (1, n, r')"
    and r': "rs_buf r' = encode_msgs (?ms @ [(CHR ''Z'', [st])]) @ []" "rs_transaction_state r' = st"
      "rs_ready_for_query r'"
    using response_append_receive [OF _ _ receive_reply [OF quiet_result_sets assms(6)], where ossl = ossl and rest = rest and r = r]
      assms(1,2,5) by (simp add: at_pos_def small_msgs_def)
  from cursor_reads_reply [OF r'(1) assms(3,5,4)] app r'(2,3) show ?thesis by blast
qed

definition demo_field :: "bytes \<Rightarrow> pg_field" where
  "demo_field name = \<lparr>fd_name = name, fd_table_oid = 0, fd_column_attr = 0, fd_type_oid = 23,
     fd_type_size = 4, fd_type_modifier = -1, fd_format = 0\<rparr>"

definition demo_sets :: "result_set list" where
  "demo_sets = [Rows [demo_field ''id''] [[Some ''1''], [None]] ''SELECT 2'', Command ''BEGIN'']"

theorem reply_read_back_witness:
  "\<exists>n r' cu. response_append demo_openssl new_response
      (encode_msgs (concat (map enc_result_set demo_sets) @ [(CHR ''Z'', [CHR ''T''])]) @ []) = Some (1, n, r') \<and>
    rs_transaction_state r' = CHR ''T'' \<and> rs_ready_for_query r' \<and>
    cursor_new r' = Some cu \<and> read_sets (length demo_sets) cu = Some (map set_view demo_sets)"
  by (rule reply_read_back)
    (simp_all add: new_response_def demo_sets_def demo_field_def wf_row_def small_msgs_def
      enc_row_description_def enc_field_def enc_data_row_def)

text \<open>C9: on whatever bytes the server sent, short of a wrapping length field, \<open>fetch_row\<close> returns,
  never moves backwards or out of the buffer, and every cell of a fetched row is NULL or lies in
  the buffer and belongs to a column of the cursor.\<close>

theorem fetch_row_memory_safe:
  assumes "cursor_ok cu"
  shows "\<exists>ok row' cu'. fetch_row cu row = Some (ok, row', cu') \<and> cursor_ok cu' \<and>
    cu_buf cu' = cu_buf cu \<and> cu_fields cu' = cu_fields cu \<and> cu_cursor cu \<le> cu_cursor cu' \<and>
    (ok \<longrightarrow> cu_cursor cu < cu_cursor cu' \<and> list_all (cell_in_buf cu') row')"
  using assms by (rule fetch_row_safe)

text \<open>The cursor of the witnesses: one column, and a buffer with one row and a cut-off frame.\<close>

definition demo_cursor :: pg_cursor where
  "demo_cursor = \<lparr>cu_buf = encode_frame (CHR ''D'') (enc_data_row [Some ''1'']) @ ''D'', cu_cursor = 0,
     cu_fields = [demo_field ''id''], cu_command_tag = [], cu_done = False, cu_owns_resp = False,
     cu_owned_resp = new_response\<rparr>"

lemma demo_cursor_ok: "cursor_ok demo_cursor"
  by code_simp

theorem fetch_row_memory_safe_witness:
  "\<exists>ok row' cu'. fetch_row demo_cursor [] = Some (ok, row', cu') \<and> cursor_ok cu' \<and>
    cu_buf cu' = cu_buf demo_cursor \<and> cu_fields cu' = cu_fields demo_cursor \<and>
    cu_cursor demo_cursor \<le> cu_cursor cu' \<and>
    (ok \<longrightarrow> cu_cursor demo_cursor < cu_cursor cu' \<and> list_all (cell_in_buf cu') row')"
  by (rule fetch_row_memory_safe [OF demo_cursor_ok])

text \<open>C10: \<open>fetch_all\<close> terminates on such a buffer, with at most as many rows as bytes left.\<close>

theorem fetch_all_terminates:
  assumes "cursor_ok cu"
  shows "\<exists>ok rows cu'. fetch_all cu = Some (ok, rows, cu') \<and> (ok \<longleftrightarrow> rows \<noteq> []) \<and> cursor_ok cu' \<and>
    length rows + cu_cursor cu \<le> length (cu_buf cu)"
  using fetch_all_loop_returns [OF assms, of "[]" "[]"]
  by (fastforce simp: fetch_all_def cursor_ok_def)

theorem fetch_all_terminates_witness:
  "\<exists>ok rows cu'. fetch_all demo_cursor = Some (ok, rows, cu') \<and> (ok \<longleftrightarrow> rows \<noteq> []) \<and> cursor_ok cu' \<and>
    length rows + cu_cursor demo_cursor \<le> length (cu_buf demo_cursor)"
  by (rule fetch_all_terminates [OF demo_cursor_ok])

text \<open>C11: \<open>next_result_set\<close> returns on such a buffer and leaves a cursor that is again within it, so
  that any sequence of cursor calls is safe.\<close>

theorem next_result_set_memory_safe:
  assumes "cursor_ok cu"
  shows "\<exists>ok cu'. next_result_set cu = Some (ok, cu') \<and> cursor_ok cu' \<and> cu_buf cu' = cu_buf cu"
  using assms by (rule next_result_set_safe)

theorem next_result_set_memory_safe_witness:
  "\<exists>ok cu'. next_result_set demo_cursor = Some (ok, cu') \<and> cursor_ok cu' \<and> cu_buf cu' = cu_buf demo_cursor"
  by (rule next_result_set_memory_safe [OF demo_cursor_ok])

text \<open>C12: every conversion of a detached cell gives what it gave on the original cell, whatever the
  response buffer holds by then, the errors and the undefined cases included; detaching again changes
  nothing. The elements of an array correspond: the same lengths, NULLs and bytes, read from the
  cell's own storage. The one exception is an array with a dimension count of -1 in a cell of less
  than 20 bytes, where the code reads behind the cell.\<close>

theorem detached_cell_conversions:
  assumes "wf_cell c" and "detach buf c = Some c'"
  shows "as_bool buf' flds c' = as_bool buf flds c \<and> as_int buf' flds c' = as_int buf flds c \<and>
    as_bigint buf' flds c' = as_bigint buf flds c \<and> as_string buf' c' = as_string buf c \<and>
    as_jsonb_string buf' flds c' = as_jsonb_string buf flds c \<and>
    as_uuid_string buf' flds c' = as_uuid_string buf flds c \<and>
    as_bytea buf' flds c' = as_bytea buf flds c \<and>
    as_double strtod buf' flds c' = as_double strtod buf flds c \<and>
    as_float strtof buf' flds c' = as_float strtof buf flds c \<and>
    as_datetime_string buf' flds c' = as_datetime_string buf flds c \<and>
    as_date_string buf' flds c' = as_date_string buf flds c \<and>
    as_time_string buf' flds c' = as_time_string buf flds c \<and>
    as_date buf' flds c' tm = as_date buf flds c tm \<and>
    as_time buf' flds c' tm usec = as_time buf flds c tm usec \<and>
    as_datetime buf' flds c' tm usec = as_datetime buf flds c tm usec \<and>
    as_time_point buf' flds c' = as_time_point buf flds c \<and>
    (array_ndim buf c \<noteq> -1 \<or> 20 \<le> cl_length c \<longrightarrow>
      rel_option (list_all2 (same_element (cell_mem buf' c') (cell_mem buf c)))
        (as_array buf' flds c') (as_array buf flds c) \<and>
      as_string_array buf' flds c' = as_string_array buf flds c \<and>
      as_bigint_array buf' flds c' = as_bigint_array buf flds c) \<and>
    detach buf' c' = Some c'"
  by (intro conjI impI detach_conversions [OF assms] detach_times [OF assms] detach_time_point [OF assms]
      detach_arrays [OF assms] detach_wf(2) [OF assms]) simp_all

theorem detached_cell_conversions_witness:
  "as_bool ''overwritten'' [] ((text_cell ''42'')\<lparr>cl_data := InStorage, cl_storage := ''42''\<rparr>) = as_bool ''42'' [] (text_cell ''42'') \<and>
   as_int ''overwritten'' [] ((text_cell ''42'')\<lparr>cl_data := InStorage, cl_storage := ''42''\<rparr>) = as_int ''42'' [] (text_cell ''42'') \<and>
   as_date ''overwritten'' [] ((text_cell ''42'')\<lparr>cl_data := InStorage, cl_storage := ''42''\<rparr>) (Some zero_tm) =
     as_date ''42'' [] (text_cell ''42'') (Some zero_tm) \<and>
   as_string_array ''overwritten'' [] ((text_cell ''42'')\<lparr>cl_data := InStorage, cl_storage := ''42''\<rparr>) =
     as_string_array ''42'' [] (text_cell ''42'')"
proof -
  have "wf_cell (text_cell ''42'')" by code_simp
  moreover have "detach ''42'' (text_cell ''42'') =
      Some ((text_cell ''42'')\<lparr>cl_data := InStorage, cl_storage := ''42''\<rparr>)"
    by code_simp
  moreover have "array_ndim ''42'' (text_cell ''42'') \<noteq> -1" by code_simp
  ultimately show ?thesis using detached_cell_conversions by blast
qed

lemma demo_cursor_row:
  "fetch_row demo_cursor [] = Some (True, [mk_cell (InBuf 11) 1 False (Some 0)], demo_cursor\<lparr>cu_cursor := 12\<rparr>)"
  by code_simp

text \<open>C13: a row fetched with \<open>fetch_row_copy\<close> has the values of the row \<open>fetch_row\<close> would give, and
  keeps them when the response buffer is overwritten or freed.\<close>

theorem owned_row_outlives_buffer:
  assumes "cursor_ok cu" and "fetch_row cu row = Some (True, row1, cu')"
  shows "\<exists>row2. fetch_row_copy cu row = Some (True, row2, cu') \<and>
    (\<forall>buf. row_values buf row2 = row_values (cu_buf cu) row1)"
  using assms by (rule fetch_row_copy_values)

theorem owned_row_outlives_buffer_witness:
  "\<exists>row2. fetch_row_copy demo_cursor [] = Some (True, row2, demo_cursor\<lparr>cu_cursor := 12\<rparr>) \<and>
    (\<forall>buf. row_values buf row2 = row_values (cu_buf demo_cursor) [mk_cell (InBuf 11) 1 False (Some 0)])"
  by (rule owned_row_outlives_buffer [OF demo_cursor_ok demo_cursor_row])







section \<open>The connection\<close>

text \<open>C15: in every reachable state, a request of the user that is in flight, other than a cancel
  request, goes over a connection whose startup the server accepted, with no error and protocol
  version 3; and over TLS when the URL asks for TLS.\<close>

theorem request_after_authentication:
  assumes "reachable r" and "rn_phase r = Waiting m" and "tk_is_user_request (w_task (rn_world r))"
    and "\<not> rq_is_cancel (tk_req (w_task (rn_world r)))"
  shows "accepted (rn_auth r) \<and> (\<exists>c. w_conn (rn_world r) = Some c \<and> Stage_Ready \<le> cn_state c \<and>
    (tk_is_ssl (w_task (rn_world r)) \<longrightarrow> has_ssl c))"
  using assms by (rule user_request_authenticated)

theorem request_after_authentication_witness:
  "accepted (Some demo_started) \<and> (\<exists>c. w_conn demo_w4 = Some c \<and> Stage_Ready \<le> cn_state c \<and>
    (tk_is_ssl (w_task demo_w4) \<longrightarrow> has_ssl c))"
proof -
  have "tk_is_user_request (w_task demo_w4)" "\<not> rq_is_cancel (tk_req (w_task demo_w4))" by code_simp+
  with request_after_authentication [OF demo_request, of "Plain Msg_UserReq"] show ?thesis by simp
qed

text \<open>C16: when the URL asks for TLS, the only messages that leave the client in the clear are the
  SSLRequest and the TLS handshake; the startup message with the credentials and the requests are
  inside the TLS session. Cancel requests are the exception (C21).\<close>

theorem tls_nothing_plain:
  assumes "reachable \<lparr>rn_world = w, rn_phase = Idle, rn_auth = a\<rparr>" and "message_out w = (Inl m, w')"
    and "tk_is_ssl (w_task w)" and "\<not> rq_is_cancel (tk_req (w_task w))"
  shows "m \<in> {Plain Msg_SSLRequest, Plain Msg_Handshaker} \<or> (\<exists>y. m = Wrapped y)"
  using assms by (rule tls_not_plain)

definition demo_tls_world :: world where
  "demo_tls_world = \<lparr>w_task = demo_task\<lparr>tk_is_ssl := True\<rparr>, w_conn = None, w_target = None, w_seq = 0,
     w_handle = None\<rparr>"

theorem tls_nothing_plain_witness:
  "Plain Msg_SSLRequest \<in> {Plain Msg_SSLRequest, Plain Msg_Handshaker} \<or> (\<exists>y. Plain Msg_SSLRequest = Wrapped y)"
proof (rule tls_nothing_plain)
  show "reachable \<lparr>rn_world = demo_tls_world, rn_phase = Idle, rn_auth = None\<rparr>"
    unfolding demo_tls_world_def
    by (rule reachable.Start) (simp add: fresh_task_def demo_task_def new_task_def)
  show "message_out demo_tls_world = (Inl (Plain Msg_SSLRequest), snd (message_out demo_tls_world))"
    by (simp add: prod_eq_iff) code_simp
  show "tk_is_ssl (w_task demo_tls_world)" "\<not> rq_is_cancel (tk_req (w_task demo_tls_world))" by code_simp+
qed

text \<open>C17: a \<open>WFPostgresConnection\<close> whose last request left a transaction open (or whose state is
  unknown) sends its next request only over the physical connection that request used, never over one
  that was opened or authenticated in between. In any run of tasks of one connection object, with the
  physical connections counted as they are opened, the number \<open>n\<close> of the connection the next request
  goes over is the number \<open>l\<close> of the one that carried the last request (a disconnect is not counted
  as one); that is the connection in the state the code calls used.\<close>

theorem transaction_stays_on_connection:
  assumes "object_run \<lparr>rn_world = w, rn_phase = Idle, rn_auth = a\<rparr> n l" and "message_out w = (Inl m, w')"
    and "tk_is_user_request (w_task w')"
    and "\<not> rq_is_disconnect (tk_req (w_task w))" and "\<not> rq_is_cancel (tk_req (w_task w))"
    and "w_target w = Some t" and "t \<noteq> PG_CONTINUITY_NEW" and "t \<noteq> PG_CONTINUITY_IDLE"
  shows "l = Some n \<and> (\<exists>c. w_conn w = Some c \<and> cn_state c = Stage_Used)"
  using assms by (rule open_transaction_last_connection)

theorem transaction_stays_on_connection_witness:
  "\<exists>c. w_conn demo_w7 = Some c \<and> cn_state c = Stage_Used"
proof -
  have "message_out demo_w7 = (Inl (Plain Msg_UserReq), snd (message_out demo_w7))"
    by (simp add: prod_eq_iff) code_simp
  moreover have "tk_is_user_request (w_task (snd (message_out demo_w7)))"
    "\<not> rq_is_disconnect (tk_req (w_task demo_w7))" "\<not> rq_is_cancel (tk_req (w_task demo_w7))"
    "w_target demo_w7 = Some (char_code (CHR ''T''))" "char_code (CHR ''T'') \<noteq> PG_CONTINUITY_NEW"
    "char_code (CHR ''T'') \<noteq> PG_CONTINUITY_IDLE"
    by code_simp+
  ultimately show ?thesis using transaction_stays_on_connection [OF demo_object_run] by blast
qed

text \<open>C18: a request is only handed out when the protocol state of its connection admits it: nothing
  on a broken connection, only COPY messages or a disconnect during COPY IN, only a disconnect
  while a notification is awaited, and no COPY message otherwise.\<close>

theorem request_fits_protocol_state:
  assumes "message_out w = (Inl m, w')" and "tk_is_user_request (w_task w')" and "w_conn w = Some c"
  shows "may_send (cn_protocol_state c) (tk_req (w_task w))"
  using assms by (rule sent_user_request_allowed)

theorem request_fits_protocol_state_witness:
  "may_send (cn_protocol_state (the (w_conn demo_w3))) (tk_req (w_task demo_w3))"
proof (rule request_fits_protocol_state [OF demo_out(2)])
  show "tk_is_user_request (w_task demo_w4)" by code_simp
  have "w_conn demo_w3 \<noteq> None" by code_simp
  then show "w_conn demo_w3 = Some (the (w_conn demo_w3))" by auto
qed

text \<open>C19: when a request fails in the transport, its connection is broken for good: whatever task is
  given it next, its request is refused.\<close>

theorem failed_connection_refuses:
  assumes "handle st err w = (st', err', w1)" and "tk_is_user_request (w_task w)"
    and "st \<noteq> WFT_STATE_SUCCESS" and "\<not> rq_is_disconnect (tk_req (w_task w))" and "\<not> rq_is_cancel (tk_req (w_task w))"
    and "\<not> (st = WFT_STATE_TASK_ERROR \<and> rs_is_error (tk_resp (w_task w)))"
    and "w_conn w = Some c" and "Stage_Ready \<le> cn_state c"
    and "message_out (w1\<lparr>w_task := tk, w_seq := n\<rparr>) = (x, w2)"
  shows "\<exists>e. x = Inr e \<and> (e = EBADF \<or> e = ECONNRESET)"
proof -
  have "w_conn w1 = Some (c\<lparr>cn_protocol_state := PG_PROTOCOL_BROKEN\<rparr>)"
    using assms(1-7) by (auto simp: handle_def update_after_response_def update_route_def Let_def split: if_splits)
  with broken_refused [OF assms(9)] assms(8) show ?thesis by simp
qed

theorem failed_connection_refuses_witness:
  "\<exists>e. (Inr EBADF :: net_msg + int) = Inr e \<and> (e = EBADF \<or> e = ECONNRESET)"
proof (rule failed_connection_refuses)
  let ?w = "demo_w4\<lparr>w_task := (w_task demo_w4)\<lparr>tk_fixed_conn := False\<rparr>\<rparr>"
  let ?res = "handle WFT_STATE_SYS_ERROR ECONNRESET ?w"
  let ?w1 = "snd (snd ?res)"
  show "?res = (fst ?res, fst (snd ?res), ?w1)" by simp
  show "message_out (?w1\<lparr>w_task := demo_task, w_seq := 2\<rparr>) =
      (Inr EBADF, snd (message_out (?w1\<lparr>w_task := demo_task, w_seq := 2\<rparr>)))"
    by (simp only: prod_eq_iff fst_conv snd_conv) code_simp
  show "tk_is_user_request (w_task ?w)" "WFT_STATE_SYS_ERROR \<noteq> WFT_STATE_SUCCESS"
    "\<not> rq_is_disconnect (tk_req (w_task ?w))" "\<not> rq_is_cancel (tk_req (w_task ?w))"
    "\<not> (WFT_STATE_SYS_ERROR = WFT_STATE_TASK_ERROR \<and> rs_is_error (tk_resp (w_task ?w)))"
    "Stage_Ready \<le> cn_state (the (w_conn ?w))"
    by code_simp+
  have "w_conn ?w \<noteq> None" by code_simp
  then show "w_conn ?w = Some (the (w_conn ?w))" by auto
qed

text \<open>C20: a fault. The startup response of a task is not cleared when the framework retries the task
  after a transport failure: when the first connection broke behind the header of an authentication
  request, the retried task, over a new connection, takes the new server's stream
  for the payload of that request and fails with an unsupported authentication.\<close>

theorem retried_startup_misread:
  assumes "fresh_task tk" and "\<not> tk_is_ssl tk" and "\<not> rq_is_cancel (tk_req tk)" and "\<not> rq_is_disconnect (tk_req tk)"
    and "4 \<le> n" and "n \<le> length data" and "length data < 2 ^ 31" and "data ! 0 = CHR ''R''"
  shows "\<exists>w1 w2 r w3 w4 w5 n2 r2 w6.
    message_out (plain_start tk t h) = (Inl (Plain Msg_StartupReq), w1) \<and> message_in w1 = (Plain Msg_StartupResp, w2) \<and>
    tk_startup_resp (w_task w2) = Some (fresh_startup_resp tk) \<and>
    response_append ossl (fresh_startup_resp tk) (auth_header n) = Some (0, 5, r) \<and>
    handle WFT_STATE_SYS_ERROR err (put_startup r w2) = (WFT_STATE_SYS_ERROR, err, w3) \<and>
    message_out (retried w3) = (Inl (Plain Msg_StartupReq), w4) \<and> message_in w4 = (Plain Msg_StartupResp, w5) \<and>
    tk_startup_resp (w_task w5) = Some r \<and> response_append ossl r data = Some (1, n2, r2) \<and>
    after_reply (put_startup r2 w5) = Some (True, w6) \<and>
    tk_state (w_task w6) = WFT_STATE_TASK_ERROR \<and> tk_error (w_task w6) = ERR_UNSUPPORTED_AUTH"
  using assms by (rule retry_misreads)

text \<open>AuthenticationOk is cut behind its length; the next server sends AuthenticationOk and ReadyForQuery.\<close>

theorem retried_startup_misread_witness:
  "\<exists>w1 w2 r w3 w4 w5 n2 r2 w6.
    message_out (plain_start demo_task None None) = (Inl (Plain Msg_StartupReq), w1) \<and>
    message_in w1 = (Plain Msg_StartupResp, w2) \<and> tk_startup_resp (w_task w2) = Some (fresh_startup_resp demo_task) \<and>
    response_append demo_openssl (fresh_startup_resp demo_task) (auth_header 4) = Some (0, 5, r) \<and>
    handle WFT_STATE_SYS_ERROR 104 (put_startup r w2) = (WFT_STATE_SYS_ERROR, 104, w3) \<and>
    message_out (retried w3) = (Inl (Plain Msg_StartupReq), w4) \<and> message_in w4 = (Plain Msg_StartupResp, w5) \<and>
    tk_startup_resp (w_task w5) = Some r \<and>
    response_append demo_openssl r (encode_msgs [(CHR ''R'', be_bytes 4 0), (CHR ''Z'', ''I'')]) = Some (1, n2, r2) \<and>
    after_reply (put_startup r2 w5) = Some (True, w6) \<and>
    tk_state (w_task w6) = WFT_STATE_TASK_ERROR \<and> tk_error (w_task w6) = ERR_UNSUPPORTED_AUTH"
  by (rule retried_startup_misread)
    (simp_all add: demo_task_def new_task_def fresh_task_def set_query_def new_request_def encode_frame_def)

text \<open>C21: a cancel request of a TLS task is sent in the clear on the new connection; when the server
  then closes the connection, which is its only answer, \<open>handle\<close> reports success and
  \<open>finish_once\<close> reads the answer to an SSLRequest that was never sent (a null pointer).\<close>

theorem tls_cancel_undefined:
  assumes "cancel_world w" and "message_out w = (x, w')"
  shows "x = Inl (Plain Msg_UserReq) \<and>
    finish_once ssl_ok (store_result (handle WFT_STATE_SYS_ERROR ECONNRESET w')) = None"
  using cancel_world_out [OF assms(1)] assms(2) cancel_finish_undefined [of w' ssl_ok] by auto

theorem tls_cancel_undefined_witness:
  "Inl (Plain Msg_UserReq) = (Inl (Plain Msg_UserReq) :: net_msg + int) \<and>
   finish_once True (store_result (handle WFT_STATE_SYS_ERROR ECONNRESET
     (snd (message_out (demo_tls_world\<lparr>w_task := (w_task demo_tls_world)\<lparr>tk_req := set_cancel 1 ''key'' new_request\<rparr>\<rparr>))))) = None"
proof (rule tls_cancel_undefined)
  let ?w = "demo_tls_world\<lparr>w_task := (w_task demo_tls_world)\<lparr>tk_req := set_cancel 1 ''key'' new_request\<rparr>\<rparr>"
  show "cancel_world ?w" by code_simp
  show "message_out ?w = (Inl (Plain Msg_UserReq), snd (message_out ?w))"
    by (simp only: prod_eq_iff fst_conv snd_conv) code_simp
qed

text \<open>C22: over TLS, the wrapper made for the startup message is handed out again for the server's
  answer, which therefore goes to the request object and not to the startup response.\<close>

theorem tls_answer_misrouted:
  assumes "message_out w = (x, w')" and "tk_is_ssl (w_task w)" and "w_seq w \<noteq> 0"
    and "w_conn w = Some c" and "cn_state c = Stage_Startup" and "has_ssl c" and "cn_wrapper c = None"
  shows "x = Inl (Wrapped Msg_StartupReq) \<and> fst (message_in w') = Wrapped Msg_StartupReq"
  using assms by (rule tls_startup_messages)

definition demo_tls_conn :: pg_conn where
  "demo_tls_conn = (new_conn (Some \<lparr>ssn_ctx = None, ssn_verify_host = None, ssn_no_partial_wildcards = False\<rparr>))
     \<lparr>cn_state := Stage_Startup\<rparr>"

theorem tls_answer_misrouted_witness:
  "Inl (Wrapped Msg_StartupReq) = (Inl (Wrapped Msg_StartupReq) :: net_msg + int) \<and>
   fst (message_in (snd (message_out (demo_tls_world\<lparr>w_seq := 2, w_conn := Some demo_tls_conn\<rparr>)))) = Wrapped Msg_StartupReq"
proof (rule tls_answer_misrouted)
  let ?w = "demo_tls_world\<lparr>w_seq := 2, w_conn := Some demo_tls_conn\<rparr>"
  show "message_out ?w = (Inl (Wrapped Msg_StartupReq), snd (message_out ?w))"
    by (simp only: prod_eq_iff fst_conv snd_conv) code_simp
  show "tk_is_ssl (w_task ?w)" "w_seq ?w \<noteq> 0" "w_conn ?w = Some demo_tls_conn" by code_simp+
  show "cn_state demo_tls_conn = Stage_Startup" "has_ssl demo_tls_conn" "cn_wrapper demo_tls_conn = None"
    by code_simp+
qed

text \<open>C23: a request on a new plain connection gets through: if the server accepts the startup
  message, the steps of the task lead to the user's own request being sent.\<close>

theorem startup_leads_to_request:
  assumes "fresh_task tk" and "\<not> tk_is_ssl tk" and "\<not> rq_is_cancel (tk_req tk)"
    and "\<not> rs_is_error (tk_resp tk)" and "accepted (Some resp)" and "request_allowed tk t"
  shows "\<exists>w. task_step\<^sup>*\<^sup>* \<lparr>rn_world = plain_start tk t h, rn_phase = Idle, rn_auth = None\<rparr>
      \<lparr>rn_world = w, rn_phase = Waiting (Plain Msg_UserReq), rn_auth = Some resp\<rparr> \<and>
    tk_is_user_request (w_task w) \<and> tk_req (w_task w) = tk_req tk"
  using assms by (rule startup_run)

theorem startup_leads_to_request_witness:
  "\<exists>w. task_step\<^sup>*\<^sup>* \<lparr>rn_world = plain_start demo_task (Some PG_CONTINUITY_NEW) None, rn_phase = Idle, rn_auth = None\<rparr>
      \<lparr>rn_world = w, rn_phase = Waiting (Plain Msg_UserReq), rn_auth = Some demo_started\<rparr> \<and>
    tk_is_user_request (w_task w) \<and> tk_req (w_task w) = tk_req demo_task"
  by (rule startup_leads_to_request)
    (simp_all add: fresh_task_def demo_task_def new_task_def demo_started_def new_response_def accepted_def
      request_allowed_def may_send_def copy_request_def set_query_def new_request_def idle_reconnect_def)

section \<open>Authentication\<close>

text \<open>C24: SCRAM is complete on both sides. For any server challenge that extends the client's nonce,
  the client's final message carries a proof the RFC 5802 server accepts for the stored key of the
  same password, and the client then accepts that server's signature.\<close>

theorem scram_mutual:
  assumes "openssl_ok ossl"
    and "CHR '','' \<notin> set (sc_client_nonce sc @ server_part)" and "sc_client_nonce sc @ server_part \<noteq> []"
    and "salt \<noteq> []" and "0 < i" and "i < 2 ^ 31"
    and "ossl_pbkdf2 ossl (sc_password sc) salt (nat i) = Some salted"
    and "server_first = ''r='' @ (sc_client_nonce sc @ server_part) @ '',s='' @ base64_encode ossl salt @
           '',i='' @ to_string i"
    and "without = ''c=biws,r='' @ sc_client_nonce sc @ server_part"
    and "auth = rfc_auth_message (sc_client_first_bare sc) server_first without"
    and "generate_client_final_message ossl server_first sc = (msg, sc')"
  shows "(\<exists>prf. msg = without @ '',p='' @ base64_encode ossl prf \<and>
      rfc_server_accepts ossl (ossl_sha256 ossl (ossl_hmac ossl salted ''Client Key'')) auth prf) \<and>
    verify_server_signature ossl (''v='' @ base64_encode ossl (rfc_server_signature ossl salted auth)) sc'"
proof -
  note final = scram_final_message [OF assms(1-10) refl]
  have "length salted = 32" using openssl_okD(2) [OF assms(1,7)] .
  moreover have "auth \<noteq> []" using assms(10) by (simp add: rfc_auth_message_def)
  ultimately have "verify_server_signature ossl
      (''v='' @ base64_encode ossl (rfc_server_signature ossl salted auth)) sc'"
    using verify_rfc_signature [OF assms(1), of sc'] final(1) assms(11) by simp
  with final assms(11) show ?thesis by auto
qed

definition demo_scram :: scram_auth where
  "demo_scram = new_scram\<lparr>sc_user := ''joe'', sc_password := ''pw'', sc_client_nonce := ''abc'',
     sc_client_first_bare := ''n=joe,r=abc''\<rparr>"

theorem scram_mutual_witness:
  "\<exists>msg sc'. generate_client_final_message demo_openssl
      (''r='' @ (''abc'' @ ''xyz'') @ '',s='' @ base64_encode demo_openssl ''salt'' @ '',i='' @ to_string 4096) demo_scram = (msg, sc') \<and>
    verify_server_signature demo_openssl (''v='' @ base64_encode demo_openssl
      (rfc_server_signature demo_openssl (demo_digest 32 (''pw'' @ ''salt'' @ show_nat 4096))
        (rfc_auth_message ''n=joe,r=abc''
          (''r='' @ (''abc'' @ ''xyz'') @ '',s='' @ base64_encode demo_openssl ''salt'' @ '',i='' @ to_string 4096)
          (''c=biws,r='' @ ''abc'' @ ''xyz'')))) sc'"
proof -
  obtain msg sc' where gen: "generate_client_final_message demo_openssl
      (''r='' @ (''abc'' @ ''xyz'') @ '',s='' @ base64_encode demo_openssl ''salt'' @ '',i='' @ to_string 4096) demo_scram = (msg, sc')"
    by force
  have pb: "ossl_pbkdf2 demo_openssl (sc_password demo_scram) ''salt'' (nat 4096) =
      Some (demo_digest 32 (''pw'' @ ''salt'' @ show_nat 4096))"
    by (simp add: demo_openssl_def demo_scram_def)
  have sc: "sc_client_nonce demo_scram = ''abc''" "sc_client_first_bare demo_scram = ''n=joe,r=abc''"
    by (simp_all add: demo_scram_def)
  from scram_mutual [OF demo_openssl_ok _ _ _ _ _ pb _ refl refl gen, of "''xyz''"] gen show ?thesis
    by (simp add: sc)
qed

text \<open>C25: the client accepts the end of a SCRAM exchange exactly when the message is the server
  signature of this exchange for the password; without a completed exchange it accepts nothing.\<close>

theorem server_signature_checked:
  assumes "openssl_ok ossl"
  shows "verify_server_signature ossl msg sc \<longleftrightarrow>
     length (sc_salted_password_cache sc) = 32 \<and> sc_auth_message sc \<noteq> [] \<and>
     (\<exists>sig. msg = ''v='' @ sig \<and> base64_decode ossl sig =
        rfc_server_signature ossl (sc_salted_password_cache sc) (sc_auth_message sc))"
  using assms by (rule verify_server_signature_iff)

theorem server_signature_checked_witness:
  "\<not> verify_server_signature demo_openssl ''v=AAAA'' demo_scram"
  using server_signature_checked [OF demo_openssl_ok, of "''v=AAAA''" demo_scram]
  by (simp add: demo_scram_def new_scram_def)

text \<open>C26: an authentication request is either answered without touching the error state, or fails
  with a FATAL error and sends nothing.\<close>

theorem auth_request_result:
  assumes "process_auth_request ossl payload r = (ret, r')"
  shows "ret = 0 \<and> rs_is_error r' = rs_is_error r \<and> rs_error r' = rs_error r
           \<and> rs_internal_error r' = rs_internal_error r
       \<or> ret = -1 \<and> rs_is_error r' \<and> err_severity (rs_error r') = ''FATAL'' \<and> rs_sent r' = rs_sent r"
  using assms by (rule process_auth_request_result)

theorem auth_request_result_witness:
  "(-1 :: int) = 0 \<and> rs_is_error (snd (process_auth_request demo_openssl ''R'' new_response)) = rs_is_error new_response
     \<and> rs_error (snd (process_auth_request demo_openssl ''R'' new_response)) = rs_error new_response
     \<and> rs_internal_error (snd (process_auth_request demo_openssl ''R'' new_response)) = rs_internal_error new_response
   \<or> (-1 :: int) = -1 \<and> rs_is_error (snd (process_auth_request demo_openssl ''R'' new_response)) \<and>
     err_severity (rs_error (snd (process_auth_request demo_openssl ''R'' new_response))) = ''FATAL'' \<and>
     rs_sent (snd (process_auth_request demo_openssl ''R'' new_response)) = rs_sent new_response"
  by (rule auth_request_result [where payload = "''R''" and ossl = demo_openssl])
    (simp add: process_auth_request_def)

section \<open>Requests\<close>

text \<open>C27: a query with parameters is sent as the messages Parse (unless skipped), Bind, Describe,
  Execute and Sync, and the server decodes from them the statement, the query, the type of every
  parameter, its format and value (NULL included), the portal and the result format.\<close>

theorem extended_query_decoded:
  assumes "\<not> rq_is_disconnect rq" and "\<not> rq_is_cancel rq" and "\<not> rq_is_copy rq"
    and "\<not> rq_wait_notification rq" and "\<not> rq_is_startup rq" and "rq_has_params rq"
    and "NUL \<notin> set (rq_statement_name rq)" and "NUL \<notin> set (rq_query rq)" and "NUL \<notin> set (rq_portal_name rq)"
    and "wf_params (rq_params rq)"
  shows "\<exists>oids. request_sent (request_encode rq) = encode_msgs
      ((if rq_skip_parse rq then [] else [(CHR ''P'', parse_payload rq)]) @
       [(CHR ''B'', bind_payload rq), (CHR ''D'', CHR ''P'' # rq_portal_name rq @ [NUL]),
        (CHR ''E'', rq_portal_name rq @ [NUL, NUL, NUL, NUL, NUL]), (CHR ''S'', [])]) \<and>
    srv_parse (parse_payload rq) = Some (rq_statement_name rq, rq_query rq, length (rq_params rq), oids) \<and>
    srv_dwords (length (rq_params rq)) oids = map par_type_oid (rq_params rq) \<and>
    srv_bind (bind_payload rq) = Some (rq_portal_name rq, rq_statement_name rq,
      map (\<lambda>par. ucast (par_format par)) (rq_params rq), map par_value (rq_params rq),
      [ucast (rq_result_format rq)])"
proof -
  have "length (rq_params rq) < 2 ^ 16" using assms(10) by (simp add: wf_params_def)
  from srv_parse_payload [OF assms(7,8) this] srv_bind_payload [OF assms(9,7,10)]
    srv_dwords_enc [of "rq_params rq" par_type_oid "[]"] encode_extended_query_msgs [of rq] assms(1-6)
  show ?thesis by (simp add: request_encode_def extended_msgs_def)
qed

definition demo_query :: pg_request where
  "demo_query = set_query_params ''SELECT $1, $2'' [mk_parameter ''7'' 0 23, null_parameter] new_request"

theorem extended_query_decoded_witness:
  "srv_bind (bind_payload demo_query) = Some ([], [], [0, 0], [Some ''7'', None], [0])"
proof -
  have "\<not> rq_is_disconnect demo_query" "\<not> rq_is_cancel demo_query" "\<not> rq_is_copy demo_query"
    "\<not> rq_wait_notification demo_query" "\<not> rq_is_startup demo_query" "rq_has_params demo_query"
    "NUL \<notin> set (rq_statement_name demo_query)" "NUL \<notin> set (rq_query demo_query)"
    "NUL \<notin> set (rq_portal_name demo_query)" "wf_params (rq_params demo_query)"
    by (simp_all add: demo_query_def set_query_params_def new_request_def wf_params_def mk_parameter_def
        null_parameter_def)
  from extended_query_decoded [OF this] show ?thesis
    by (auto simp: demo_query_def set_query_params_def new_request_def par_value_def mk_parameter_def
        null_parameter_def)
qed

text \<open>C28: the startup message of a task whose URL was accepted is decoded by the server as protocol
  version 3.2, the URL's user, its database (left out when it is empty), and the parameters the URL's
  query asks for, each once: \<open>timezone\<close> as \<open>TimeZone\<close>, \<open>application_name\<close>, \<open>options\<close>, \<open>client_encoding\<close>
  (UTF8 when it is not given), and every \<open>pgparam.x\<close> as \<open>x\<close>, which wins over a key \<open>x\<close>; but not
  \<open>pgparam.user\<close> and \<open>pgparam.database\<close>, which are dropped (\<open>wanted_param\<close>). The password the task
  authenticates with is the URL's.\<close>

theorem startup_message_parameters:
  assumes "init_success wkf env (new_task uri) = (True, tk)"
    and "uri_userinfo uri = Some (u @ (case p of None \<Rightarrow> [] | Some x \<Rightarrow> CHR '':'' # x)) \<or>
      uri_userinfo uri = None \<and> u = [] \<and> p = None"
    and "CHR '':'' \<notin> set u"
    and "uri_path uri = Some (CHR ''/'' # d) \<or> uri_path uri = None \<and> d = []"
    and "NUL \<notin> set (wf_url_decode wkf u)" and "NUL \<notin> set (wf_url_decode wkf d)"
    and "\<forall>(k, v) \<in> set (tk_startup_params tk). NUL \<notin> set k \<and> NUL \<notin> set v"
    and "length (request_sent (request_encode (make_startup_req tk))) < 2 ^ 32"
  shows "tk_pass tk = wf_url_decode wkf (case p of None \<Rightarrow> [] | Some x \<Rightarrow> x) \<and>
    (\<exists>params. srv_startup (request_sent (request_encode (make_startup_req tk))) =
        Some (196610, (''user'', wf_url_decode wkf u) #
          (if wf_url_decode wkf d = [] then [] else [(''database'', wf_url_decode wkf d)]) @ params) \<and>
      distinct (map fst params) \<and>
      (\<forall>k. map_of params k = wanted_param (parse_query wkf (uri_query uri) []) k))"
  using assms by (rule startup_message_of_url)

text \<open>A concrete Workflow for the witnesses: the query is split at the ampersands and the first
  equals sign of each part, and nothing is encoded.\<close>

definition demo_workflow :: workflow where
  "demo_workflow = \<lparr>wf_split_query = (\<lambda>q. map (\<lambda>p. (takeWhile (\<lambda>c. c \<noteq> CHR ''='') p,
       tl (dropWhile (\<lambda>c. c \<noteq> CHR ''='') p))) (split_on (CHR ''&'') q)),
     wf_url_decode = (\<lambda>s. s), wf_uri_parse = (\<lambda>url. UriOk demo_uri), wf_err_uri_scheme_invalid = 1001\<rparr>"

definition demo_ssl_env :: ssl_env where
  "demo_ssl_env = \<lparr>ssl_ctx_new_ok = True, ssl_fresh_id = 1, ssl_load_verify_ok = (\<lambda>f. True)\<rparr>"

definition demo_secret_uri :: parsed_uri where
  "demo_secret_uri = demo_uri\<lparr>uri_userinfo := Some ''joe:secret'',
     uri_query := Some ''application_name=app&timezone=UTC&pgparam.work_mem=4MB&pgparam.user=eve''\<rparr>"

definition demo_init :: pg_task where
  "demo_init = snd (init_success demo_workflow demo_ssl_env (new_task demo_secret_uri))"

lemma demo_init_ok: "init_success demo_workflow demo_ssl_env (new_task demo_secret_uri) = (True, demo_init)"
  by (simp only: prod_eq_iff demo_init_def fst_conv snd_conv) code_simp

lemma demo_init_settings:
  "tk_user demo_init = ''joe''" "tk_db demo_init = ''main''"
  "tk_startup_params demo_init = [(''TimeZone'', ''UTC''), (''application_name'', ''app''), (''client_encoding'', ''UTF8''),
     (''user'', ''eve''), (''work_mem'', ''4MB'')]"
  by code_simp+

theorem startup_message_parameters_witness:
  "tk_pass demo_init = ''secret'' \<and>
   (\<exists>params. srv_startup (request_sent (request_encode (make_startup_req demo_init))) =
      Some (196610, (''user'', ''joe'') # (''database'', ''main'') # params) \<and>
    map_of params ''TimeZone'' = Some ''UTC'' \<and> map_of params ''application_name'' = Some ''app'' \<and>
    map_of params ''client_encoding'' = Some ''UTF8'' \<and> map_of params ''work_mem'' = Some ''4MB'' \<and> map_of params ''user'' = None)"
proof -
  have url: "uri_userinfo demo_secret_uri = Some (''joe'' @ (case Some ''secret'' of None \<Rightarrow> [] | Some x \<Rightarrow> CHR '':'' # x))"
    "uri_path demo_secret_uri = Some (CHR ''/'' # ''main'')" "wf_url_decode demo_workflow x = x" for x
    by (simp_all add: demo_secret_uri_def demo_uri_def demo_workflow_def)
  have qm: "wanted_param (parse_query demo_workflow (uri_query demo_secret_uri) []) ''TimeZone'' = Some ''UTC''"
    "wanted_param (parse_query demo_workflow (uri_query demo_secret_uri) []) ''application_name'' = Some ''app''"
    "wanted_param (parse_query demo_workflow (uri_query demo_secret_uri) []) ''client_encoding'' = Some ''UTF8''"
    "wanted_param (parse_query demo_workflow (uri_query demo_secret_uri) []) ''work_mem'' = Some ''4MB''"
    "wanted_param (parse_query demo_workflow (uri_query demo_secret_uri) []) ''user'' = None"
    by code_simp+
  have "length (request_sent (request_encode (make_startup_req demo_init))) < 2 ^ 32"
    by (simp add: demo_init_settings make_startup_req_simps encode_startup_def request_sent_def
        write_uint32_def Let_def)
  with startup_message_parameters [OF demo_init_ok disjI1 [OF url(1)] _ disjI1 [OF url(2)]] show ?thesis
    by (simp add: url(3) demo_init_settings) (metis qm)
qed

section \<open>COPY\<close>

text \<open>C29: the data of a COPY OUT. The chunks the server sends between CopyOutResponse and CopyDone
  are, in order, what \<open>get_copy_data\<close> returns after the response is finished, and the copy is
  reported as done.\<close>

theorem copy_out_received:
  assumes "rs_buf r = []" and "rs_cursor r = 0" and "st \<in> {CHR ''I'', CHR ''T'', CHR ''E''}"
    and "small_msgs ((CHR ''H'', p) # map (Pair (CHR ''d'')) cs @ [(CHR ''c'', []), (CHR ''C'', tag)])"
  shows "\<exists>n r'. response_append ossl r (encode_msgs (((CHR ''H'', p) # map (Pair (CHR ''d'')) cs @
      [(CHR ''c'', []), (CHR ''C'', tag)]) @ [(CHR ''Z'', [st])]) @ rest) = Some (1, n, r') \<and>
    rs_is_copy_out r' \<and> get_copy_data r' = Some cs \<and> is_copy_done r' = Some True"
proof -
  let ?body = "map (Pair (CHR ''d'')) cs @ [(CHR ''c'', []), (CHR ''C'', tag)]"
  let ?ms = "((CHR ''H'', p) # ?body) @ [(CHR ''Z'', [st])]"
  have quiet: "list_all quiet ?body" by (simp add: list_all_iff quiet_def event_type_results)
  have small: "small_msgs ?ms" using assms(4) by (simp add: small_msgs_def)
  obtain r1 k where rec: "receive_msgs ossl r ?ms = (r1, True, k)" "rs_is_copy_out r1"
      "k = length (encode_msgs ?ms)"
    using receive_reply [OF quiet assms(3), of ossl "r\<lparr>rs_is_copy_out := True\<rparr>"]
    by (simp add: append_event_def event_type_results)
  let ?r' = "at_pos (encode_msgs ?ms) k r1"
  have app: "response_append ossl r (encode_msgs ?ms @ rest) = Some (1, of_nat k, ?r')"
    using response_append_receive [OF small _ rec(1), of rest] assms(1,2) rec(3) by simp
  have r': "rs_is_copy_out ?r'" "rs_buf ?r' = encode_msgs ?ms" using rec(2) by (simp_all add: at_pos_def)
  have chunks: "copy_payloads ?ms = cs"
    by (induction cs) (simp_all add: copy_payloads_def copy_end_def event_type_results)
  show ?thesis
    using app r'(1) get_copy_data_encode [OF small r'] is_copy_done_encode [OF small r'] chunks
    by (simp add: event_type_results)
qed

theorem copy_out_received_witness:
  "\<exists>n r'. response_append demo_openssl new_response (encode_msgs (((CHR ''H'', []) # map (Pair (CHR ''d'')) [''1,a'', ''2,b''] @
      [(CHR ''c'', []), (CHR ''C'', ''COPY 2'' @ [NUL])]) @ [(CHR ''Z'', [CHR ''I''])]) @ []) = Some (1, n, r') \<and>
    rs_is_copy_out r' \<and> get_copy_data r' = Some [''1,a'', ''2,b''] \<and> is_copy_done r' = Some True"
  by (rule copy_out_received) (simp_all add: new_response_def small_msgs_def)

text \<open>C30: COPY FROM STDIN on a connection object. The server's request for data ends the first task and keeps
  the connection; no query goes out on it; a task made with \<open>set_copy_data\<close> sends the data, when
  there is any, and CopyDone, and shows the server's answer, after which the connection is ready again
  with the server's status.\<close>

theorem copy_in_session:
  assumes "query_task tk" and "usable w" and "small_msgs [(CHR ''G'', p)]" and "query_task tk2" and "query_task tk3"
    and "wf_answer a"
  shows "\<exists>w1 w2 w3. serve_request ossl (encode_msgs [(CHR ''G'', p)]) (next_task tk w) = Some w1 \<and>
    tk_state (w_task w1) = WFT_STATE_SUCCESS \<and> keep_alive_timeout (w_task w1) \<noteq> 0 \<and>
    message_out (next_task tk2 w1) = (Inr EPROTO, w2) \<and>
    request_sent (request_encode (tk_req (copy_task data tk3))) =
      encode_msgs ((if data = [] then [] else [(CHR ''d'', data)]) @ [(CHR ''c'', [])]) \<and>
    serve_request ossl (encode_msgs (answer_msgs a)) (next_task (copy_task data tk3) w1) = Some w3 \<and>
    shows_answer num a (w_task w3) \<and> knows_status (an_status a) w3"
  using assms by (rule copy_in_run)

theorem copy_in_session_witness:
  "\<exists>w1 w2 w3. serve_request demo_openssl (encode_msgs [(CHR ''G'', [NUL, NUL, NUL])]) (next_task demo_task demo_w8) = Some w1 \<and>
    message_out (next_task demo_task w1) = (Inr EPROTO, w2) \<and>
    serve_request demo_openssl (encode_msgs (answer_msgs \<lparr>an_sets = [Command ''COPY 2''], an_error = None, an_status = CHR ''I''\<rparr>))
      (next_task (copy_task (''1,a'' @ [CHR 0x0A] @ ''2,b'' @ [CHR 0x0A]) demo_task) w1) = Some w3 \<and> knows_status CHR ''I'' w3"
proof -
  have "small_msgs [(CHR ''G'', [NUL, NUL, NUL])]" by (simp add: small_msgs_def)
  moreover have "wf_answer \<lparr>an_sets = [Command ''COPY 2''], an_error = None, an_status = CHR ''I''\<rparr>"
    by (simp add: wf_answer_def answer_body_def small_msgs_def)
  ultimately show ?thesis
    using copy_in_session [OF demo_query_task demo_usable _ demo_query_task demo_query_task,
      of "[NUL, NUL, NUL]" "\<lparr>an_sets = [Command ''COPY 2''], an_error = None, an_status = CHR ''I''\<rparr>" demo_openssl
        "''1,a'' @ [CHR 0x0A] @ ''2,b'' @ [CHR 0x0A]" "\<lambda>st. 0"] by fastforce
qed

section \<open>Connections and their settings\<close>

text \<open>C31: every query or disconnect task of an initialised \<open>WFPostgresConnection\<close> is bound to one
  physical connection, with the long keep-alive of a transaction for queries.\<close>

theorem connection_tasks_bound:
  assumes "finds_transaction wkf" and "connection_init wkf env url user_ctx cx = (0, e, cx')"
    and "cx_uri cx' = Some uri" and "init_success wkf env' (new_task uri) = (True, tk)"
  shows "tk_fixed_conn (connection_query_task wkf env' cx' uri query) \<and>
    tk_fixed_conn (connection_params_task wkf env' cx' uri query params) \<and>
    tk_fixed_conn (connection_disconnect_task wkf env' cx' uri) \<and>
    tk_keep_alive_timeo (connection_query_task wkf env' cx' uri query) = POSTGRES_KEEPALIVE_TRANSACTION \<and>
    tk_keep_alive_timeo (connection_params_task wkf env' cx' uri query params) = POSTGRES_KEEPALIVE_TRANSACTION"
  using connection_tasks_fixed [OF assms] by simp

lemma split_on_snoc: "sep \<notin> set t \<Longrightarrow> split_on sep (s @ sep # t) = split_on sep s @ [t]"
  by (induction sep s rule: split_on.induct)
    (auto simp: split_on_no_sep split_on_not_Nil split: list.splits)

lemma demo_finds_transaction: "finds_transaction demo_workflow"
  unfolding finds_transaction_def
proof (intro allI impI)
  fix q v :: bytes
  assume qv: "(q = [] \<or> last q = CHR ''&'') \<and> CHR ''&'' \<notin> set v"
  have "\<exists>ps. split_on (CHR ''&'') (q @ ''transaction='' @ v) = ps @ [''transaction='' @ v]"
  proof (cases q rule: rev_cases)
    case (snoc s c)
    with qv split_on_snoc [of "CHR ''&''" "''transaction='' @ v" s] show ?thesis by simp
  qed (use qv split_on_no_sep [of "CHR ''&''" "''transaction='' @ v"] in simp)
  then show "map_of (wf_split_query demo_workflow (q @ ''transaction='' @ v)) ''transaction'' \<noteq> None"
    by (auto simp: demo_workflow_def map_of_eq_None_iff)
qed

definition demo_connection :: pg_connection where
  "demo_connection = snd (snd (connection_init demo_workflow demo_ssl_env ''postgres://joe@db/main'' None (new_connection 7)))"

theorem connection_tasks_bound_witness:
  "tk_fixed_conn (connection_query_task demo_workflow demo_ssl_env demo_connection (the (cx_uri demo_connection)) ''BEGIN'') \<and>
   tk_keep_alive_timeo (connection_query_task demo_workflow demo_ssl_env demo_connection
     (the (cx_uri demo_connection)) ''BEGIN'') = POSTGRES_KEEPALIVE_TRANSACTION"
proof -
  have init: "connection_init demo_workflow demo_ssl_env ''postgres://joe@db/main'' None (new_connection 7) =
      (0, None, demo_connection)"
    by (simp only: prod_eq_iff demo_connection_def fst_conv snd_conv) code_simp
  have "cx_uri demo_connection \<noteq> None" by code_simp
  then have uri: "cx_uri demo_connection = Some (the (cx_uri demo_connection))" by auto
  have "fst (init_success demo_workflow demo_ssl_env (new_task (the (cx_uri demo_connection))))" by code_simp
  then have "init_success demo_workflow demo_ssl_env (new_task (the (cx_uri demo_connection))) =
      (True, snd (init_success demo_workflow demo_ssl_env (new_task (the (cx_uri demo_connection)))))"
    by (simp only: prod_eq_iff fst_conv snd_conv)
  from connection_tasks_bound [OF demo_finds_transaction init uri this] show ?thesis by blast
qed

text \<open>C32: the transaction tutorial, with a URL the connection object accepts, against any server without
  TLS that accepts every login, answers each statement with well-formed messages or breaks off, and
  closes the connection on the disconnect.
  The program then always ends with a successful disconnect and exit status 0, its connection object as
  new and without a context of its own. When the server answers every statement it commits. When the
  first query fails inside the transaction, the ROLLBACK the program then asks for is
  refused by the client with ECONNRESET, whatever the server would do.\<close>

theorem transaction_tutorial:
  assumes "plain_site si url"
  shows "\<exists>ls conn. transaction_main si (arg0 # url # args) =
      Some (ls @ [Cout ''[DISCONNECT] Connection terminated gracefully.''], 0, Some conn) \<and>
    cx_handle conn = cx_handle (new_connection 1) \<and> (cx_owns_ssl_ctx conn \<longrightarrow> cx_ssl_ctx conn = None) \<and>
    (story_ok (si_server si) \<longrightarrow> ls =
      [Cout ''[BEGIN] Success! In transaction: 1'',
       Cout ''[STEP 1] Success! Now executing parameterized query with bind_params...'',
       Cout ''[STEP 2] Success! Now committing...'', Cout ''[COMMIT] finished: OK (tx state: I)'']) \<and>
    (story_error (si_server si) fs \<longrightarrow> ls =
      [Cout ''[BEGIN] Success! In transaction: 1'',
       Cerr (''Query failed: '' @ status_to_string (si_num si) (from_server_error (answer_error fs)) @
         '', is_transaction_failed=1, rolling back...''),
       Cout (''[ROLLBACK] finished: '' @
         status_to_string (si_num si) (from_transport_error (si_num si) WFT_STATE_SYS_ERROR ECONNRESET) @
         '' (tx state: E)'')])"
  using assms by (rule transaction_main_outcomes)

definition demo_server :: "statement \<Rightarrow> reply" where
  "demo_server s =
     Answers (case s of
       St_Commit \<Rightarrow> \<lparr>an_sets = [Command ''COMMIT''], an_error = None, an_status = CHR ''I''\<rparr>
     | _ \<Rightarrow> \<lparr>an_sets = [Command ''OK''], an_error = None, an_status = CHR ''T''\<rparr>)"

definition demo_failing_server :: "statement \<Rightarrow> reply" where
  "demo_failing_server s = (case s of St_Step1 \<Rightarrow> Answers (snd (demo_session ! 1)) | _ \<Rightarrow> demo_server s)"

definition demo_site :: "(statement \<Rightarrow> reply) \<Rightarrow> site" where
  "demo_site server = \<lparr>si_workflow = demo_workflow, si_ssl_env = demo_ssl_env, si_num = (\<lambda>st. 1),
     si_openssl = demo_openssl, si_accept = demo_started, si_server = server,
     si_goodbye = Breaks ECONNRESET\<rparr>"

lemma demo_site_parts [simp]:
  "si_workflow (demo_site server) = demo_workflow" "si_ssl_env (demo_site server) = demo_ssl_env"
  "si_num (demo_site server) = (\<lambda>st. 1)" "si_accept (demo_site server) = demo_started" "si_server (demo_site server) = server"
  "si_goodbye (demo_site server) = Breaks ECONNRESET"
  by (simp_all add: demo_site_def)

lemma demo_site_plain:
  assumes "\<forall>s. wf_reply (server s)"
  shows "plain_site (demo_site server) ''postgres://joe@db/main''"
proof -
  have "case connection_init demo_workflow demo_ssl_env ''postgres://joe@db/main'' None (new_connection 1) of
        (ret, _, conn) \<Rightarrow> ret = 0 \<and>
          (case cx_uri conn of
             None \<Rightarrow> False
           | Some uri \<Rightarrow> (case init_success demo_workflow demo_ssl_env (new_task uri) of
                             (ok, tk) \<Rightarrow> ok \<and> \<not> tk_is_ssl tk \<and> tk_state tk \<noteq> WFT_STATE_SUCCESS))"
    by code_simp
  with assms demo_finds_transaction demo_accepted show ?thesis unfolding plain_site_def demo_site_parts by blast
qed

theorem transaction_tutorial_witness:
  "(\<exists>conn. transaction_main (demo_site demo_server) [''tutorial'', ''postgres://joe@db/main''] =
     Some ([Cout ''[BEGIN] Success! In transaction: 1'',
       Cout ''[STEP 1] Success! Now executing parameterized query with bind_params...'',
       Cout ''[STEP 2] Success! Now committing...'', Cout ''[COMMIT] finished: OK (tx state: I)'',
       Cout ''[DISCONNECT] Connection terminated gracefully.''], 0, Some conn)) \<and>
   (\<exists>conn. transaction_main (demo_site demo_failing_server) [''tutorial'', ''postgres://joe@db/main''] =
     Some ([Cout ''[BEGIN] Success! In transaction: 1'',
       Cerr ''Query failed: [Server Error] SQLSTATE: 42P01, is_transaction_failed=1, rolling back...'',
       Cout ''[ROLLBACK] finished: [Transport Error] state=1 error=104 (Transport error (state=1, error=104)) (tx state: E)'',
       Cout ''[DISCONNECT] Connection terminated gracefully.''], 0, Some conn))"
proof -
  have wf: "wf_reply (demo_server s)" for s
    by (cases s) (simp_all add: demo_server_def wf_reply_def wf_answer_def answer_body_def small_msgs_def)
  moreover have "wf_answer (snd (demo_session ! 1))"
    using demo_session_ok by (simp add: demo_session_def session_ok_Cons)
  ultimately have wf': "wf_reply (demo_failing_server s)" for s
    by (cases s) (simp_all add: demo_failing_server_def wf_reply_def)
  have ok: "story_ok (si_server (demo_site demo_server))"
    by (simp add: story_ok_def demo_site_def demo_server_def answers_ok_def)
  have err: "story_error (si_server (demo_site demo_failing_server)) [(CHR ''C'', ''42P01'')]"
    by (simp add: story_error_def demo_site_def demo_failing_server_def demo_server_def answers_ok_def demo_session_def)
  have texts: "status_to_string (\<lambda>st. 1) (from_server_error (answer_error [(CHR ''C'', ''42P01'')])) = ''[Server Error] SQLSTATE: 42P01''"
    "status_to_string (\<lambda>st. 1) (from_transport_error (\<lambda>st. 1) WFT_STATE_SYS_ERROR ECONNRESET) =
      ''[Transport Error] state=1 error=104 (Transport error (state=1, error=104))''"
    by code_simp+
  show ?thesis
    using transaction_tutorial [OF demo_site_plain, of demo_server "''tutorial''" "[]" "[]"]
      transaction_tutorial [OF demo_site_plain, of demo_failing_server "''tutorial''" "[]" "[(CHR ''C'', ''42P01'')]"]
      wf wf' ok err texts
    by auto
qed

text \<open>C33: with \<open>sslmode=verify-full\<close>, the TLS session a task starts verifies the server's
  certificate against the configured root certificates and the host name of the URL.\<close>

theorem verify_full_session:
  assumes "init_success wkf env (new_task uri) = (True, tk)"
    and "map_find (parse_query wkf (uri_query uri) []) ''sslmode'' = Some ''verify-full''"
    and "uri_host uri = Some h"
    and "w_task w = tk\<lparr>tk_state := WFT_STATE_SUCCESS, tk_ssl_resp := Some (CHR ''S'')\<rparr>" and "w_seq w = 0"
    and "finish_once True w = Some (fin, w')"
  shows "\<not> fin \<and> (\<exists>c s ctx. w_conn w' = Some c \<and> cn_state c = Stage_Handshake \<and> cn_ssl c = Some s \<and>
    ssn_verify_host s = Some h \<and> ssn_ctx s = Some ctx \<and> ctx_verify_peer ctx \<and>
    ctx_ca_file ctx = map_find (parse_query wkf (uri_query uri) []) ''sslrootcert'')"
proof -
  obtain ctx where "tk_is_ssl tk" "tk_verify_full tk" "tk_uri tk = uri" "tk_ssl_ctx tk = Some ctx"
      "ctx_verify_peer ctx" "ctx_ca_file ctx = map_find (parse_query wkf (uri_query uri) []) ''sslrootcert''"
    by (rule init_success_verify_full [OF assms(1-3)])
  with assms(3-6) show ?thesis
    by (auto simp: finish_once_def handle_starttls_transition_def new_conn_def set_failure_def Let_def)
qed

definition demo_verify_uri :: parsed_uri where
  "demo_verify_uri = demo_uri\<lparr>uri_query := Some ''sslmode=verify-full&sslrootcert=ca.pem''\<rparr>"

definition demo_verify_task :: pg_task where
  "demo_verify_task = snd (init_success demo_workflow demo_ssl_env (new_task demo_verify_uri))"

theorem verify_full_session_witness:
  "\<exists>c s ctx. w_conn (snd (the (finish_once True
      \<lparr>w_task = demo_verify_task\<lparr>tk_state := WFT_STATE_SUCCESS, tk_ssl_resp := Some (CHR ''S'')\<rparr>,
       w_conn = None, w_target = None, w_seq = 0, w_handle = None\<rparr>))) = Some c \<and>
    cn_ssl c = Some s \<and> ssn_verify_host s = Some ''db'' \<and> ssn_ctx s = Some ctx \<and> ctx_verify_peer ctx"
proof -
  let ?w = "\<lparr>w_task = demo_verify_task\<lparr>tk_state := WFT_STATE_SUCCESS, tk_ssl_resp := Some (CHR ''S'')\<rparr>,
    w_conn = None, w_target = None, w_seq = 0, w_handle = None\<rparr>"
  have init: "init_success demo_workflow demo_ssl_env (new_task demo_verify_uri) = (True, demo_verify_task)"
    by (simp only: prod_eq_iff demo_verify_task_def fst_conv snd_conv) code_simp
  have mode: "map_find (parse_query demo_workflow (uri_query demo_verify_uri) []) ''sslmode'' = Some ''verify-full''"
    "uri_host demo_verify_uri = Some ''db''" by code_simp+
  have "finish_once True ?w \<noteq> None" by code_simp
  then have "finish_once True ?w = Some (fst (the (finish_once True ?w)), snd (the (finish_once True ?w)))"
    by auto
  from verify_full_session [OF init mode _ _ this] show ?thesis by auto
qed

text \<open>C34: contexts, SSL objects and BIOs are freed once, and not before their last use. In any interleaving
  of \<open>init\<close>, \<open>deinit\<close>, tasks of the connection object and pooled tasks, their TLS starts (with any of
  the allocations failing), handshakes with the task's handshaker, reads and writes over a connection,
  destructors and closed connections, no operation uses an object that is gone; every
  reference to a context and every BIO has its one owner, and the context of every live task is owned.
  When all tasks and connections are gone, \<open>deinit\<close> leaves the user's contexts and nothing else. The
  discipline (\<open>disciplined\<close>): the user does not call \<open>init\<close> on an object that owns a context nor
  \<open>deinit\<close> while a task borrows it, and no task is brought to a second handshake on another
  connection than its first, which the framework's retries can do: the handshake then uses the freed
  SSL (\<open>retried_handshake\<close> in Tls_Life). This holds for every OpenSSL memory with the contract \<open>ssl_memory\<close>.\<close>

theorem tls_objects_accounted:
  assumes "ssl_memory mem holds" and "holds h {#} {#}" and "disciplined mem wkf ops (initial_state h n)"
  shows "\<exists>st. tls_run mem wkf ops (initial_state h n) = Some st \<and>
    holds (ts_heap st) (ctx_owners st) (bio_owners st) \<and>
    (\<forall>tk \<in> set (ts_tasks st). \<forall>c \<in> set_option (tk_ssl_ctx tk). ctx_id c \<in># ctx_owners st) \<and>
    (ts_tasks st = [] \<and> ts_ssls st = [] \<longrightarrow>
      (\<exists>h'. connection_deinit_heap mem (ts_conn st) (ts_heap st) = Some h' \<and>
        holds h' (mset (map ctx_id (ts_users st))) {#}))"
proof -
  obtain st where run: "tls_run mem wkf ops (initial_state h n) = Some st" and ok: "tls_ok holds st"
    using ssl_memory.tls_run_ok [OF assms(1) tls_ok_initial [of holds, OF assms(2)] assms(3)] by blast
  have "ctx_id c \<in># ctx_owners st" if "tk \<in> set (ts_tasks st)" "tk_ssl_ctx tk = Some c" for tk c
    using task_ctx_live [OF ok that] .
  with run ok ssl_memory.tls_ok_empty [OF assms(1) ok] show ?thesis by (auto simp: tls_ok_def)
qed

text \<open>A query and a cancel task of a verifying connection; the query starts TLS, shakes hands in two
  rounds and sends, both end, and \<open>deinit\<close>.\<close>

definition demo_tls_workflow :: workflow where
  "demo_tls_workflow = demo_workflow\<lparr>wf_uri_parse := (\<lambda>url. UriOk demo_verify_uri)\<rparr>"

definition demo_tls_ops :: "tls_op list" where
  "demo_tls_ops = [Init demo_ssl_env ''postgres://db'' None, Conn_task demo_ssl_env (Query_task ''BEGIN''),
     Starttls 0 CHR ''S'' \<lparr>new_rbio_ok = True, new_wbio_ok = True, new_ssl_ok = True\<rparr>, Handshake 0 0, Handshake 0 0, Transfer 0,
     Conn_task demo_ssl_env Cancel_task, Starttls 0 CHR ''S'' \<lparr>new_rbio_ok = True, new_wbio_ok = True, new_ssl_ok = False\<rparr>, Finish 0, Finish 0, Deinit, Close 0]"

theorem tls_objects_accounted_witness:
  "\<exists>st. tls_run counted_mem demo_tls_workflow demo_tls_ops (initial_state empty_heap 7) = Some st \<and>
    (\<forall>i. oh_refs (ts_heap st) i = count (ctx_owners st) i) \<and> mset (oh_bios (ts_heap st)) = bio_owners st"
proof -
  have "disciplined counted_mem demo_tls_workflow demo_tls_ops (initial_state empty_heap 7)" by code_simp
  from tls_objects_accounted [OF counted.ssl_memory_axioms counts_empty this] show ?thesis
    by (auto simp: counts_def)
qed

section \<open>Values and cells\<close>

text \<open>C35: the texts of array parameters are what the server's array syntax reads as the given
  elements: braces around, commas between; strings with any characters, quotes, backslashes, commas and
  braces included; integers with their signs and nothing behind them.\<close>

theorem array_values_decoded:
  "srv_text_array (vl_data (value_text_array vec)) = Some vec \<and>
   srv_int_array (vl_data (value_int64_array ints)) = Some (map sint ints) \<and>
   srv_int_array (vl_data (value_int32_array ints32)) = Some (map sint ints32)"
  by (simp add: value_text_array_def value_int64_array_def value_int32_array_def typed_value_def
      srv_text_array_text srv_int_array_format)

text \<open>C36: \<open>as_array\<close> on any binary cell with a dimension count that is not negative and below the
  overflow of \<open>12 + 8 * ndim\<close>: every element is NULL or lies inside the cell, behind the header.\<close>

theorem array_elements_in_cell:
  assumes "cell_bytes buf c = Some d" and "cell_binary flds c = Some binary"
    and "0 \<le> array_ndim buf c" and "array_ndim buf c < 2 ^ 28 - 2"
  shows "\<exists>cells. as_array buf flds c = Some cells \<and>
    (\<forall>e \<in> set cells. cl_data e = NullPtr \<and> cl_is_null e \<and> cl_length e = 0 \<or>
       (\<exists>q. cl_data e = InBuf q \<and> cell_off c + 20 \<le> q \<and>
            q + cl_length e \<le> cell_off c + cl_length c))"
  using assms by (rule as_array_within)

definition binary_field :: pg_field where
  "binary_field = (demo_field ''v'')\<lparr>fd_format := 1\<rparr>"

definition binary_cell :: "bytes \<Rightarrow> pg_cell" where
  "binary_cell s = mk_cell (InBuf 0) (length s) False (Some 0)"

lemma binary_cell_facts:
  "cell_binary [binary_field] (binary_cell s) = Some True" "cell_bytes s (binary_cell s) = Some s"
  "\<not> cl_is_null (binary_cell s)" "cl_data (binary_cell s) = InBuf 0" "cl_length (binary_cell s) = length s"
  by (simp_all add: binary_cell_def mk_cell_def cell_binary_def binary_field_def demo_field_def
      cell_bytes_def cell_off_def cell_mem_def)

definition demo_array :: bytes where
  "demo_array = enc_array 0 25 [Some ''a'', None]"

lemma demo_array_ndim: "array_ndim demo_array (binary_cell demo_array) = 1"
proof -
  have "read_int32 demo_array = 1"
    by (simp add: demo_array_def enc_array_def read_int32_def read_uint32_def be_nat_be_bytes)
  then show ?thesis by (simp add: array_ndim_def binary_cell_facts)
qed

theorem array_elements_in_cell_witness:
  "\<exists>cells. as_array demo_array [binary_field] (binary_cell demo_array) = Some cells \<and>
    (\<forall>e \<in> set cells. cl_data e = NullPtr \<and> cl_is_null e \<and> cl_length e = 0 \<or>
       (\<exists>q. cl_data e = InBuf q \<and> cell_off (binary_cell demo_array) + 20 \<le> q \<and>
            q + cl_length e \<le> cell_off (binary_cell demo_array) + cl_length (binary_cell demo_array)))"
  by (rule array_elements_in_cell [OF binary_cell_facts(2,1)]) (simp_all add: demo_array_ndim)

section \<open>Dates and times\<close>

text \<open>C37: a binary date or timestamp, whatever its bytes are, gives a broken down time whose
  fields are in their ranges, the day within its month; and binary bytes of a time give a time of day,
  except when a second is borrowed for a negative fraction from the least \<open>int\<close>
  (\<open>time_underflows\<close>), which is an overflow and undefined.\<close>

theorem binary_times_in_range:
  assumes "binary_bytes buf flds c (be_bytes 4 (unat (w :: i32)))"
    and "binary_bytes buf flds c8 (be_bytes 8 (unat (v :: i64)))"
  shows "(\<exists>t. as_date buf flds c (Some t0) = Some (True, Some t, None) \<and> valid_tm t) \<and>
    (\<exists>t us. as_datetime buf flds c8 (Some t0) (Some u) = Some (True, Some t, Some us, None) \<and>
       valid_tm t \<and> 0 \<le> us \<and> us < 1000000) \<and>
    (if sint v smod 1000000 < 0 \<and> sint (word_of_int (sint v sdiv 1000000) :: i32) = - (2 ^ 31)
     then as_time buf flds c8 (Some t0) (Some u) = None
     else \<exists>t us. as_time buf flds c8 (Some t0) (Some u) = Some (True, Some t, Some us, None) \<and>
       0 \<le> tm_hour t \<and> tm_hour t < 24 \<and> 0 \<le> tm_min t \<and> tm_min t < 60 \<and>
       0 \<le> tm_sec t \<and> tm_sec t < 60 \<and> 0 \<le> us \<and> us < 1000000)"
  using as_date_binary [OF assms(1)] as_datetime_binary [OF assms(2)] as_time_any [OF assms(2)] gmtime_valid
  unfolding time_underflows_def time_of_day_def by auto

lemma binary_cell_bytes: "binary_bytes s [binary_field] (binary_cell s) s"
  by (simp add: binary_bytes_def binary_cell_facts)

theorem binary_times_in_range_witness:
  "(\<exists>t. as_date (be_bytes 4 (unat (-1 :: i32)) @ be_bytes 8 (unat (-1 :: i64))) [binary_field]
      (mk_cell (InBuf 0) 4 False (Some 0)) (Some zero_tm) = Some (True, Some t, None) \<and> valid_tm t) \<and>
   (\<exists>t us. as_datetime (be_bytes 4 (unat (-1 :: i32)) @ be_bytes 8 (unat (-1 :: i64))) [binary_field]
      (mk_cell (InBuf 4) 8 False (Some 0)) (Some zero_tm) (Some 0) = Some (True, Some t, Some us, None) \<and>
      valid_tm t \<and> 0 \<le> us \<and> us < 1000000) \<and>
   (\<exists>t us. as_time (be_bytes 4 (unat (-1 :: i32)) @ be_bytes 8 (unat (-1 :: i64))) [binary_field]
      (mk_cell (InBuf 4) 8 False (Some 0)) (Some zero_tm) (Some 0) = Some (True, Some t, Some us, None) \<and>
      0 \<le> tm_hour t \<and> tm_hour t < 24 \<and> 0 \<le> us \<and> us < 1000000)"
proof -
  let ?buf = "be_bytes 4 (unat (-1 :: i32)) @ be_bytes 8 (unat (-1 :: i64))"
  have cells: "binary_bytes ?buf [binary_field] (mk_cell (InBuf 0) 4 False (Some 0)) (be_bytes 4 (unat (-1 :: i32)))"
    "binary_bytes ?buf [binary_field] (mk_cell (InBuf 4) 8 False (Some 0)) (be_bytes 8 (unat (-1 :: i64)))"
    by (simp_all add: binary_bytes_def mk_cell_def cell_binary_def binary_field_def demo_field_def
        cell_bytes_def cell_off_def cell_mem_def)
  have "sint (word_of_int (sint (-1 :: i64) sdiv 1000000) :: i32) \<noteq> - (2 ^ 31)"
    by (simp add: signed_divide_int_def)
  with binary_times_in_range [OF cells, of zero_tm 0] show ?thesis by (simp only: simp_thms if_False) blast
qed

text \<open>C38: a binary timestamp of the years 1000 to 9999 is the moment it counts, to the microsecond, and
  the text \<open>as_datetime_string\<close> prints for it, with a fraction or without, reads back as the same
  moment. (Other years, such as that of the server's infinity, print with fewer or more than four
  digits, and such a text does not read back.)\<close>

theorem timestamps_agree:
  assumes "binary_bytes buf flds c (be_bytes 8 (unat (v :: i64)))"
    and "as_datetime buf flds c (Some t0) (Some u) = Some (True, Some t, Some us, e)"
    and "-900 \<le> tm_year t" and "tm_year t \<le> 8099"
  shows "fst (timegm t) * 1000000 + us = sint v + 946684800000000 \<and>
    (\<exists>s. as_datetime_string buf flds c = Some (s, None) \<and>
       as_datetime s flds' (text_cell s) (Some t0) (Some u) = Some (True, Some t, Some us, None))"
proof -
  let ?e = "sint v div 1000000 + 946684800"
  have t: "t = gmtime ?e" and us: "us = sint v mod 1000000"
    using assms(2) as_datetime_binary [OF assms(1)] by simp_all
  note range = in_range_gmtime [of ?e, folded t, OF assms(3,4)]
  have micros: "0 \<le> us" "us < 1000000" unfolding us by simp_all
  let ?s = "strftime_date t @ '' '' @ strftime_time t @ (if us > 0 then ''.'' @ show_padded_int 6 us else [])"
  have "NUL \<notin> set ?s" using printed_no_NUL [OF range] padded_no_NUL [OF micros(1), of 6] by simp
  moreover have "as_datetime_text ?s (Some 0) = (True, Some t, Some us, None)"
    using as_datetime_text_printed(1,2) [OF range, where usec = "Some 0"] micros by (cases "us = 0") simp_all
  ultimately show ?thesis
    using as_datetime_string_binary [OF assms(1) t us assms(3,4)] timegm_gmtime [of ?e, folded t] us
    by (simp add: as_datetime_text_cell)
qed

theorem timestamps_agree_witness:
  "fst (timegm \<lparr>tm_year = 99, tm_mon = 11, tm_mday = 31, tm_hour = 23, tm_min = 59, tm_sec = 59\<rparr>) * 1000000 + 999999 =
    -1 + 946684800000000 \<and>
   (\<exists>s. as_datetime_string (be_bytes 8 (unat (-1 :: i64))) [binary_field] (binary_cell (be_bytes 8 (unat (-1 :: i64)))) = Some (s, None) \<and>
      as_datetime s [] (text_cell s) (Some zero_tm) (Some 0) =
        Some (True, Some \<lparr>tm_year = 99, tm_mon = 11, tm_mday = 31, tm_hour = 23, tm_min = 59, tm_sec = 59\<rparr>, Some 999999, None))"
proof -
  have moment: "gmtime (sint (-1 :: i64) div 1000000 + 946684800) =
      \<lparr>tm_year = 99, tm_mon = 11, tm_mday = 31, tm_hour = 23, tm_min = 59, tm_sec = 59\<rparr>"
    by code_simp
  note cell = binary_cell_bytes [of "be_bytes 8 (unat (-1 :: i64))"]
  have read: "as_datetime (be_bytes 8 (unat (-1 :: i64))) [binary_field] (binary_cell (be_bytes 8 (unat (-1 :: i64))))
      (Some zero_tm) (Some 0) = Some (True, Some (gmtime (sint (-1 :: i64) div 1000000 + 946684800)), Some 999999, None)"
    using as_datetime_binary [OF cell, of zero_tm "Some 0"] by simp
  have "-900 \<le> tm_year (gmtime (sint (-1 :: i64) div 1000000 + 946684800))"
    "tm_year (gmtime (sint (-1 :: i64) div 1000000 + 946684800)) \<le> 8099"
    unfolding moment by simp_all
  from timestamps_agree [OF cell read this, of "[]"] show ?thesis unfolding moment by simp
qed

text \<open>C39: the text of a timestamp of the years 1000 to 9999, as the server and other programs write it,
  with no fraction or one of any number of digits (the first six count, a missing one is 0), and with no zone, \<open>Z\<close>,
  or an offset of hours or of hours and minutes, with or without a colon. The offset is
  subtracted, in either direction, and the fraction kept; except for the local time one second before
  1970, which \<open>timegm\<close>'s error value is confused with and which is returned as it stands.\<close>

theorem timestamp_offset:
  assumes "in_range_tm t" and "digits_only f" and "zone_ok z"
    and "s = strftime_date t @ '' '' @ strftime_time t @ frac_text f @ zone_text z"
  shows "as_datetime s flds (text_cell s) (Some t0) (Some u) =
    Some (True, Some (if z = No_Zone then t else if fst (timegm t) = -1 then snd (timegm t)
      else gmtime (fst (timegm t) - zone_seconds z)), Some (frac_micros f), None)"
  using assms by (rule as_datetime_zone)

theorem timestamp_offset_witness:
  "as_datetime ''2024-02-29 12:00:00.5+02'' [] (text_cell ''2024-02-29 12:00:00.5+02'') (Some zero_tm) (Some 0) =
    Some (True, Some \<lparr>tm_year = 124, tm_mon = 1, tm_mday = 29, tm_hour = 10, tm_min = 0, tm_sec = 0\<rparr>, Some 500000, None) \<and>
   as_datetime ''1969-12-31 23:59:59+01:00'' [] (text_cell ''1969-12-31 23:59:59+01:00'') (Some zero_tm) (Some 0) =
    Some (True, Some \<lparr>tm_year = 69, tm_mon = 11, tm_mday = 31, tm_hour = 23, tm_min = 59, tm_sec = 59\<rparr>, Some 0, None)"
proof
  let ?t = "\<lparr>tm_year = 124, tm_mon = 1, tm_mday = 29, tm_hour = 12, tm_min = 0, tm_sec = 0\<rparr>"
  have printed: "''2024-02-29 12:00:00.5+02'' = strftime_date ?t @ '' '' @ strftime_time ?t @ frac_text (Some ''5'') @
      zone_text (Hours True 2)" by code_simp
  have moment: "fst (timegm ?t) \<noteq> -1" "gmtime (fst (timegm ?t) - zone_seconds (Hours True 2)) =
      \<lparr>tm_year = 124, tm_mon = 1, tm_mday = 29, tm_hour = 10, tm_min = 0, tm_sec = 0\<rparr>" by code_simp+
  have half: "frac_micros (Some ''5'') = 500000" by (simp add: frac_micros_def isdigit_def digit_val_def)
  have "in_range_tm ?t" "digits_only (Some ''5'')" "zone_ok (Hours True 2)" by code_simp+
  from timestamp_offset [OF this printed, of "[]" zero_tm 0] moment half
  show "as_datetime ''2024-02-29 12:00:00.5+02'' [] (text_cell ''2024-02-29 12:00:00.5+02'') (Some zero_tm) (Some 0) =
    Some (True, Some \<lparr>tm_year = 124, tm_mon = 1, tm_mday = 29, tm_hour = 10, tm_min = 0, tm_sec = 0\<rparr>, Some 500000, None)"
    by simp
next
  let ?t = "\<lparr>tm_year = 69, tm_mon = 11, tm_mday = 31, tm_hour = 23, tm_min = 59, tm_sec = 59\<rparr>"
  have printed: "''1969-12-31 23:59:59+01:00'' = strftime_date ?t @ '' '' @ strftime_time ?t @ frac_text None @
      zone_text (Minutes True 1 True 0)" by code_simp
  have "timegm ?t = (-1, ?t)" by (simp only: prod_eq_iff) code_simp
  moreover have "in_range_tm ?t" "digits_only None" "zone_ok (Minutes True 1 True 0)" "frac_micros None = 0" by code_simp+
  ultimately show "as_datetime ''1969-12-31 23:59:59+01:00'' [] (text_cell ''1969-12-31 23:59:59+01:00'') (Some zero_tm) (Some 0) =
    Some (True, Some ?t, Some 0, None)"
    using timestamp_offset [OF _ _ _ printed, of "[]" zero_tm 0] by simp
qed

text \<open>C40: a time point bound as a parameter reads back from its text as the same time point, to the
  microsecond (the digits below are cut off); the second before 1970 alone is taken for an error.\<close>

theorem time_points_read_back:
  assumes "fits_int64 tp" and "s = vl_data (value_time_point tp)"
  shows "as_time_point s flds (text_cell s) =
    (if tp sdiv 1000 div 1000000 = -1 then Some (0, Some EINVAL) else Some (tp sdiv 1000 * 1000, None))"
  using assms by (rule time_point_read_back)

theorem time_points_read_back_witness:
  "as_time_point (vl_data (value_time_point 1709210096123456789)) []
     (text_cell (vl_data (value_time_point 1709210096123456789))) = Some (1709210096123456000, None)"
  by (rule trans [OF time_points_read_back [OF _ refl]]) (simp_all add: fits_int64_def signed_divide_int_def)

end
